(* ===== verification/Prelude.thy ===== *)
theory Prelude
  imports Complex_Main "HOL-Library.Word" "HOL-Library.Log_Nat" "HOL-Library.Multiset"
begin

unbundle bit_operations_syntax

text \<open>
  Shared vocabulary of the development: the machine types of the C sources, undefined behaviour
  as a value (\<open>fault\<close>), the result type of fallible code with its bind, C strings in byte
  buffers, little-endian and network-order words, and the generic list lemmas that several
  components use.  The target is the LP64 little-endian ABI the project is built for: \<open>int\<close> and
  \<open>unsigned int\<close> have 32 bits, pointers 64, \<open>char\<close> 8.
\<close>

named_theorems res_simps \<open>unfolding rules of the result type\<close>
named_theorems codec_simps \<open>byte encodings and their lengths\<close>

section \<open>Machine types\<close>

type_synonym byte = "8 word"
type_synonym u16 = "16 word"
type_synonym u32 = "32 word"
type_synonym u64 = "64 word"
type_synonym cstring = "byte list"

text \<open>
  A C \<open>int\<close> is an \<open>int\<close> of the logic together with the wrap of its 32-bit representation; the
  wrap is applied where a source expression can leave the range.
\<close>

definition s32 :: "int \<Rightarrow> int" where
  "s32 x = (x + 2 ^ 31) mod 2 ^ 32 - 2 ^ 31"

definition in_s32 :: "int \<Rightarrow> bool" where
  "in_s32 x \<longleftrightarrow> - (2 ^ 31) \<le> x \<and> x < 2 ^ 31"

text \<open>The conversion \<open>(unsigned char)x\<close> of an \<open>int\<close>.\<close>

definition uchar :: "int \<Rightarrow> byte" where
  "uchar x = word_of_int x"

lemma s32_id [simp]: "in_s32 x \<Longrightarrow> s32 x = x"
  by (simp add: s32_def in_s32_def)

lemma s32_range [simp]: "in_s32 (s32 x)"
  using pos_mod_bound [of "2 ^ 32" "x + 2 ^ 31"] pos_mod_sign [of "2 ^ 32" "x + 2 ^ 31"]
  by (simp add: s32_def in_s32_def)

lemma uchar_nat [simp]: "n < 256 \<Longrightarrow> unat (uchar (int n)) = n"
  by (simp add: uchar_def unsigned_of_nat take_bit_nat_eq_self)

lemma unat_of_nat32: "n < 2 ^ 32 \<Longrightarrow> unat (word_of_nat n :: u32) = n"
  by (simp add: unat_of_nat)

lemma unat_lt256 [simp]: "unat (b :: byte) < 256"
  using unsigned_less [of b, where ?'a = nat] by simp

lemma or_pow2_nat: "(x :: nat) < 2 ^ k \<Longrightarrow> x OR 2 ^ k = x + 2 ^ k"
proof -
  assume "x < 2 ^ k"
  then have "\<not> bit x k" by (simp add: bit_iff_odd)
  then have "x AND 2 ^ k = 0" by (intro bit_eqI) (auto simp: bit_simps)
  then show ?thesis by (simp add: disjunctive_add_eq_or)
qed

section \<open>Undefined behaviour and results\<close>

text \<open>
  What the C abstract machine leaves undefined is a value of type \<open>fault\<close>; a run of the code that
  hits it stops there.  \<open>error\<close> returns of the source (a \<open>false\<close>, a negative int, \<open>NULL\<close>) are
  ordinary values of the models.
\<close>

datatype fault =
    NullDeref        \<comment> \<open>a NULL pointer is dereferenced\<close>
  | OutOfBounds      \<comment> \<open>a read or write outside of an allocated object\<close>
  | UseAfterFree     \<comment> \<open>an object is used after it was released\<close>
  | DivideByZero     \<comment> \<open>an integer division by zero\<close>
  | AssertFailed     \<comment> \<open>a failed assertion ends the process\<close>

type_synonym 'a res = "fault + 'a"

definition bind_res :: "'a res \<Rightarrow> ('a \<Rightarrow> 'b res) \<Rightarrow> 'b res" where
  "bind_res m f = (case m of Inl e \<Rightarrow> Inl e | Inr x \<Rightarrow> f x)"

lemma bind_res_simps [simp, res_simps]:
  "bind_res (Inr x) f = f x" "bind_res (Inl e) f = Inl e"
  by (simp_all add: bind_res_def)

lemma bind_res_eq_Inr [res_simps]: "bind_res m f = Inr y \<longleftrightarrow> (\<exists>x. m = Inr x \<and> f x = Inr y)"
  by (cases m) auto

lemma bind_res_eq_Inl [res_simps]:
  "bind_res m f = Inl e \<longleftrightarrow> m = Inl e \<or> (\<exists>x. m = Inr x \<and> f x = Inl e)"
  by (cases m) auto

lemma bind_res_split:
  "P (bind_res m f) \<longleftrightarrow> (\<forall>e. m = Inl e \<longrightarrow> P (Inl e)) \<and> (\<forall>x. m = Inr x \<longrightarrow> P (f x))"
  by (cases m) auto

section \<open>C strings in buffers\<close>

text \<open>
  The string at the start of a buffer: the bytes before the first NUL.  A buffer without one has no
  such string, and \<open>strlen\<close> on it reads past its end.
\<close>

definition cstr :: "byte list \<Rightarrow> cstring res" where
  "cstr bs = (if 0 \<in> set bs then Inr (takeWhile (\<lambda>b. b \<noteq> 0) bs) else Inl OutOfBounds)"

text \<open>A string literal of the sources.\<close>

definition str :: "string \<Rightarrow> cstring" where
  "str s = map of_char s"

text \<open>\<open>sprintf("%d", n)\<close> for a non-negative \<open>n\<close>.\<close>

fun dec :: "nat \<Rightarrow> cstring" where
  "dec n = (if n < 10 then [0x30 + word_of_nat n] else dec (n div 10) @ [0x30 + word_of_nat (n mod 10)])"

declare dec.simps [simp del]

text \<open>The first \<open>n\<close> bytes at a pointer into a buffer with contents \<open>bs\<close>, as \<open>memcpy\<close> reads them.\<close>

definition read_bytes :: "byte list option \<Rightarrow> int \<Rightarrow> byte list res" where
  "read_bytes p n =
     (if n = 0 then Inr []
      else case p of None \<Rightarrow> Inl NullDeref
           | Some bs \<Rightarrow> if 0 \<le> n \<and> nat n \<le> length bs then Inr (take (nat n) bs) else Inl OutOfBounds)"

definition byte_at :: "byte list option \<Rightarrow> nat \<Rightarrow> byte res" where
  "byte_at p i =
     (case p of None \<Rightarrow> Inl NullDeref
      | Some bs \<Rightarrow> if i < length bs then Inr (bs ! i) else Inl OutOfBounds)"

lemma cstr_terminated: "0 \<notin> set s \<Longrightarrow> cstr (s @ 0 # r) = Inr s"
  by (simp add: cstr_def takeWhile_append2 del: takeWhile_append2)
     (induction s; auto)

lemma read_bytes_Some: "0 \<le> n \<Longrightarrow> n \<le> int (length bs) \<Longrightarrow> read_bytes (Some bs) n = Inr (take (nat n) bs)"
  by (auto simp: read_bytes_def nat_le_iff)

lemma length_read_bytes: "read_bytes p n = Inr bs \<Longrightarrow> length bs = nat n"
  by (auto simp: read_bytes_def split: if_splits option.splits)

lemma dec_length: "n < 10 ^ Suc k \<Longrightarrow> length (dec n) \<le> Suc k"
proof (induction k arbitrary: n)
  case 0
  then show ?case by (simp add: dec.simps)
next
  case (Suc k)
  then have "n div 10 < 10 ^ Suc k" by (simp add: div_less_iff_less_mult mult.commute)
  from Suc.IH [OF this] show ?case by (subst dec.simps) simp
qed

section \<open>Word encodings\<close>

definition le_bytes :: "nat \<Rightarrow> nat \<Rightarrow> byte list" where
  "le_bytes k x = map (\<lambda>i. word_of_nat (x div 256 ^ i)) [0..<k]"

fun le_nat :: "byte list \<Rightarrow> nat" where
  "le_nat [] = 0"
| "le_nat (b # bs) = unat b + 256 * le_nat bs"

definition be_bytes :: "nat \<Rightarrow> nat \<Rightarrow> byte list" where
  "be_bytes k x = rev (le_bytes k x)"

definition be_nat :: "byte list \<Rightarrow> nat" where
  "be_nat bs = le_nat (rev bs)"

lemma length_le_bytes [simp, codec_simps]: "length (le_bytes k x) = k"
  by (simp add: le_bytes_def)

lemma length_be_bytes [simp, codec_simps]: "length (be_bytes k x) = k"
  by (simp add: be_bytes_def)

lemma le_bytes_Suc: "le_bytes (Suc k) x = word_of_nat x # le_bytes k (x div 256)"
proof -
  have "map (\<lambda>i. word_of_nat (x div 256 ^ Suc i) :: byte) [0..<k]
      = map (\<lambda>i. word_of_nat (x div 256 div 256 ^ i)) [0..<k]"
    by (simp add: div_mult2_eq)
  then show ?thesis
    by (simp add: le_bytes_def map_upt_Suc del: upt_Suc)
qed

lemma le_nat_le_bytes [codec_simps]: "le_nat (le_bytes k x) = x mod 256 ^ k"
proof (induction k arbitrary: x)
  case 0
  then show ?case by (simp add: le_bytes_def)
next
  case (Suc k)
  have "unat (word_of_nat x :: byte) = x mod 256"
    by (simp add: unat_of_nat)
  with Suc show ?case
    by (simp add: le_bytes_Suc mod_mult2_eq)
qed

lemma be_nat_be_bytes [codec_simps]: "be_nat (be_bytes k x) = x mod 256 ^ k"
  by (simp add: be_nat_def be_bytes_def le_nat_le_bytes)

lemma le_nat_bound: "le_nat bs < 256 ^ length bs"
proof (induction bs)
  case (Cons b bs)
  have "256 * le_nat bs + 256 \<le> 256 * 256 ^ length bs" using Cons by simp
  with unat_lt256 [of b] show ?case by (simp del: unat_lt256)
qed simp

lemma le_bytes_le_nat: "le_bytes (length bs) (le_nat bs) = bs"
proof (induction bs)
  case (Cons b bs)
  have "unat b < 256" by simp
  then have "(unat b + 256 * le_nat bs) div 256 = le_nat bs" by simp
  moreover have "(word_of_nat (unat b + 256 * le_nat bs) :: byte) = b"
  proof -
    have "(256 :: byte) = 0" by simp
    then show ?thesis by (simp only: of_nat_add of_nat_mult of_nat_numeral) simp
  qed
  ultimately show ?case using Cons by (simp add: le_bytes_Suc)
qed (simp add: le_bytes_def)

section \<open>Lists\<close>

lemma ex_bool [simp]: "Ex Not" "Ex (\<lambda>b. b)"
  by auto

lemma concat_replicate_single: "concat (replicate n [x]) = replicate n x"
  by (induction n) auto

lemma length_filter_update:
  assumes "i < length xs"
  shows "length (filter P (xs[i := y])) + (if P (xs ! i) then 1 else 0)
       = length (filter P xs) + (if P y then 1 else 0)"
  using assms
proof (induction xs arbitrary: i)
  case (Cons a xs)
  then show ?case by (cases i) auto
qed simp

section \<open>Arrays of 32-bit words\<close>

text \<open>The bytes of an array of \<open>uint32_t\<close> in the memory of the host, as words and back.\<close>

fun words32 :: "byte list \<Rightarrow> u32 list" where
  "words32 (a # b # c # d # bs) = word_of_nat (le_nat [a, b, c, d]) # words32 bs"
| "words32 bs = []"

definition pulseBytes :: "u32 list \<Rightarrow> byte list" where
  "pulseBytes ps = concat (map (\<lambda>p. le_bytes 4 (unat p)) ps)"

lemma length_pulseBytes: "length (pulseBytes ps) = 4 * length ps"
  by (induction ps) (simp_all add: pulseBytes_def)

lemma words32_pulseBytes: "words32 (pulseBytes ps) = ps"
proof (induction ps)
  case (Cons p ps)
  have "\<exists>a b c d. le_bytes 4 (unat p) = [a, b, c, d]" by (simp add: le_bytes_def upt_rec)
  then obtain a b c d where l: "le_bytes 4 (unat p) = [a, b, c, d]" by blast
  have "le_nat [a, b, c, d] = unat p"
    using le_nat_le_bytes [of 4 "unat p"] l unsigned_less [of p, where ?'a = nat] by simp
  then have "words32 ([a, b, c, d] @ pulseBytes ps) = p # ps"
    using Cons by (simp del: le_nat.simps)
  then show ?case using l by (simp add: pulseBytes_def)
qed (simp add: pulseBytes_def)

end
