(* ===== verification/Codes.thy ===== *)
theory Codes
  imports Prelude
begin

text \<open>
  The protocol constants of \<open>iguanaIR.h\<close>, \<open>sendFormat.h\<close>, \<open>pipes.h\<close>, \<open>device-interface.h\<close> and the
  internal constants of \<open>device-interface.c\<close>, and the \<open>errno\<close> values (Linux numbers) the code tests.
\<close>

section \<open>Request and response codes (iguanaIR.h)\<close>

abbreviation (input) IG_PROTOCOL_VERSION :: u16 where "IG_PROTOCOL_VERSION \<equiv> 1"

abbreviation (input) IG_EXCH_VERSIONS :: byte where "IG_EXCH_VERSIONS \<equiv> 0xFE"
abbreviation (input) IG_CTL_LISTDEVS :: byte where "IG_CTL_LISTDEVS \<equiv> 0x80"
abbreviation (input) IG_CTL_DEVADDR :: byte where "IG_CTL_DEVADDR \<equiv> 0x81"
abbreviation (input) IG_DEV_ERROR :: byte where "IG_DEV_ERROR \<equiv> 0x00"
abbreviation (input) IG_DEV_GETVERSION :: byte where "IG_DEV_GETVERSION \<equiv> 0x01"
abbreviation (input) IG_DEV_WRITEBLOCK :: byte where "IG_DEV_WRITEBLOCK \<equiv> 0x02"
abbreviation (input) IG_DEV_CHECKSUM :: byte where "IG_DEV_CHECKSUM \<equiv> 0x03"
abbreviation (input) IG_DEV_INVALID_ARG :: byte where "IG_DEV_INVALID_ARG \<equiv> 0x04"
abbreviation (input) IG_DEV_BAD_CHKSUM :: byte where "IG_DEV_BAD_CHKSUM \<equiv> 0x05"
abbreviation (input) IG_DEV_NOUSB :: byte where "IG_DEV_NOUSB \<equiv> 0x06"
abbreviation (input) IG_DEV_RESET :: byte where "IG_DEV_RESET \<equiv> 0xFF"
abbreviation (input) IG_DEV_GETFEATURES :: byte where "IG_DEV_GETFEATURES \<equiv> 0x10"
abbreviation (input) IG_DEV_GETBUFSIZE :: byte where "IG_DEV_GETBUFSIZE \<equiv> 0x11"
abbreviation (input) IG_DEV_RECVON :: byte where "IG_DEV_RECVON \<equiv> 0x12"
abbreviation (input) IG_DEV_RAWRECVON :: byte where "IG_DEV_RAWRECVON \<equiv> 0x13"
abbreviation (input) IG_DEV_RECVOFF :: byte where "IG_DEV_RECVOFF \<equiv> 0x14"
abbreviation (input) IG_DEV_SEND :: byte where "IG_DEV_SEND \<equiv> 0x15"
abbreviation (input) IG_DEV_GETCHANNELS :: byte where "IG_DEV_GETCHANNELS \<equiv> 0x16"
abbreviation (input) IG_DEV_SETCHANNELS :: byte where "IG_DEV_SETCHANNELS \<equiv> 0x17"
abbreviation (input) IG_DEV_GETCARRIER :: byte where "IG_DEV_GETCARRIER \<equiv> 0x18"
abbreviation (input) IG_DEV_SETCARRIER :: byte where "IG_DEV_SETCARRIER \<equiv> 0x19"
abbreviation (input) IG_DEV_GETPINCONFIG :: byte where "IG_DEV_GETPINCONFIG \<equiv> 0x1A"
abbreviation (input) IG_DEV_SETPINCONFIG :: byte where "IG_DEV_SETPINCONFIG \<equiv> 0x1B"
abbreviation (input) IG_DEV_GETPINS :: byte where "IG_DEV_GETPINS \<equiv> 0x1C"
abbreviation (input) IG_DEV_SETPINS :: byte where "IG_DEV_SETPINS \<equiv> 0x1D"
abbreviation (input) IG_DEV_PINBURST :: byte where "IG_DEV_PINBURST \<equiv> 0x1E"
abbreviation (input) IG_DEV_EXECUTE :: byte where "IG_DEV_EXECUTE \<equiv> 0x1F"
abbreviation (input) IG_DEV_GETID :: byte where "IG_DEV_GETID \<equiv> 0x20"
abbreviation (input) IG_DEV_SETID :: byte where "IG_DEV_SETID \<equiv> 0x21"
abbreviation (input) IG_DEV_IDSOFF :: byte where "IG_DEV_IDSOFF \<equiv> 0x22"
abbreviation (input) IG_DEV_IDSON :: byte where "IG_DEV_IDSON \<equiv> 0x23"
abbreviation (input) IG_DEV_IDSTATE :: byte where "IG_DEV_IDSTATE \<equiv> 0x24"
abbreviation (input) IG_DEV_REPEATER :: byte where "IG_DEV_REPEATER \<equiv> 0x25"
abbreviation (input) IG_DEV_GETLOCATION :: byte where "IG_DEV_GETLOCATION \<equiv> 0x26"
abbreviation (input) IG_DEV_RESEND :: byte where "IG_DEV_RESEND \<equiv> 0x27"
abbreviation (input) IG_DEV_SENDSIZE :: byte where "IG_DEV_SENDSIZE \<equiv> 0x28"
abbreviation (input) IG_DEV_LISTALIASES :: byte where "IG_DEV_LISTALIASES \<equiv> 0x29"
abbreviation (input) IG_DEV_GETADDRESS :: byte where "IG_DEV_GETADDRESS \<equiv> 0x2A"
abbreviation (input) IG_DEV_RECV :: byte where "IG_DEV_RECV \<equiv> 0x30"
abbreviation (input) IG_DEV_OVERRECV :: byte where "IG_DEV_OVERRECV \<equiv> 0x31"
abbreviation (input) IG_DEV_OVERSEND :: byte where "IG_DEV_OVERSEND \<equiv> 0x32"
abbreviation (input) IG_DEV_GETCONFIG0 :: byte where "IG_DEV_GETCONFIG0 \<equiv> 0x07"
abbreviation (input) IG_DEV_SETCONFIG0 :: byte where "IG_DEV_SETCONFIG0 \<equiv> 0x08"
abbreviation (input) IG_DEV_GETCONFIG1 :: byte where "IG_DEV_GETCONFIG1 \<equiv> 0x09"
abbreviation (input) IG_DEV_SETCONFIG1 :: byte where "IG_DEV_SETCONFIG1 \<equiv> 0x0A"

abbreviation (input) IG_PULSE_BIT :: u32 where "IG_PULSE_BIT \<equiv> 0x01000000"
abbreviation (input) IG_PULSE_MASK :: u32 where "IG_PULSE_MASK \<equiv> 0x00FFFFFF"

abbreviation (input) IG_HAS_LEDS :: byte where "IG_HAS_LEDS \<equiv> 0x01"
abbreviation (input) IG_HAS_BOTH :: byte where "IG_HAS_BOTH \<equiv> 0x02"
abbreviation (input) IG_HAS_SOCKETS :: byte where "IG_HAS_SOCKETS \<equiv> 0x04"
abbreviation (input) IG_SLOT_DEV :: byte where "IG_SLOT_DEV \<equiv> 0x10"

abbreviation (input) IG_OUTPUT :: u32 where "IG_OUTPUT \<equiv> 1"
abbreviation (input) IG_PULLUP :: u32 where "IG_PULLUP \<equiv> 2"
abbreviation (input) IG_OPEN_DRAIN :: u32 where "IG_OPEN_DRAIN \<equiv> 4"
abbreviation (input) IG_HIGH_SINK :: u32 where "IG_HIGH_SINK \<equiv> 8"
abbreviation (input) IG_THRESHOLD :: u32 where "IG_THRESHOLD \<equiv> 16"
abbreviation (input) IG_PIN_COUNT :: nat where "IG_PIN_COUNT \<equiv> 8"

section \<open>Device data format and internal constants\<close>

abbreviation (input) STATE_MASK :: byte where "STATE_MASK \<equiv> 0x80"
abbreviation (input) LENGTH_MASK :: byte where "LENGTH_MASK \<equiv> 0x7F"
abbreviation (input) UNKNOWN_FEATURES :: byte where "UNKNOWN_FEATURES \<equiv> 0xFF"

abbreviation (input) MAX_DATA_BYTE :: u32 where "MAX_DATA_BYTE \<equiv> 127"

datatype compressVersion = COMPRESS_VER0 | COMPRESS_VER1 | COMPRESS_VER2

abbreviation (input) MAX_PACKET_SIZE :: nat where "MAX_PACKET_SIZE \<equiv> 8"
abbreviation (input) MIN_CTL_LENGTH :: nat where "MIN_CTL_LENGTH \<equiv> 4"
abbreviation (input) CODE_OFFSET :: nat where "CODE_OFFSET \<equiv> 3"
abbreviation (input) CTL_START :: byte where "CTL_START \<equiv> 0x00"
abbreviation (input) CTL_TODEV :: byte where "CTL_TODEV \<equiv> 0xCD"
abbreviation (input) CTL_FROMDEV :: byte where "CTL_FROMDEV \<equiv> 0xDC"
abbreviation (input) NO_PAYLOAD :: int where "NO_PAYLOAD \<equiv> 0xFF"
abbreviation (input) ANY_PAYLOAD :: int where "ANY_PAYLOAD \<equiv> 0x00"
abbreviation (input) IG_DEV_ANYCODE :: byte where "IG_DEV_ANYCODE \<equiv> 0x00"

abbreviation (input) WAIT_FOREVER :: int where "WAIT_FOREVER \<equiv> 0x7FFFFFFF"

section \<open>errno\<close>

abbreviation (input) EPERM :: int where "EPERM \<equiv> 1"
abbreviation (input) ENOENT :: int where "ENOENT \<equiv> 2"
abbreviation (input) EINTR :: int where "EINTR \<equiv> 4"
abbreviation (input) EIO :: int where "EIO \<equiv> 5"
abbreviation (input) ENXIO :: int where "ENXIO \<equiv> 6"
abbreviation (input) ENOMEM :: int where "ENOMEM \<equiv> 12"
abbreviation (input) EBUSY :: int where "EBUSY \<equiv> 16"
abbreviation (input) ENODEV :: int where "ENODEV \<equiv> 19"
abbreviation (input) EINVAL :: int where "EINVAL \<equiv> 22"
abbreviation (input) EPIPE :: int where "EPIPE \<equiv> 32"
abbreviation (input) ENOSYS :: int where "ENOSYS \<equiv> 38"
abbreviation (input) ETIMEDOUT :: int where "ETIMEDOUT \<equiv> 110"
abbreviation (input) ECONNREFUSED :: int where "ECONNREFUSED \<equiv> 111"
abbreviation (input) EADDRINUSE :: int where "EADDRINUSE \<equiv> 98"

section \<open>Data packets (dataPackets.h)\<close>

text \<open>
  A \<open>dataPacket\<close> without its list header, which \<open>Item_List\<close> models.  \<open>data\<close> is the contents of the
  block the \<open>data\<close> pointer refers to, \<open>None\<close> for NULL; \<open>dataLen\<close> is the C \<open>int\<close> next to it, which the
  code trusts separately from the block.
\<close>

record dataPacket =
  code :: byte
  dataLen :: int
  data :: "byte list option"

definition DATA_PACKET_INIT :: dataPacket where
  "DATA_PACKET_INIT = \<lparr>code = 0, dataLen = 0, data = None\<rparr>"

text \<open>A packet whose length field and block agree, as \<open>readDataPacket\<close> builds them.\<close>

definition packet_ok :: "dataPacket \<Rightarrow> bool" where
  "packet_ok p \<longleftrightarrow> in_s32 (dataLen p) \<and>
     (if 0 < dataLen p then (\<exists>bs. data p = Some bs \<and> int (length bs) = dataLen p) else data p = None)"

end
