(* ===== verification/Scan.thy ===== *)
theory Scan
  imports Codes
begin

text \<open>
  What the sources use of \<open>sscanf\<close> and \<open>fgets\<close>: white space, literals, decimal and hexadecimal
  conversions on the bytes of a C string, and lines of bounded length.
\<close>

section \<open>Characters\<close>

definition isSpace :: "byte \<Rightarrow> bool" where
  "isSpace c \<longleftrightarrow> c = 0x20 \<or> (9 \<le> c \<and> c \<le> 13)"

definition isDigit :: "byte \<Rightarrow> bool" where
  "isDigit c \<longleftrightarrow> 0x30 \<le> c \<and> c \<le> 0x39"

definition hexVal :: "byte \<Rightarrow> nat option" where
  "hexVal c =
     (if 0x30 \<le> c \<and> c \<le> 0x39 then Some (unat c - 48)
      else if 0x41 \<le> c \<and> c \<le> 0x46 then Some (unat c - 55)
      else if 0x61 \<le> c \<and> c \<le> 0x66 then Some (unat c - 87)
      else None)"

section \<open>Conversions\<close>

definition skipSpace :: "cstring \<Rightarrow> cstring" where
  "skipSpace s = dropWhile isSpace s"

text \<open>The rest of the input after a literal of the format; a blank in the format is \<open>skipSpace\<close>.\<close>

fun literal :: "cstring \<Rightarrow> cstring \<Rightarrow> cstring option" where
  "literal [] s = Some s"
| "literal (c # cs) [] = None"
| "literal (c # cs) (d # s) = (if c = d then literal cs s else None)"

definition decVal :: "cstring \<Rightarrow> nat" where
  "decVal ds = foldl (\<lambda>n c. 10 * n + (unat c - 48)) 0 ds"

fun signOf :: "cstring \<Rightarrow> bool \<times> cstring" where
  "signOf (c # s) = (if c = 0x2D then (True, s) else if c = 0x2B then (False, s) else (False, c # s))"
| "signOf [] = (False, [])"

text \<open>\<open>strtol\<close> and \<open>strtoul\<close> stop at the end of their 64-bit range.\<close>

definition toLong :: "bool \<Rightarrow> nat \<Rightarrow> int" where
  "toLong neg n = (if neg then max (- (2 ^ 63)) (- int n) else min (2 ^ 63 - 1) (int n))"

definition toULong :: "bool \<Rightarrow> nat \<Rightarrow> int" where
  "toULong neg n = (if 2 ^ 64 \<le> n then 2 ^ 64 - 1 else if neg then - int n else int n)"

text \<open>\<open>%d\<close>: the value as an \<open>int\<close> and the rest of the input.\<close>

definition scanInt :: "cstring \<Rightarrow> (int \<times> cstring) option" where
  "scanInt s =
     (let (neg, t) = signOf (skipSpace s); ds = takeWhile isDigit t
      in if ds = [] then None else Some (s32 (toLong neg (decVal ds)), dropWhile isDigit t))"

text \<open>\<open>%u\<close>: a sign is allowed and wraps.\<close>

definition scanUnsigned :: "cstring \<Rightarrow> (u32 \<times> cstring) option" where
  "scanUnsigned s =
     (let (neg, t) = signOf (skipSpace s); ds = takeWhile isDigit t
      in if ds = [] then None else Some (word_of_int (toULong neg (decVal ds)), dropWhile isDigit t))"

text \<open>\<open>%x\<close>: a prefix \<open>0x\<close> is allowed.\<close>

definition hexNat :: "cstring \<Rightarrow> nat" where
  "hexNat ds = foldl (\<lambda>n c. 16 * n + (case hexVal c of None \<Rightarrow> 0 | Some d \<Rightarrow> d)) 0 ds"

definition scanHex :: "cstring \<Rightarrow> (u32 \<times> cstring) option" where
  "scanHex s =
     (let (neg, t) = signOf (skipSpace s);
          t = (if take 2 t = str ''0x'' \<or> take 2 t = str ''0X'' then drop 2 t else t);
          ds = takeWhile (\<lambda>c. hexVal c \<noteq> None) t
      in if ds = [] then None else Some (word_of_int (toULong neg (hexNat ds)), dropWhile (\<lambda>c. hexVal c \<noteq> None) t))"

section \<open>Lines\<close>

text \<open>\<open>fgets\<close> with a buffer of \<open>n\<close> bytes: at most \<open>n - 1\<close> bytes, up to and including the first newline.\<close>

definition fgetsLine :: "nat \<Rightarrow> byte list \<Rightarrow> byte list" where
  "fgetsLine n bs = take (n - 1) (takeWhile (\<lambda>b. b \<noteq> 0x0A) bs @ take 1 (dropWhile (\<lambda>b. b \<noteq> 0x0A) bs))"

lemma fgetsLine_pos: "2 \<le> n \<Longrightarrow> bs \<noteq> [] \<Longrightarrow> 0 < length (fgetsLine n bs)"
  by (cases bs) (auto simp: fgetsLine_def)

function fgetsLines :: "nat \<Rightarrow> byte list \<Rightarrow> byte list list" where
  "fgetsLines n bs =
     (if n < 2 \<or> bs = [] then [] else fgetsLine n bs # fgetsLines n (drop (length (fgetsLine n bs)) bs))"
  by pat_completeness auto
termination
proof (relation "measure (\<lambda>(n, bs). length bs)")
  fix n :: nat and bs :: "byte list" assume "\<not> (n < 2 \<or> bs = [])"
  then have "0 < length (fgetsLine n bs)" "bs \<noteq> []" using fgetsLine_pos by auto
  then show "((n, drop (length (fgetsLine n bs)) bs), n, bs) \<in> measure (\<lambda>(n, bs). length bs)"
    by (simp add: diff_less)
qed simp

declare fgetsLines.simps [simp del]

section \<open>Printed numbers are read back\<close>

lemma dec_digits: "c \<in> set (dec n) \<Longrightarrow> isDigit c"
proof (induction n rule: dec.induct)
  case (1 n)
  have d: "isDigit (0x30 + word_of_nat k)" if "k < 10" for k
  proof -
    have "unat (0x30 + word_of_nat k :: byte) = 48 + k" using that by (simp add: unat_word_ariths unat_of_nat)
    then show ?thesis using that by (simp add: isDigit_def word_le_nat_alt)
  qed
  show ?case
    using 1 d [of n] d [of "n mod 10"] by (subst (asm) (2) dec.simps) (auto split: if_splits)
qed

lemma dec_nonempty [simp]: "dec n \<noteq> []"
  by (subst dec.simps) simp

lemma decVal_dec: "decVal (dec n) = n"
proof (induction n rule: dec.induct)
  case (1 n)
  have u: "unat (0x30 + word_of_nat k :: byte) - 48 = k" if "k < 10" for k
    using that by (simp add: unat_word_ariths unat_of_nat)
  show ?case
  proof (cases "n < 10")
    case True
    then show ?thesis using u by (subst dec.simps) (simp add: decVal_def)
  next
    case False
    then show ?thesis using 1 u [of "n mod 10"] by (subst dec.simps) (simp add: decVal_def)
  qed
qed

lemma digit_class: "isDigit c \<Longrightarrow> \<not> isSpace c \<and> c \<noteq> 0x2D \<and> c \<noteq> 0x2B \<and> c \<noteq> 0 \<and> c \<noteq> 0x0A \<and> c \<noteq> 0x23"
  by (auto simp: isDigit_def isSpace_def word_le_nat_alt)

lemma scanInt_dec:
  assumes "n < 2 ^ 31" "rest = [] \<or> \<not> isDigit (hd rest)"
  shows "scanInt (dec n @ rest) = Some (int n, rest)"
proof -
  obtain c cs where c: "dec n = c # cs" by (cases "dec n") simp_all
  have "isDigit c" using dec_digits [of c n] c by simp
  then have "skipSpace (dec n @ rest) = dec n @ rest" "signOf (dec n @ rest) = (False, dec n @ rest)"
    using c digit_class [of c] by (simp_all add: skipSpace_def)
  moreover have "takeWhile isDigit (dec n @ rest) = dec n" "dropWhile isDigit (dec n @ rest) = rest"
    using assms(2) dec_digits by (auto simp: takeWhile_append dropWhile_append) (cases rest; simp)+
  moreover have "s32 (toLong False n) = int n"
    using assms(1) by (simp add: toLong_def in_s32_def)
  ultimately show ?thesis by (simp add: scanInt_def decVal_dec)
qed

end
