(* ===== verification/Pipes.thy ===== *)
theory Pipes
  imports Codes
begin

text \<open>
  \<open>pipes.c\<close>: socket names, aliases as symbolic links, and reads and writes with a timeout.  The directory
  prefix \<open>IGSOCK_NAME\<close> is the one \<open>iguanaIR.h\<close> gives for Linux.  A connection is the bytes that will arrive and a schedule of what the system calls return; the file system, as far as
  aliases need it, is a map from link names to their targets.
\<close>

section \<open>Names\<close>

abbreviation (input) PATH_MAX :: nat where "PATH_MAX \<equiv> 4096"
definition IGSOCK_NAME :: cstring where "IGSOCK_NAME = str ''/var/run/iguanaIR/''"
abbreviation (input) slash_char :: byte where "slash_char \<equiv> 0x2F"
abbreviation (input) bar_char :: byte where "bar_char \<equiv> 0x7C"

text \<open>
  The string left in the buffer.  \<open>snprintf\<close> cuts the text to leave room for the terminator;
  \<open>strncpy\<close> of a path of at least the buffer's length leaves no terminator at all, which is a fault for
  whoever reads the name.
\<close>

definition socketName :: "cstring option \<Rightarrow> nat \<Rightarrow> cstring res" where
  "socketName name len =
     (case name of
        None \<Rightarrow> Inr (take (len - 1) (IGSOCK_NAME @ str ''ctl''))
      | Some n \<Rightarrow>
          if slash_char \<in> set n then (if length n < len then Inr n else Inl OutOfBounds)
          else Inr (take (len - 1) (IGSOCK_NAME @ n)))"

section \<open>Aliases\<close>

type_synonym links = "cstring \<rightharpoonup> cstring"

definition aliasName :: "cstring \<Rightarrow> cstring" where
  "aliasName alias = map (\<lambda>c. if c = slash_char then bar_char else c) alias"

text \<open>
  The links under the socket directory, by name.  Deleting removes every link to the target; a new link
  replaces an old one of the same name.  Names that are taken by something that is no link are outside of
  the map, and \<open>symlink\<close> fails on them (\<open>taken\<close>).
\<close>

definition setAlias :: "cstring set \<Rightarrow> cstring \<Rightarrow> bool \<Rightarrow> cstring option \<Rightarrow> links \<Rightarrow> links" where
  "setAlias taken target deleteAll alias ls =
     (let ls = (if deleteAll then (\<lambda>n. if ls n = Some target then None else ls n) else ls)
      in case alias of None \<Rightarrow> ls
         | Some a \<Rightarrow> if aliasName a \<in> taken then ls(aliasName a := None) else ls(aliasName a \<mapsto> target))"

section \<open>Waiting\<close>

text \<open>
  The time \<open>select\<close> may take, in microseconds, \<open>None\<close> for no limit: the clock is read once for
  \<open>stoptime\<close> and again before each call.  The product \<open>timeout * 1000\<close> is an \<open>int\<close>.
\<close>

definition selectTimeout :: "int \<Rightarrow> int \<Rightarrow> int \<Rightarrow> int option" where
  "selectTimeout timeout start now =
     (if 0 \<le> timeout then Some (max 0 (start + s32 (timeout * 1000) - now)) else None)"

datatype selectResult =
    Ready              \<comment> \<open>the descriptor is readable or writable\<close>
  | ErrorSet           \<comment> \<open>only the error set has it\<close>
  | TimedOut
  | SelectFailed int

text \<open>The \<open>EINTR\<close> loop: the first result that is not an interrupted call; \<open>None\<close> while it still waits.\<close>

fun selectLoop :: "selectResult list \<Rightarrow> (selectResult \<times> selectResult list) option" where
  "selectLoop [] = None"
| "selectLoop (r # rs) = (if r = SelectFailed EINTR then selectLoop rs else Some (r, rs))"

section \<open>Transfers\<close>

datatype ioResult = Moves nat | IoError int

text \<open>
  The read loop: \<open>got\<close> is what is in the buffer.  A call moves at most the wanted amount and what has
  arrived; zero is the end of the stream.  The result is the return value, the errno it sets and what is
  left; \<open>None\<close> while it still waits.
\<close>

fun readLoop :: "nat \<Rightarrow> byte list \<Rightarrow> byte list \<Rightarrow> ioResult list
    \<Rightarrow> (int \<times> int option \<times> byte list \<times> byte list \<times> ioResult list) option" where
  "readLoop goal got pending ios =
     (if goal = 0 then Some (int (length got), None, got, pending, ios)
      else case ios of
        [] \<Rightarrow> None
      | IoError e # ios \<Rightarrow> Some (- 1, Some e, got, pending, ios)
      | Moves n # ios \<Rightarrow>
          (let k = min goal (min n (length pending))
           in if k = 0
              then (if got = [] then Some (- 1, Some EPIPE, got, pending, ios)
                    else Some (int (length got), None, got, pending, ios))
              else readLoop (goal - k) (got @ take k pending) (drop k pending) ios))"

declare readLoop.simps [simp del]

text \<open>The write loop: the bytes on the wire so far and the bytes to go.\<close>

fun writeLoop :: "byte list \<Rightarrow> byte list \<Rightarrow> ioResult list \<Rightarrow> (int \<times> int option \<times> byte list \<times> ioResult list) option" where
  "writeLoop done out ios =
     (if out = [] then Some (int (length done), None, done, ios)
      else case ios of
        [] \<Rightarrow> None
      | IoError e # ios \<Rightarrow> Some (- 1, Some e, done, ios)
      | Moves n # ios \<Rightarrow>
          (let k = min (length out) n
           in if k = 0
              then (if done = [] then Some (- 1, Some EPIPE, done, ios)
                    else Some (int (length done), None, done, ios))
              else writeLoop (done @ take k out) (drop k out) ios))"

declare writeLoop.simps [simp del]

record conn =
  selects :: "selectResult list"
  ios :: "ioResult list"
  pending :: "byte list"
  written :: "byte list"
  c_errno :: int

definition setErr :: "int option \<Rightarrow> conn \<Rightarrow> conn" where
  "setErr e c = (case e of None \<Rightarrow> c | Some e \<Rightarrow> c\<lparr>c_errno := e\<rparr>)"

definition readPipeTimed :: "conn \<Rightarrow> nat \<Rightarrow> (int \<times> byte list \<times> conn) option" where
  "readPipeTimed c wanted =
     (case selectLoop (selects c) of
        None \<Rightarrow> None
      | Some (SelectFailed e, ss) \<Rightarrow> Some (- 1, [], c\<lparr>selects := ss, c_errno := e\<rparr>)
      | Some (TimedOut, ss) \<Rightarrow> Some (0, [], c\<lparr>selects := ss\<rparr>)
      | Some (ErrorSet, ss) \<Rightarrow> Some (- 1, [], c\<lparr>selects := ss, c_errno := EIO\<rparr>)
      | Some (Ready, ss) \<Rightarrow>
          map_option (\<lambda>(r, e, got, rest, is). (r, got, setErr e (c\<lparr>selects := ss, pending := rest, ios := is\<rparr>)))
            (readLoop wanted [] (pending c) (ios c)))"

definition writePipeTimed :: "conn \<Rightarrow> byte list \<Rightarrow> (int \<times> conn) option" where
  "writePipeTimed c bs =
     (case selectLoop (selects c) of
        None \<Rightarrow> None
      | Some (SelectFailed e, ss) \<Rightarrow> Some (- 1, c\<lparr>selects := ss, c_errno := e\<rparr>)
      | Some (TimedOut, ss) \<Rightarrow> Some (0, c\<lparr>selects := ss\<rparr>)
      | Some (ErrorSet, ss) \<Rightarrow> Some (- 1, c\<lparr>selects := ss, c_errno := EIO\<rparr>)
      | Some (Ready, ss) \<Rightarrow>
          map_option (\<lambda>(r, e, out, is). (r, setErr e (c\<lparr>selects := ss, written := written c @ out, ios := is\<rparr>)))
            (writeLoop [] bs (ios c)))"

section \<open>Timeouts\<close>

text \<open>
  For timeouts up to 35 minutes the wait is bounded by the deadline: it never exceeds the timeout,
  and shrinks by the time that has already passed; a negative timeout waits without a limit.
\<close>

theorem selectTimeout_deadline:
  assumes "0 \<le> timeout" "timeout \<le> 2147483" "start \<le> now"
  shows "\<exists>w. selectTimeout timeout start now = Some w \<and> 0 \<le> w \<and> w \<le> timeout * 1000
    \<and> (now < start + timeout * 1000 \<longrightarrow> now + w = start + timeout * 1000)"
proof -
  have "s32 (timeout * 1000) = timeout * 1000" using assms by (intro s32_id) (simp add: in_s32_def)
  then show ?thesis using assms by (auto simp: selectTimeout_def)
qed

theorem selectTimeout_deadline_witness:
  "\<exists>w. selectTimeout 1000 500 700 = Some w \<and> 700 + w = 1000500"
  using selectTimeout_deadline [of 1000 500 700] by auto

text \<open>
  The constant \<open>WAIT_FOREVER\<close> does not wait at all: its product with 1000 wraps around to a deadline
  in the past, so \<open>select\<close> only polls.  The daemon uses it to answer clients, the library to write requests.
\<close>

theorem wait_forever_is_a_poll:
  assumes "start \<le> now"
  shows "selectTimeout WAIT_FOREVER start now = Some 0"
  using assms by (simp add: selectTimeout_def s32_def)

theorem wait_forever_is_a_poll_witness: "selectTimeout WAIT_FOREVER 0 0 = Some 0"
  by (rule wait_forever_is_a_poll) simp

section \<open>Reads\<close>

fun moves_some :: "ioResult \<Rightarrow> bool" where
  "moves_some (Moves n) = (0 < n)"
| "moves_some (IoError e) = False"

lemma readLoop_all:
  assumes "goal \<le> length pend" "list_all moves_some io" "goal \<le> length io"
  shows "\<exists>io'. readLoop goal got pend io
    = Some (int (length got + goal), None, got @ take goal pend, drop goal pend, io') \<and> list_all moves_some io'
      \<and> length io \<le> length io' + goal"
  using assms
proof (induction goal arbitrary: got pend io rule: less_induct)
  case (less goal)
  show ?case
  proof (cases goal)
    case 0
    then show ?thesis using less.prems by (subst readLoop.simps) simp
  next
    case (Suc g)
    then obtain n rest where io: "io = Moves n # rest" "0 < n"
      using less.prems by (cases io; cases "hd io") auto
    define k where "k = min goal (min n (length pend))"
    have k: "0 < k" "k \<le> goal" "k \<le> length pend" using less.prems Suc io by (auto simp: k_def)
    have step: "readLoop goal got pend io = readLoop (goal - k) (got @ take k pend) (drop k pend) rest"
      using k by (subst readLoop.simps) (auto simp: io(1) Let_def k_def min_def split: if_splits)
    have "take goal pend = take k pend @ take (goal - k) (drop k pend)"
      using k by (metis le_add_diff_inverse take_add)
    moreover have "goal - k < goal" "goal - k \<le> length (drop k pend)" "list_all moves_some rest" "goal - k \<le> length rest"
      using k less.prems io by auto
    then obtain io' where "readLoop (goal - k) (got @ take k pend) (drop k pend) rest
        = Some (int (length (got @ take k pend) + (goal - k)), None, (got @ take k pend) @ take (goal - k) (drop k pend),
            drop (goal - k) (drop k pend), io')" "list_all moves_some io'" "length rest \<le> length io' + (goal - k)"
      using less.IH [of "goal - k" "drop k pend" rest "got @ take k pend"] by blast
    ultimately show ?thesis using step k less.prems(3) io by auto
  qed
qed

section \<open>Writes\<close>

lemma writeLoop_prefix:
  assumes "writeLoop sofar out io = Some (r, e, wire, io')"
  shows "\<exists>k \<le> length out. wire = sofar @ take k out \<and> (0 \<le> r \<longrightarrow> r = int (length wire))"
  using assms
proof (induction sofar out io rule: writeLoop.induct)
  case (1 sofar out io)
  show ?case
  proof (cases "out = [] \<or> io = []")
    case True
    then show ?thesis using "1.prems" by (subst (asm) writeLoop.simps) (auto split: if_splits)
  next
    case False
    then obtain ev rest where io: "io = ev # rest" "out \<noteq> []" by (cases io) auto
    show ?thesis
    proof (cases ev)
      case (IoError er)
      then show ?thesis using "1.prems" io by (subst (asm) writeLoop.simps) (auto intro: exI [of _ 0])
    next
      case (Moves n)
      define k where "k = min (length out) n"
      show ?thesis
      proof (cases "k = 0")
        case True
        then show ?thesis using "1.prems" io Moves
          by (subst (asm) writeLoop.simps) (auto simp: Let_def k_def split: if_splits intro: exI [of _ 0])
      next
        case False
        then have "writeLoop (sofar @ take k out) (drop k out) rest = Some (r, e, wire, io')"
          using "1.prems" io Moves by (subst (asm) writeLoop.simps) (simp add: Let_def flip: k_def)
        then obtain j where j: "j \<le> length (drop k out)" "wire = (sofar @ take k out) @ take j (drop k out)"
          "0 \<le> r \<longrightarrow> r = int (length wire)"
          using "1.IH" [OF io(2,1) Moves k_def False] by blast
        have kl: "k \<le> length out" by (simp add: k_def)
        have "wire = sofar @ take (k + j) out" using j(2) by (simp add: take_add)
        moreover have "k + j \<le> length out" using j(1) kl by simp
        ultimately show ?thesis using j(3) by blast
      qed
    qed
  qed
qed

end
