(* ===== verification/Data_Packets.thy ===== *)
theory Data_Packets
  imports Pipes
begin

text \<open>
  \<open>dataPackets.c\<close>: packets on a connection.  A packet is written as the bytes of its C struct, 40 on an
  LP64 machine (three list pointers, the code, padding, the length, the data pointer), followed by its
  data.  The pointers and the padding are whatever the writer's memory holds; the reader ignores them.
\<close>

section \<open>The wire image\<close>

abbreviation (input) PACKET_SIZE :: nat where "PACKET_SIZE \<equiv> 40"

record image_junk =
  list_ptrs :: "byte list"   \<comment> \<open>24 bytes\<close>
  padding :: "byte list"     \<comment> \<open>3 bytes\<close>
  data_ptr :: "byte list"    \<comment> \<open>8 bytes\<close>

definition junk_ok :: "image_junk \<Rightarrow> bool" where
  "junk_ok j \<longleftrightarrow> length (list_ptrs j) = 24 \<and> length (padding j) = 3 \<and> length (data_ptr j) = 8"

definition packetImage :: "image_junk \<Rightarrow> dataPacket \<Rightarrow> byte list" where
  "packetImage j p =
     list_ptrs j @ [code p] @ padding j @ le_bytes 4 (nat (dataLen p mod 2 ^ 32)) @ data_ptr j"

definition imageCode :: "byte list \<Rightarrow> byte" where
  "imageCode bs = bs ! 24"

definition imageLen :: "byte list \<Rightarrow> int" where
  "imageLen bs = s32 (int (le_nat (take 4 (drop 28 bs))))"

section \<open>Reading and writing\<close>

text \<open>
  \<open>late\<close> says that reading the struct used up the timeout.  The result has the return value, the packet
  as the caller finds it and the connection; \<open>None\<close> while a read still waits.
\<close>

definition readDataPacket :: "bool \<Rightarrow> conn \<Rightarrow> (bool \<times> dataPacket \<times> conn) option" where
  "readDataPacket late c =
     (case readPipeTimed c PACKET_SIZE of
        None \<Rightarrow> None
      | Some (result, bs, c) \<Rightarrow>
          if result = int PACKET_SIZE then
            (let p = \<lparr>code = imageCode bs, dataLen = imageLen bs, data = None\<rparr>
             in if dataLen p \<le> 0 then Some (True, p, c)
                else if late then Some (False, p, c)
                else case readPipeTimed c (nat (dataLen p)) of
                       None \<Rightarrow> None
                     | Some (result, bs, c) \<Rightarrow>
                         if result = dataLen p then Some (True, p\<lparr>data := Some bs\<rparr>, c)
                         else Some (False, p, if result = 0 then c\<lparr>c_errno := ETIMEDOUT\<rparr> else c))
          else Some (False, DATA_PACKET_INIT, if result = 0 then c\<lparr>c_errno := ETIMEDOUT\<rparr> else c))"

definition writeDataPacket :: "image_junk \<Rightarrow> dataPacket \<Rightarrow> conn \<Rightarrow> (bool \<times> conn) option res" where
  "writeDataPacket j p c =
     (case writePipeTimed c (packetImage j p) of
        None \<Rightarrow> Inr None
      | Some (result, c) \<Rightarrow>
          if result \<noteq> int PACKET_SIZE then Inr (Some (False, c))
          else if 0 < dataLen p then
            bind_res (read_bytes (data p) (dataLen p)) (\<lambda>bs.
              Inr (map_option (\<lambda>(result, c). (result = dataLen p, c)) (writePipeTimed c bs)))
          else Inr (Some (True, c)))"

section \<open>Round trip\<close>

lemma length_packetImage: "junk_ok j \<Longrightarrow> length (packetImage j p) = 40"
  by (simp add: junk_ok_def packetImage_def)

lemma s32_mod: "in_s32 n \<Longrightarrow> s32 (n mod 2 ^ 32) = n"
  by (simp add: s32_def in_s32_def mod_simps)

lemma packetImage_parse:
  assumes "junk_ok j" "in_s32 (dataLen p)"
  shows "imageCode (packetImage j p) = code p" "imageLen (packetImage j p) = dataLen p"
proof -
  show "imageCode (packetImage j p) = code p"
    using assms(1) by (simp add: imageCode_def packetImage_def junk_ok_def nth_append)
  have "drop 28 (packetImage j p) = le_bytes 4 (nat (dataLen p mod 2 ^ 32)) @ data_ptr j"
    using assms(1) by (simp add: packetImage_def junk_ok_def)
  moreover have "nat (dataLen p mod 2 ^ 32) < 2 ^ 32" by (simp add: nat_less_iff)
  ultimately show "imageLen (packetImage j p) = dataLen p"
    using assms(2) s32_mod [OF assms(2)] by (simp add: imageLen_def le_nat_le_bytes)
qed

lemma readPipeTimed_all:
  assumes "selects c = Ready # ss" "n \<le> length (pending c)" "list_all moves_some (ios c)" "n \<le> length (ios c)"
  shows "\<exists>is. readPipeTimed c n = Some (int n, take n (pending c), c\<lparr>selects := ss, pending := drop n (pending c), ios := is\<rparr>)
    \<and> list_all moves_some is \<and> length (ios c) \<le> length is + n"
  using readLoop_all [OF assms(2-4), of "[]"] assms(1) by (auto simp: readPipeTimed_def setErr_def)

text \<open>
  C18.  A packet that was written is read back unchanged: however the bytes of its image and data are cut
  into pieces on the way, whatever the writer's pointers and padding were, the reader gets the same code,
  length and data and leaves the bytes after it for the next packet.
\<close>

theorem readDataPacket_roundtrip:
  assumes "packet_ok p" "junk_ok j" "selects c = Ready # Ready # ss" "list_all moves_some (ios c)"
    and "pending c = packetImage j p @ (case data p of None \<Rightarrow> [] | Some bs \<Rightarrow> bs) @ rest"
    and "40 + nat (dataLen p) \<le> length (ios c)"
  shows "\<exists>c'. readDataPacket False c = Some (True, p, c') \<and> pending c' = rest"
proof -
  have len: "length (packetImage j p) = 40" by (rule length_packetImage [OF assms(2)])
  have s: "in_s32 (dataLen p)" using assms(1) by (simp add: packet_ok_def)
  obtain is1 where 1: "readPipeTimed c 40 = Some (40, packetImage j p, c\<lparr>selects := Ready # ss, pending := drop 40 (pending c), ios := is1\<rparr>)"
    "list_all moves_some is1" "length (ios c) \<le> length is1 + 40"
    using readPipeTimed_all [OF assms(3), of 40] assms(4-6) len by auto
  let ?c = "c\<lparr>selects := Ready # ss, pending := drop 40 (pending c), ios := is1\<rparr>"
  note parse = packetImage_parse [OF assms(2) s]
  show ?thesis
  proof (cases "0 < dataLen p")
    case False
    then have "data p = None" using assms(1) by (simp add: packet_ok_def)
    then show ?thesis using 1(1) False parse assms(5) len by (simp add: readDataPacket_def)
  next
    case True
    then obtain bs where bs: "data p = Some bs" "int (length bs) = dataLen p" using assms(1) by (auto simp: packet_ok_def)
    then have n: "nat (dataLen p) = length bs" by simp
    have pend: "drop 40 (pending c) = bs @ rest" using assms(5) len bs by simp
    obtain is2 where "readPipeTimed ?c (length bs) = Some (int (length bs), bs, ?c\<lparr>selects := ss, pending := rest, ios := is2\<rparr>)"
      using readPipeTimed_all [of ?c ss "length bs"] pend 1(2,3) assms(6) n by auto
    then show ?thesis using 1(1) True parse bs n by (simp add: readDataPacket_def)
  qed
qed

definition junk0 :: image_junk where
  "junk0 = \<lparr>list_ptrs = replicate 24 0xAB, padding = replicate 3 0, data_ptr = replicate 8 0xCD\<rparr>"

definition conn0 :: "byte list \<Rightarrow> conn" where
  "conn0 bs = \<lparr>selects = [Ready, Ready], ios = replicate 60 (Moves 1), pending = bs, written = [], c_errno = 0\<rparr>"

theorem readDataPacket_roundtrip_witness:
  "\<exists>c'. readDataPacket False (conn0 (packetImage junk0 \<lparr>code = 1, dataLen = 2, data = Some [7, 8]\<rparr> @ [7, 8] @ [9]))
     = Some (True, \<lparr>code = 1, dataLen = 2, data = Some [7, 8]\<rparr>, c') \<and> pending c' = [9]"
  using readDataPacket_roundtrip [of "\<lparr>code = 1, dataLen = 2, data = Some [7, 8]\<rparr>" junk0
      "conn0 (packetImage junk0 \<lparr>code = 1, dataLen = 2, data = Some [7, 8]\<rparr> @ [7, 8] @ [9])" "[]" "[9]"]
  by (simp add: packet_ok_def in_s32_def junk_ok_def junk0_def conn0_def list_all_length)

lemma writePipeTimed_success:
  assumes "writePipeTimed c bs = Some (int (length bs), c')"
  shows "written c' = written c @ bs"
proof -
  consider (short) "bs = []" | (ready) ss e wire io where "selectLoop (selects c) = Some (Ready, ss)"
      "writeLoop [] bs (ios c) = Some (int (length bs), e, wire, io)" "written c' = written c @ wire"
    using assms by (auto simp: writePipeTimed_def setErr_def split: option.splits selectResult.splits prod.splits)
  then show ?thesis
  proof cases
    case short
    then show ?thesis using assms
      by (auto simp: writePipeTimed_def setErr_def writeLoop.simps split: option.splits selectResult.splits)
  next
    case ready
    obtain k where k: "k \<le> length bs" "wire = [] @ take k bs" "0 \<le> int (length bs) \<longrightarrow> int (length bs) = int (length wire)"
      using writeLoop_prefix [OF ready(2)] by blast
    then have "k = length bs" by simp
    then show ?thesis using ready(3) k(2) by simp
  qed
qed

text \<open>
  A write is reported as successful only when the whole packet, struct and data, went onto the
  connection, in that order and nothing else.
\<close>

theorem writeDataPacket_success:
  assumes "writeDataPacket j p c = Inr (Some (True, c'))" "packet_ok p" "junk_ok j"
  shows "written c' = written c @ packetImage j p @ (case data p of None \<Rightarrow> [] | Some bs \<Rightarrow> bs)"
proof -
  obtain c1 where 1: "writePipeTimed c (packetImage j p) = Some (40, c1)"
    using assms(1) by (auto simp: writeDataPacket_def split: option.splits if_splits)
  then have w1: "written c1 = written c @ packetImage j p"
    using writePipeTimed_success [of c "packetImage j p" c1] length_packetImage [OF assms(3)] by simp
  show ?thesis
  proof (cases "0 < dataLen p")
    case False
    then show ?thesis using assms(1,2) 1 w1 by (simp add: writeDataPacket_def packet_ok_def)
  next
    case True
    then obtain bs where bs: "data p = Some bs" "int (length bs) = dataLen p" using assms(2) by (auto simp: packet_ok_def)
    then have "read_bytes (data p) (dataLen p) = Inr bs" using True by (simp add: read_bytes_Some)
    then have "writePipeTimed c1 bs = Some (int (length bs), c')"
      using assms(1) 1 True bs by (auto simp: writeDataPacket_def)
    from writePipeTimed_success [OF this] show ?thesis using w1 bs(1) by simp
  qed
qed

theorem writeDataPacket_success_witness:
  "\<exists>c'. writeDataPacket junk0 \<lparr>code = 1, dataLen = 0, data = None\<rparr>
      \<lparr>selects = [Ready], ios = [Moves 30, Moves 30], pending = [], written = [], c_errno = 0\<rparr> = Inr (Some (True, c'))
     \<and> written c' = packetImage junk0 \<lparr>code = 1, dataLen = 0, data = None\<rparr>"
proof -
  let ?p = "\<lparr>code = 1, dataLen = 0, data = None\<rparr> :: dataPacket"
  let ?c = "\<lparr>selects = [Ready], ios = [Moves 30, Moves 30], pending = [], written = [], c_errno = 0\<rparr>"
  have len: "length (packetImage junk0 ?p) = 40" by (rule length_packetImage) (simp add: junk_ok_def junk0_def)
  then have "packetImage junk0 ?p \<noteq> []" "drop 30 (packetImage junk0 ?p) \<noteq> []" by auto
  then obtain c' where "writeDataPacket junk0 ?p ?c = Inr (Some (True, c'))"
    using len by (simp add: writeDataPacket_def writePipeTimed_def writeLoop.simps setErr_def)
  then show ?thesis using writeDataPacket_success [of junk0 ?p ?c c']
    by (simp add: packet_ok_def in_s32_def junk_ok_def junk0_def)
qed

end
