(* ===== verification/Soft_Double.thy ===== *)
theory Soft_Double
  imports Prelude
begin

text \<open>
  IEEE-754 double arithmetic on non-negative values, as the two floating-point expressions of the
  sources use it (\<open>sendFormat.c\<close> line 50 and \<open>device-interface.c\<close> line 281).  A double is a fraction of
  naturals \<open>(n, d)\<close>; \<open>fl p q\<close> is \<open>p / q\<close> rounded to 53 significant bits, to nearest and ties to even,
  and every operation rounds its exact result once.  The values that occur are far from the
  exponent limits, so there is no overflow and no subnormal number.
\<close>

section \<open>Definitions\<close>

type_synonym double = "nat \<times> nat"

definition dval :: "double \<Rightarrow> real" where
  "dval x = real (fst x) / real (snd x)"

definition rnd_even :: "nat \<Rightarrow> nat \<Rightarrow> nat" where
  "rnd_even n d =
     (let f = n div d; r = n mod d
      in if 2 * r < d then f else if d < 2 * r then f + 1 else if even f then f else f + 1)"

text \<open>\<open>scale_frac s (p, q)\<close> is \<open>p / q * 2 ^ s\<close> for a possibly negative exponent \<open>s\<close>.\<close>

definition scale_frac :: "int \<Rightarrow> double \<Rightarrow> double" where
  "scale_frac s x = (if 0 \<le> s then (fst x * 2 ^ nat s, snd x) else (fst x, snd x * 2 ^ nat (- s)))"

definition fl :: "nat \<Rightarrow> nat \<Rightarrow> double" where
  "fl p q =
     (if p = 0 then (0, 1)
      else let k = int (floorlog 2 p) - int (floorlog 2 q);
               x = scale_frac (53 - k) (p, q);
               s = (if fst x < 2 ^ 53 * snd x then 53 - k else 52 - k);
               y = scale_frac s (p, q)
           in scale_frac (- s) (rnd_even (fst y) (snd y), 1))"

definition dnat :: "nat \<Rightarrow> double" where
  "dnat n = (n, 1)"

definition dadd :: "double \<Rightarrow> double \<Rightarrow> double" where
  "dadd x y = fl (fst x * snd y + fst y * snd x) (snd x * snd y)"

definition dmul :: "double \<Rightarrow> double \<Rightarrow> double" where
  "dmul x y = fl (fst x * fst y) (snd x * snd y)"

definition ddiv :: "double \<Rightarrow> double \<Rightarrow> double" where
  "ddiv x y = fl (fst x * snd y) (snd x * fst y)"

definition dhalf :: double where
  "dhalf = (1, 2)"

text \<open>The conversion of a double to an integer type truncates.\<close>

definition dtrunc :: "double \<Rightarrow> nat" where
  "dtrunc x = fst x div snd x"

section \<open>Rounding error\<close>

lemma rnd_even_error:
  assumes "0 < d"
  shows "\<bar>real (rnd_even n d) - real n / real d\<bar> \<le> 1 / 2"
proof -
  have "real n = real (n div d) * real d + real (n mod d)"
    by (metis div_mult_mod_eq of_nat_add of_nat_mult)
  then have n: "real n / real d = real (n div d) + real (n mod d) / real d"
    using assms by (simp add: field_simps)
  have r: "real (n mod d) / real d < 1" "0 \<le> real (n mod d) / real d"
    using assms by simp_all
  consider "2 * (n mod d) < d" | "2 * (n mod d) = d" | "d < 2 * (n mod d)" by linarith
  then show ?thesis
  proof cases
    case 1
    then have "real (n mod d) / real d \<le> 1 / 2" using assms by (simp add: field_simps)
    with 1 n r show ?thesis by (simp add: rnd_even_def Let_def)
  next
    case 2
    then have "2 * real (n mod d) = real d" by (metis of_nat_mult of_nat_numeral)
    then have "real (n mod d) / real d = 1 / 2" using assms by (simp add: field_simps)
    with 2 n show ?thesis by (simp add: rnd_even_def Let_def)
  next
    case 3
    then have "1 / 2 \<le> real (n mod d) / real d" using assms by (simp add: field_simps)
    with 3 n r show ?thesis by (simp add: rnd_even_def Let_def)
  qed
qed

lemma dval_scale_frac: "0 < snd x \<Longrightarrow> dval (scale_frac s x) = dval x * 2 powi s"
  by (simp add: dval_def scale_frac_def power_int_def field_simps)

lemma snd_scale_frac [simp]: "0 < snd x \<Longrightarrow> 0 < snd (scale_frac s x)"
  by (simp add: scale_frac_def)

lemma floorlog_real_bounds:
  assumes "0 < (p::nat)"
  shows "2 powi (int (floorlog 2 p) - 1) \<le> real p" "real p < 2 powi int (floorlog 2 p)"
proof -
  have b: "2 ^ (floorlog 2 p - 1) \<le> p \<and> p < 2 ^ floorlog 2 p"
    using floorlog_bounds [of p 2] assms by simp
  have "0 < floorlog 2 p"
    using assms by (simp add: floorlog_def)
  then have "(2::real) powi (int (floorlog 2 p) - 1) = real (2 ^ (floorlog 2 p - 1))"
    by (simp add: power_int_def nat_diff_distrib)
  with b show "2 powi (int (floorlog 2 p) - 1) \<le> real p"
    by (metis of_nat_le_iff)
  have "(2::real) powi int (floorlog 2 p) = real (2 ^ floorlog 2 p)"
    by simp
  with b show "real p < 2 powi int (floorlog 2 p)"
    by (metis of_nat_less_iff)
qed

lemma quotient_bounds:
  assumes "0 < p" "0 < q"
  defines "k \<equiv> int (floorlog 2 p) - int (floorlog 2 q)"
  shows "2 powi (k - 1) < real p / real q"
proof -
  have "2 powi (int (floorlog 2 p) - 1) / 2 powi int (floorlog 2 q) < real p / real q"
    using floorlog_real_bounds [OF assms(1)] floorlog_real_bounds [OF assms(2)] assms(2)
    by (intro frac_less2) auto
  moreover have "(2::real) powi (k - 1) = 2 powi (int (floorlog 2 p) - 1) / 2 powi int (floorlog 2 q)"
    by (simp add: k_def power_int_diff)
  ultimately show ?thesis by simp
qed

lemma fl_scaled:
  assumes "0 < p" "0 < q"
  obtains s m where "dval (fl p q) = real m * 2 powi (- s)"
    and "\<bar>real m - real p / real q * 2 powi s\<bar> \<le> 1 / 2" and "2 ^ 52 \<le> real p / real q * 2 powi s"
    and "0 < snd (fl p q)"
proof -
  define k where "k = int (floorlog 2 p) - int (floorlog 2 q)"
  define x where "x = scale_frac (53 - k) (p, q)"
  define s where "s = (if fst x < 2 ^ 53 * snd x then 53 - k else 52 - k)"
  define y where "y = scale_frac s (p, q)"
  have fl: "fl p q = scale_frac (- s) (rnd_even (fst y) (snd y), 1)"
    using assms(1) by (simp add: fl_def Let_def k_def x_def s_def y_def)
  have dy: "dval y = real p / real q * 2 powi s" and sy: "0 < snd y"
    using assms(2) by (simp_all add: y_def dval_scale_frac) (simp add: dval_def)
  have dx: "dval x = real p / real q * 2 powi (53 - k)" and sx: "0 < snd x"
    using assms(2) by (simp_all add: x_def dval_scale_frac) (simp add: dval_def)
  have big: "2 ^ 52 \<le> real p / real q * 2 powi s"
  proof (cases "fst x < 2 ^ 53 * snd x")
    case True
    have "(2::real) ^ 52 = 2 powi (k - 1) * 2 powi (53 - k)"
      by (simp flip: power_int_add)
    also have "\<dots> \<le> real p / real q * 2 powi (53 - k)"
      using quotient_bounds [OF assms] by (intro mult_right_mono) (auto simp: k_def)
    finally show ?thesis using True by (simp add: s_def)
  next
    case False
    then have "real (2 ^ 53 * snd x) \<le> real (fst x)"
      by (simp only: of_nat_le_iff not_less)
    then have "2 ^ 53 \<le> dval x"
      using sx by (simp add: dval_def field_simps)
    moreover have "(2::real) powi (53 - k) = 2 * 2 powi (52 - k)"
      using power_int_add [of "2::real" 1 "52 - k"] by simp
    moreover define z where "z = real p / real q * 2 powi (52 - k)"
    ultimately have "2 ^ 53 \<le> 2 * z"
      using dx by (simp add: algebra_simps)
    then have "2 ^ 52 \<le> z" by simp
    then show ?thesis using False by (simp add: s_def z_def)
  qed
  show ?thesis
  proof (rule that)
    show "dval (fl p q) = real (rnd_even (fst y) (snd y)) * 2 powi (- s)"
      by (simp add: fl dval_scale_frac) (simp add: dval_def)
    show "\<bar>real (rnd_even (fst y) (snd y)) - real p / real q * 2 powi s\<bar> \<le> 1 / 2"
      using rnd_even_error [OF sy, of "fst y"] dy by (simp add: dval_def)
  qed (use big fl in simp_all)
qed

lemma fl_error:
  assumes "0 < q"
  shows "\<bar>dval (fl p q) - real p / real q\<bar> \<le> real p / real q / 2 ^ 53"
proof (cases "p = 0")
  case True
  then show ?thesis by (simp add: fl_def dval_def)
next
  case False
  with assms obtain s m where v: "dval (fl p q) = real m * 2 powi (- s)"
    and e: "\<bar>real m - real p / real q * 2 powi s\<bar> \<le> 1 / 2"
    and b: "2 ^ 52 \<le> real p / real q * 2 powi s"
    using fl_scaled [of p q] by blast
  have inv: "(2::real) powi s * 2 powi (- s) = 1"
    by (simp add: power_int_minus)
  have "dval (fl p q) - real p / real q
      = (real m - real p / real q * 2 powi s) * 2 powi (- s)"
    using inv by (simp add: v algebra_simps)
  then have "\<bar>dval (fl p q) - real p / real q\<bar> \<le> 1 / 2 * 2 powi (- s)"
    using e by (simp add: abs_mult mult_right_mono)
  also have "\<dots> \<le> real p / real q * 2 powi s / 2 ^ 53 * 2 powi (- s)"
  proof (rule mult_right_mono)
    show "1 / 2 \<le> real p / real q * 2 powi s / 2 ^ 53"
      using divide_right_mono [OF b, of "2 ^ 53"] by simp
  qed simp
  also have "\<dots> = real p / real q / 2 ^ 53"
    using inv by (simp add: algebra_simps)
  finally show ?thesis .
qed

lemma snd_fl [simp]: "0 < q \<Longrightarrow> 0 < snd (fl p q)"
  by (cases "p = 0") (simp add: fl_def, metis fl_scaled neq0_conv)

section \<open>Error of the operations\<close>

lemma dval_nonneg [simp]: "0 \<le> dval x"
  by (simp add: dval_def)

lemma dval_dnat [simp]: "dval (dnat n) = real n" "snd (dnat n) = 1" "fst (dnat n) = n"
  by (simp_all add: dnat_def dval_def)

lemma dval_dhalf [simp]: "dval dhalf = 1 / 2" "snd dhalf = 2"
  by (simp_all add: dhalf_def dval_def)

lemma dop_error:
  assumes "0 < snd x" "0 < snd y"
  shows "\<bar>dval (dadd x y) - (dval x + dval y)\<bar> \<le> (dval x + dval y) / 2 ^ 53"
    and "\<bar>dval (dmul x y) - dval x * dval y\<bar> \<le> dval x * dval y / 2 ^ 53"
    and "0 < fst y \<Longrightarrow> \<bar>dval (ddiv x y) - dval x / dval y\<bar> \<le> dval x / dval y / 2 ^ 53"
proof -
  have a: "real (fst x * snd y + fst y * snd x) / real (snd x * snd y) = dval x + dval y"
    using assms by (simp add: dval_def field_simps)
  show "\<bar>dval (dadd x y) - (dval x + dval y)\<bar> \<le> (dval x + dval y) / 2 ^ 53"
    using fl_error [of "snd x * snd y" "fst x * snd y + fst y * snd x"] assms
    unfolding dadd_def a by simp
  have m: "real (fst x * fst y) / real (snd x * snd y) = dval x * dval y"
    by (simp add: dval_def)
  show "\<bar>dval (dmul x y) - dval x * dval y\<bar> \<le> dval x * dval y / 2 ^ 53"
    using fl_error [of "snd x * snd y" "fst x * fst y"] assms
    unfolding dmul_def m by simp
  assume "0 < fst y"
  have d: "real (fst x * snd y) / real (snd x * fst y) = dval x / dval y"
    by (simp add: dval_def)
  show "\<bar>dval (ddiv x y) - dval x / dval y\<bar> \<le> dval x / dval y / 2 ^ 53"
    using fl_error [of "snd x * fst y" "fst x * snd y"] assms \<open>0 < fst y\<close>
    unfolding ddiv_def d by simp
qed

lemma snd_dop [simp]:
  "0 < snd x \<Longrightarrow> 0 < snd y \<Longrightarrow> 0 < snd (dadd x y)"
  "0 < snd x \<Longrightarrow> 0 < snd y \<Longrightarrow> 0 < snd (dmul x y)"
  "0 < snd x \<Longrightarrow> 0 < fst y \<Longrightarrow> 0 < snd (ddiv x y)"
  by (simp_all add: dadd_def dmul_def ddiv_def)

section \<open>Truncation of a value close to a fraction\<close>

lemma dtrunc_floor: "0 < snd x \<Longrightarrow> int (dtrunc x) = \<lfloor>dval x\<rfloor>"
  by (simp add: dtrunc_def dval_def floor_divide_of_nat_eq)

lemma dtrunc_close:
  assumes "0 < snd x" "0 < D" and close: "\<bar>dval x - real N / real D\<bar> < 1 / real D"
  shows "N mod D \<noteq> 0 \<Longrightarrow> dtrunc x = N div D"
    and "N mod D = 0 \<Longrightarrow> 0 < N \<Longrightarrow> dtrunc x = N div D \<or> dtrunc x = N div D - 1"
proof -
  have "real N = real (N div D) * real D + real (N mod D)"
    by (metis div_mult_mod_eq of_nat_add of_nat_mult)
  then have N: "real N / real D = real (N div D) + real (N mod D) / real D"
    using assms(2) by (simp add: field_simps)
  {
    assume m: "N mod D \<noteq> 0"
    have "N mod D + 1 \<le> D" using assms(2) by (simp add: Suc_leI)
    then have u: "real (N mod D) / real D + 1 / real D \<le> 1"
      using assms(2) by (simp add: field_simps flip: of_nat_add)
    have l: "1 / real D \<le> real (N mod D) / real D"
      using m assms(2) by (simp add: divide_right_mono)
    have "\<lfloor>dval x\<rfloor> = int (N div D)"
      using close N u l by (intro floor_unique) auto
    then show "dtrunc x = N div D"
      using dtrunc_floor [OF assms(1)] by simp
  }
  {
    assume m: "N mod D = 0" and "0 < N"
    then have "0 < N div D"
      using assms(2) by (metis div_greater_zero_iff dvd_imp_le mod_0_imp_dvd)
    have d: "1 / real D \<le> 1" using assms(2) by simp
    have "\<lfloor>dval x\<rfloor> = int (N div D) \<or> \<lfloor>dval x\<rfloor> = int (N div D) - 1"
    proof (cases "dval x < real (N div D)")
      case True
      with close N m d show ?thesis by (intro disjI2 floor_unique) auto
    next
      case False
      with close N m d show ?thesis by (intro disjI1 floor_unique) auto
    qed
    then show "dtrunc x = N div D \<or> dtrunc x = N div D - 1"
      using dtrunc_floor [OF assms(1)] \<open>0 < N div D\<close> by auto
  }
qed

end
