(* ===== verification/Protocol_Versions.thy ===== *)
theory Protocol_Versions
  imports Codes
begin

text \<open>
  \<open>protocol-versions.c\<close>: the translation of packet codes between the current protocol and the
  original one, used for old clients and for old device firmware.
\<close>

section \<open>Tables and translation\<close>

type_synonym codeMap = "(byte \<times> byte) list"

definition codeMap0 :: codeMap where
  "codeMap0 =
    [(IG_DEV_ERROR, 0x00), (IG_DEV_GETVERSION, 0x01), (IG_DEV_SEND, 0x02), (IG_DEV_RECVON, 0x03),
     (IG_DEV_RECVOFF, 0x04), (IG_DEV_GETPINS, 0x05), (IG_DEV_SETPINS, 0x06),
     (IG_DEV_GETCONFIG0, 0x07), (IG_DEV_SETCONFIG0, 0x08), (IG_DEV_GETCONFIG1, 0x09),
     (IG_DEV_SETCONFIG1, 0x0A), (IG_DEV_GETBUFSIZE, 0x0B), (IG_DEV_WRITEBLOCK, 0x0C),
     (IG_DEV_EXECUTE, 0x0D), (IG_DEV_PINBURST, 0x0E), (IG_DEV_GETID, 0x0F),
     (IG_DEV_SETCHANNELS, 0x11), (IG_DEV_RECV, 0x10), (IG_DEV_OVERRECV, 0x20),
     (IG_DEV_OVERSEND, 0x30), (IG_DEV_RESET, 0xFF)]"

text \<open>The array of tables, with its NULL entry.\<close>

definition codeMaps :: "codeMap option list" where
  "codeMaps = [Some codeMap0, None]"

text \<open>
  The table scan stops at the entry for RESET; \<open>toVersion\<close> selects the column to match.  The result is
  the return value and the possibly rewritten code.
\<close>

fun scanMap :: "codeMap \<Rightarrow> bool \<Rightarrow> byte \<Rightarrow> bool \<times> byte" where
  "scanMap [] toVersion c = (False, c)"
| "scanMap ((a, b) # m) toVersion c =
     (if a = IG_DEV_RESET then (False, c)
      else if c = (if toVersion then a else b) then (True, if toVersion then b else a)
      else scanMap m toVersion c)"

definition translateProtocol :: "byte \<Rightarrow> u16 \<Rightarrow> bool \<Rightarrow> bool \<times> byte" where
  "translateProtocol c protocolVersion toVersion =
     (if protocolVersion = IG_PROTOCOL_VERSION \<or> c = IG_EXCH_VERSIONS then (True, c)
      else if IG_PROTOCOL_VERSION < protocolVersion then (False, c)
      else case codeMaps ! unat protocolVersion of
             None \<Rightarrow> (False, c)
           | Some m \<Rightarrow> scanMap m toVersion c)"

definition translateDevice :: "byte \<Rightarrow> u16 \<Rightarrow> bool \<Rightarrow> bool \<times> byte" where
  "translateDevice c deviceVersion toVersion =
     translateProtocol c (if deviceVersion \<le> 4 then 0 else IG_PROTOCOL_VERSION) toVersion"

section \<open>The scan as a relation\<close>

definition live :: "codeMap \<Rightarrow> codeMap" where
  "live m = takeWhile (\<lambda>p. fst p \<noteq> IG_DEV_RESET) m"

lemma scanMap_to:
  "distinct (map fst (live m)) \<Longrightarrow> scanMap m True c = (True, c') \<longleftrightarrow> (c, c') \<in> set (live m)"
  by (induction m) (force simp: live_def)+

lemma scanMap_from:
  "distinct (map snd (live m)) \<Longrightarrow> scanMap m False c' = (True, c) \<longleftrightarrow> (c, c') \<in> set (live m)"
  by (induction m) (force simp: live_def)+

lemma scanMap_fail: "scanMap m toVersion c = (False, c') \<Longrightarrow> c' = c"
  by (induction m) (auto split: if_splits)

lemma codeMap0_distinct: "distinct (map fst (live codeMap0))" "distinct (map snd (live codeMap0))"
  by (simp_all add: live_def codeMap0_def)

lemma codeMap0_no_exch: "(c, c') \<in> set (live codeMap0) \<Longrightarrow> c \<noteq> IG_EXCH_VERSIONS \<and> c' \<noteq> IG_EXCH_VERSIONS"
  by (auto simp: live_def codeMap0_def)

lemma version_cases: obtains "v = (0 :: u16)" | "v = 1" | "1 < v"
  by (metis One_nat_def less_one linorder_cases unat_0 unat_1 unat_eq_zero word_less_nat_alt)

lemma translateProtocol_v0:
  "translateProtocol c 0 toVersion = (if c = IG_EXCH_VERSIONS then (True, c) else scanMap codeMap0 toVersion c)"
  by (simp add: translateProtocol_def codeMaps_def)

lemma translateProtocol_v1 [simp]: "translateProtocol c 1 toVersion = (True, c)"
  by (simp add: translateProtocol_def)

lemma translateProtocol_new: "1 < v \<Longrightarrow> c \<noteq> IG_EXCH_VERSIONS \<Longrightarrow> translateProtocol c v toVersion = (False, c)"
  by (auto simp: translateProtocol_def)

lemma translateProtocol_exch [simp]: "translateProtocol IG_EXCH_VERSIONS v toVersion = (True, IG_EXCH_VERSIONS)"
  by (simp add: translateProtocol_def)

section \<open>Properties\<close>

text \<open>
  C35.  Code translation is reversible: for every client protocol version a code translates to a wire
  code exactly when the wire code translates back to it, so no two requests share a wire code; a
  failed translation leaves the code as it was.
\<close>

theorem translateProtocol_roundtrip:
  "(translateProtocol c v True = (True, c') \<longleftrightarrow> translateProtocol c' v False = (True, c))
   \<and> (translateProtocol c v d = (False, e) \<longrightarrow> e = c)"
proof (cases v rule: version_cases)
  case 1
  have "scanMap codeMap0 True c = (True, c') \<longleftrightarrow> scanMap codeMap0 False c' = (True, c)" for c c'
    by (simp add: scanMap_to scanMap_from codeMap0_distinct)
  moreover have "scanMap codeMap0 True c = (True, c') \<Longrightarrow> c \<noteq> IG_EXCH_VERSIONS \<and> c' \<noteq> IG_EXCH_VERSIONS" for c c'
    using codeMap0_no_exch by (simp add: scanMap_to codeMap0_distinct)
  moreover have "scanMap codeMap0 d c = (False, e) \<longrightarrow> e = c"
    by (simp add: scanMap_fail)
  ultimately show ?thesis
    using 1 by (auto simp: translateProtocol_v0)
next
  case 2
  then show ?thesis by auto
next
  case 3
  have n: "translateProtocol c v t = (c = IG_EXCH_VERSIONS, c)" for c t
    using 3 by (cases "c = IG_EXCH_VERSIONS") (auto simp: translateProtocol_new)
  show ?thesis by (auto simp: n)
qed

theorem translateProtocol_roundtrip_witness:
  "translateProtocol IG_DEV_SEND 0 True = (True, 0x02) \<and> translateProtocol 0x02 0 False = (True, IG_DEV_SEND)
   \<and> translateProtocol IG_DEV_GETFEATURES 0 True = (False, IG_DEV_GETFEATURES)"
proof -
  have "translateProtocol IG_DEV_SEND 0 True = (True, 0x02)"
    by (simp add: translateProtocol_v0 codeMap0_def)
  moreover have "translateProtocol IG_DEV_GETFEATURES 0 True = (False, IG_DEV_GETFEATURES)"
    by (simp add: translateProtocol_v0 codeMap0_def)
  ultimately show ?thesis
    using translateProtocol_roundtrip [of IG_DEV_SEND 0 "0x02"] by simp
qed

text \<open>
  The table entry for RESET ends the scan and is therefore never translated: for the original
  protocol RESET fails in both directions, although the table lists it as a code that never changes.
\<close>

theorem translateProtocol_reset_fails:
  "translateProtocol IG_DEV_RESET 0 toVersion = (False, IG_DEV_RESET) \<and> (IG_DEV_RESET, 0xFF) \<in> set codeMap0"
  by (cases toVersion) (simp_all add: translateProtocol_v0 codeMap0_def)

end
