(* ===== verification/Device_Table.thy ===== *)
theory Device_Table
  imports Soft_Double Protocol_Versions
begin

text \<open>
  The stateless part of \<open>device-interface.c\<close>: the table of packet types with its lookup, the payload
  check, the carrier delay computation, the program block that stores a device label, and the decoding
  of received signal bytes.
\<close>

section \<open>Packet types\<close>

record packetType =
  pt_code :: byte
  direction :: byte
  outData :: int
  ack :: bool
  inData :: int

record versionedType =
  vt_start :: u16
  vt_end :: u16
  vt_type :: packetType

definition vt :: "u16 \<Rightarrow> u16 \<Rightarrow> byte \<Rightarrow> byte \<Rightarrow> int \<Rightarrow> bool \<Rightarrow> int \<Rightarrow> versionedType" where
  "vt s e c d out a inn =
     \<lparr>vt_start = s, vt_end = e,
      vt_type = \<lparr>pt_code = c, direction = d, outData = out, ack = a, inData = inn\<rparr>\<rparr>"

definition types :: "versionedType list" where
  "types =
    [vt 0 0 IG_EXCH_VERSIONS CTL_TODEV 2 True 2,
     vt 1 1 IG_CTL_LISTDEVS CTL_TODEV NO_PAYLOAD True ANY_PAYLOAD,
     vt 1 1 IG_CTL_DEVADDR CTL_TODEV ANY_PAYLOAD True ANY_PAYLOAD,
     vt 0 0 IG_DEV_GETVERSION CTL_TODEV NO_PAYLOAD True 2,
     vt 0x101 0x203 IG_DEV_GETFEATURES CTL_TODEV NO_PAYLOAD True 1,
     vt 0x204 0 IG_DEV_GETFEATURES CTL_TODEV NO_PAYLOAD True 2,
     vt 0 0 IG_DEV_SEND CTL_TODEV ANY_PAYLOAD True NO_PAYLOAD,
     vt 0x309 0 IG_DEV_RESEND CTL_TODEV NO_PAYLOAD True NO_PAYLOAD,
     vt 0 0 IG_DEV_LISTALIASES CTL_TODEV NO_PAYLOAD True ANY_PAYLOAD,
     vt 0 0 IG_DEV_GETADDRESS CTL_TODEV NO_PAYLOAD True ANY_PAYLOAD,
     vt 0 0 IG_DEV_SENDSIZE CTL_TODEV ANY_PAYLOAD True 2,
     vt 0 0 IG_DEV_RECVON CTL_TODEV NO_PAYLOAD True NO_PAYLOAD,
     vt 0x101 0 IG_DEV_RAWRECVON CTL_TODEV NO_PAYLOAD True NO_PAYLOAD,
     vt 0 0 IG_DEV_RECVOFF CTL_TODEV NO_PAYLOAD True NO_PAYLOAD,
     vt 0 0x003 IG_DEV_GETPINS CTL_TODEV NO_PAYLOAD True 2,
     vt 0x101 0 IG_DEV_GETPINS CTL_TODEV NO_PAYLOAD True 2,
     vt 0 0x003 IG_DEV_SETPINS CTL_TODEV 2 True NO_PAYLOAD,
     vt 0x101 0 IG_DEV_SETPINS CTL_TODEV 2 True NO_PAYLOAD,
     vt 0 0x003 IG_DEV_GETPINCONFIG CTL_TODEV NO_PAYLOAD True 8,
     vt 0 0x003 IG_DEV_SETPINCONFIG CTL_TODEV 8 True NO_PAYLOAD,
     vt 0x101 0 IG_DEV_GETPINCONFIG CTL_TODEV NO_PAYLOAD True 8,
     vt 0x101 0 IG_DEV_SETPINCONFIG CTL_TODEV 8 True NO_PAYLOAD,
     vt 0 0x003 IG_DEV_GETCONFIG0 CTL_TODEV NO_PAYLOAD True 4,
     vt 0 0x003 IG_DEV_SETCONFIG0 CTL_TODEV 4 True NO_PAYLOAD,
     vt 0 0x003 IG_DEV_GETCONFIG1 CTL_TODEV NO_PAYLOAD True 4,
     vt 0 0x003 IG_DEV_SETCONFIG1 CTL_TODEV 4 True NO_PAYLOAD,
     vt 0 0 IG_DEV_GETBUFSIZE CTL_TODEV NO_PAYLOAD True 1,
     vt 0 0x1FF IG_DEV_WRITEBLOCK CTL_TODEV 68 True NO_PAYLOAD,
     vt 0x200 0 IG_DEV_WRITEBLOCK CTL_TODEV 68 True 2,
     vt 0x200 0 IG_DEV_CHECKSUM CTL_TODEV 1 True 2,
     vt 0 0 IG_DEV_EXECUTE CTL_TODEV NO_PAYLOAD False NO_PAYLOAD,
     vt 0x002 0x002 IG_DEV_PINBURST CTL_TODEV 64 True NO_PAYLOAD,
     vt 0x003 0 IG_DEV_PINBURST CTL_TODEV ANY_PAYLOAD True NO_PAYLOAD,
     vt 0 0 IG_DEV_GETID CTL_TODEV NO_PAYLOAD True 12,
     vt 0 0x1FF IG_DEV_SETID CTL_TODEV ANY_PAYLOAD True NO_PAYLOAD,
     vt 0x200 0 IG_DEV_SETID CTL_TODEV ANY_PAYLOAD True 2,
     vt 0 0 IG_DEV_IDSOFF CTL_TODEV NO_PAYLOAD True NO_PAYLOAD,
     vt 0 0 IG_DEV_IDSON CTL_TODEV NO_PAYLOAD True NO_PAYLOAD,
     vt 0 0 IG_DEV_IDSTATE CTL_TODEV NO_PAYLOAD True 1,
     vt 0x306 0 IG_DEV_REPEATER CTL_TODEV NO_PAYLOAD True NO_PAYLOAD,
     vt 0 0 IG_DEV_RESET CTL_TODEV NO_PAYLOAD False NO_PAYLOAD,
     vt 4 0 IG_DEV_GETCHANNELS CTL_TODEV NO_PAYLOAD True 1,
     vt 3 3 IG_DEV_SETCHANNELS CTL_TODEV 1 True NO_PAYLOAD,
     vt 4 0 IG_DEV_SETCHANNELS CTL_TODEV 1 True NO_PAYLOAD,
     vt 0x101 0 IG_DEV_GETCARRIER CTL_TODEV NO_PAYLOAD True 4,
     vt 0x101 0 IG_DEV_SETCARRIER CTL_TODEV 4 True 4,
     vt 0 0 IG_DEV_GETLOCATION CTL_TODEV NO_PAYLOAD True 2,
     vt 0 0 IG_DEV_RECV CTL_FROMDEV NO_PAYLOAD False ANY_PAYLOAD,
     vt 0 0 IG_DEV_OVERSEND CTL_FROMDEV NO_PAYLOAD False NO_PAYLOAD,
     vt 0 0 IG_DEV_OVERRECV CTL_FROMDEV NO_PAYLOAD False ANY_PAYLOAD,
     vt 0x101 0 IG_DEV_INVALID_ARG CTL_TODEV NO_PAYLOAD False NO_PAYLOAD,
     vt 0 0 IG_DEV_ANYCODE 0 0 False 0]"

fun scanTypes :: "versionedType list \<Rightarrow> byte \<Rightarrow> u16 \<Rightarrow> packetType option" where
  "scanTypes [] c version = None"
| "scanTypes (t # ts) c version =
     (if pt_code (vt_type t) = IG_DEV_ANYCODE then None
      else if pt_code (vt_type t) = c \<and> vt_start t \<le> version \<and> (version \<le> vt_end t \<or> vt_end t = 0)
      then Some (vt_type t)
      else scanTypes ts c version)"

definition findTypeEntry :: "byte \<Rightarrow> u16 \<Rightarrow> packetType option" where
  "findTypeEntry c version = scanTypes types c version"

definition payloadMatch :: "byte \<Rightarrow> byte \<Rightarrow> bool" where
  "payloadMatch spec len \<longleftrightarrow> (spec = uchar NO_PAYLOAD \<and> len = 0) \<or> spec = uchar ANY_PAYLOAD \<or> spec = len"

section \<open>Carrier delays\<close>

text \<open>\<open>cycles = (int)(((1.0 / carrier) / (1.0 / 24000000) / 2) + 0.5)\<close>, for a positive carrier.\<close>

definition carrierCycles :: "nat \<Rightarrow> nat" where
  "carrierCycles carrier =
     dtrunc (dadd (ddiv (ddiv (ddiv (dnat 1) (dnat carrier)) (ddiv (dnat 1) (dnat 24000000))) (dnat 2)) dhalf)"

definition computeCarrierDelays :: "u32 \<Rightarrow> byte \<Rightarrow> byte \<times> byte" where
  "computeCarrierDelays carrier loopCycles =
     (let cycles = word_of_nat (carrierCycles (unat carrier)) - ucast loopCycles :: u32;
          sevens = ucast ((4 - cycles mod 4) mod 4) :: byte;
          fours = ucast ((cycles - ucast sevens * 7) div 4) :: byte
      in ((4 - sevens) * 2, (110 - fours) * 1))"

section \<open>The label block\<close>

definition label_char :: "byte \<Rightarrow> byte" where
  "label_char c = (if c = 0x7C \<or> c = 0x0A then 0x5F else c)"

text \<open>The bytes that travel over the wire: the control header and up to 12 bytes of label.\<close>

definition idBuffer :: "cstring \<Rightarrow> u16 \<Rightarrow> byte list" where
  "idBuffer label version =
     [CTL_START, CTL_START, CTL_FROMDEV, snd (translateDevice IG_DEV_GETID version True)]
       @ map label_char (take 12 label) @ replicate (12 - length label) 0"

definition idPacket :: "byte list \<Rightarrow> byte \<Rightarrow> byte \<Rightarrow> bool \<Rightarrow> nat \<Rightarrow> byte list" where
  "idPacket buf packet_start send_address size_in_A x =
     concat (map (\<lambda>y. [0x55, packet_start + word_of_nat y, buf ! (x * 8 + y)]) [0..<8])
       @ [if size_in_A then 0x50 else 0x57, 0x08, if size_in_A then 0x57 else 0x50, packet_start,
          0x7C, 0x00, send_address]"

text \<open>
  The block is a page of halt instructions overwritten from the start.  \<open>label\<close> is \<open>None\<close> for a NULL
  pointer.
\<close>

definition generateIDBlock :: "cstring option \<Rightarrow> u16 \<Rightarrow> byte list" where
  "generateIDBlock label version =
     (let body = (case label of
            None \<Rightarrow> []
          | Some s \<Rightarrow>
              if s = [] then []
              else let buf = idBuffer s version;
                       new = (0x101 \<le> version);
                       packet_start = (if new then 0xF8 else 0x7C);
                       send_address = (if new then 0x94 else 0x68)
                   in idPacket buf packet_start send_address (\<not> new) 0
                        @ idPacket buf packet_start send_address (\<not> new) 1);
          written = [0x7F, 0, 0, 0] @ body @ [0x7F]
      in written @ drop (length written) (replicate 68 0x30))"

section \<open>Received signals\<close>

definition closePulse :: "byte \<Rightarrow> u32 \<Rightarrow> u32" where
  "closePulse inSpace v =
     (let v = push_bit 6 v div 3 in if inSpace = 0 then v OR IG_PULSE_BIT else v)"

text \<open>
  The loop over the received bytes.  \<open>acc\<close> holds the finished entries of \<open>retval\<close>, \<open>cur\<close> the entry being
  summed up, \<open>first\<close> is \<open>x == 0\<close>.
\<close>

fun devLoop :: "byte list \<Rightarrow> bool \<Rightarrow> byte \<Rightarrow> u32 \<Rightarrow> u32 list \<Rightarrow> u32 list" where
  "devLoop [] first inSpace cur acc = acc @ [closePulse inSpace cur]"
| "devLoop (b # bs) first inSpace cur acc =
     (let split = (\<not> first \<and>
                   ((b AND STATE_MASK) \<noteq> inSpace \<or> IG_PULSE_MASK < ucast (b AND LENGTH_MASK) + cur));
          acc = (if split then acc @ [closePulse inSpace cur] else acc);
          cur = (if split then 0 else cur)
      in devLoop bs False (b AND STATE_MASK)
           (cur + (if b AND LENGTH_MASK = 0 then 1023 + 1 else ucast (b AND LENGTH_MASK) + 1)) acc)"

text \<open>
  For a length of zero the code writes the first entry of an empty allocation and reads \<open>code[0]\<close>.
\<close>

definition iguanaDevToPulses :: "byte list \<Rightarrow> int \<Rightarrow> u32 list res" where
  "iguanaDevToPulses cs len =
     (if len \<le> 0 \<or> int (length cs) < len then Inl OutOfBounds
      else Inr (devLoop (take (nat len) cs) True 0 0 []))"

section \<open>Lemmas on the table\<close>

lemma scanTypes_Some:
  "scanTypes ts c version = Some t \<Longrightarrow>
     pt_code t = c \<and> (\<exists>e \<in> set ts. vt_type e = t \<and> vt_start e \<le> version \<and> (version \<le> vt_end e \<or> vt_end e = 0))"
  by (induction ts) (auto split: if_splits)

lemma findTypeEntry_code: "findTypeEntry c version = Some t \<Longrightarrow> pt_code t = c"
  unfolding findTypeEntry_def using scanTypes_Some by blast

lemma types_in_range: "e \<in> set types \<Longrightarrow> 0 \<le> outData (vt_type e) \<and> outData (vt_type e) < 256
    \<and> 0 \<le> inData (vt_type e) \<and> inData (vt_type e) < 256"
  unfolding types_def vt_def by (simp only: set_simps insert_iff empty_iff) (elim disjE; simp)

lemma findTypeEntry_range:
  "findTypeEntry c version = Some t \<Longrightarrow> 0 \<le> outData t \<and> outData t < 256 \<and> 0 \<le> inData t \<and> inData t < 256"
  unfolding findTypeEntry_def using scanTypes_Some types_in_range by blast

section \<open>The carrier computation is exact rounding\<close>

lemma quotient_error:
  fixes A B X Y u :: real
  assumes "0 < X" "0 < Y" "0 \<le> u" "u \<le> 1 / 4" "\<bar>A - X\<bar> \<le> X * u" "\<bar>B - Y\<bar> \<le> Y * u"
  shows "\<bar>A / B - X / Y\<bar> \<le> X / Y * (3 * u)" "0 < B"
proof -
  have Yu: "Y * u \<le> Y * (1 / 4)" using assms by (intro mult_left_mono) auto
  then have B: "3 / 4 * Y \<le> B" using assms(6) by linarith
  then show "0 < B" using assms(2) by linarith
  have "\<bar>A * Y - X * B\<bar> = \<bar>(A - X) * Y - X * (B - Y)\<bar>" by (simp add: algebra_simps)
  also have "\<dots> \<le> \<bar>A - X\<bar> * Y + X * \<bar>B - Y\<bar>"
    using assms(1,2) by (metis abs_mult abs_of_pos abs_triangle_ineq4)
  also have "\<dots> \<le> X * u * Y + X * (Y * u)"
    using assms by (intro add_mono mult_right_mono mult_left_mono) auto
  also have "\<dots> = 2 * (X * Y * u)" by simp
  finally have num: "\<bar>A * Y - X * B\<bar> \<le> 2 * (X * Y * u)" .
  have "\<bar>A / B - X / Y\<bar> = \<bar>A * Y - X * B\<bar> / (B * Y)"
    using \<open>0 < B\<close> assms(2) by (simp add: diff_frac_eq abs_divide abs_mult mult.commute)
  also have "\<dots> \<le> 2 * (X * Y * u) / (3 / 4 * Y * Y)"
    using num B assms by (intro frac_le mult_right_mono) auto
  also have "\<dots> = X / Y * (8 / 3 * u)" using assms(2) by (simp add: field_simps)
  also have "\<dots> \<le> X / Y * (3 * u)" using assms by (intro mult_left_mono) auto
  finally show "\<bar>A / B - X / Y\<bar> \<le> X / Y * (3 * u)" .
qed

lemma carrierCycles_error:
  assumes c: "25000 \<le> (c::nat)" "c \<le> 150000"
  defines "d \<equiv> dadd (ddiv (ddiv (ddiv (dnat 1) (dnat c)) (ddiv (dnat 1) (dnat 24000000))) (dnat 2)) dhalf"
  shows "\<bar>dval d - real (24000000 + c) / real (2 * c)\<bar> < 1 / real (2 * c)" and "0 < snd d"
proof -
  let ?u = "1 / 2 ^ 53 :: real"
  define A where "A = ddiv (dnat 1) (dnat c)"
  define B where "B = ddiv (dnat 1) (dnat 24000000)"
  define Q where "Q = ddiv A B"
  define H where "H = ddiv Q (dnat 2)"
  have c0: "0 < real c" using c by simp
  have s: "0 < snd A" "0 < snd B" using c by (simp_all add: A_def B_def)
  have eA: "\<bar>dval A - 1 / real c\<bar> \<le> 1 / real c * ?u"
    using dop_error(3) [of "dnat 1" "dnat c"] c by (simp add: A_def)
  have eB: "\<bar>dval B - 1 / 24000000\<bar> \<le> 1 / 24000000 * ?u"
    using dop_error(3) [of "dnat 1" "dnat 24000000"] by (simp add: B_def)
  have r: "\<bar>dval A / dval B - 24000000 / real c\<bar> \<le> 24000000 / real c * (3 * ?u)" and B0: "0 < dval B"
    using quotient_error [OF _ _ _ _ eA eB] c0 by simp_all
  have fB: "0 < fst B" using B0 by (simp add: dval_def zero_less_divide_iff)
  have x: "24000000 / real c \<le> 960" using c by (simp add: field_simps)
  have r': "\<bar>dval A / dval B - 24000000 / real c\<bar> \<le> 960 * (3 * ?u)"
    using order_trans [OF r mult_right_mono [OF x, of "3 * ?u"]] by simp
  have u: "960 * (3 * ?u) \<le> 1" "961 * ?u \<le> 1" by simp_all
  have ab: "dval A / dval B \<le> 961" using r' x u(1) by linarith
  have sQ: "0 < snd Q" using s fB by (simp add: Q_def)
  have "\<bar>dval Q - dval A / dval B\<bar> \<le> dval A / dval B / 2 ^ 53"
    using dop_error(3) [OF s fB] by (simp add: Q_def)
  also have "\<dots> \<le> 961 * ?u" using ab by simp
  finally have eQ: "\<bar>dval Q - dval A / dval B\<bar> \<le> 961 * ?u" .
  have Q: "dval Q \<le> 962" using eQ ab u(2) by linarith
  have sH: "0 < snd H" using sQ by (simp add: H_def)
  have eH: "\<bar>dval H - dval Q / 2\<bar> \<le> 481 * ?u"
    using dop_error(3) [of Q "dnat 2"] sQ Q by (simp add: H_def)
  have H: "dval H \<le> 482" using eH Q u(2) by linarith
  have eS: "\<bar>dval d - (dval H + 1 / 2)\<bar> \<le> 483 * ?u"
    using dop_error(1) [of H dhalf] sH H by (simp add: d_def H_def Q_def A_def B_def)
  have "d = dadd H dhalf" by (simp add: d_def H_def Q_def A_def B_def)
  then show "0 < snd d" using sH by simp
  have chain: "\<bar>d - (x / 2 + 1 / 2)\<bar> \<le> 483 * u + 481 * u + 961 * u + 960 * (3 * u)"
    if "\<bar>d - (h + 1 / 2)\<bar> \<le> 483 * u" "\<bar>h - q / 2\<bar> \<le> 481 * u" "\<bar>q - a\<bar> \<le> 961 * u"
      "\<bar>a - x\<bar> \<le> 960 * (3 * u)" "0 \<le> u" for d h q a x u :: real
    using that by linarith
  have N: "real (24000000 + c) / real (2 * c) = 24000000 / real c / 2 + 1 / 2"
    using c0 by (simp add: field_simps)
  have "\<bar>dval d - real (24000000 + c) / real (2 * c)\<bar> \<le> 483 * ?u + 481 * ?u + 961 * ?u + 960 * (3 * ?u)"
    unfolding N by (rule chain [OF eS eH eQ r']) simp
  also have "\<dots> < 1 / real (2 * 150000)" by simp
  also have "\<dots> \<le> 1 / real (2 * c)" using c by (intro divide_left_mono) auto
  finally show "\<bar>dval d - real (24000000 + c) / real (2 * c)\<bar> < 1 / real (2 * c)" .
qed

lemma carrierCycles_nat:
  assumes "25000 \<le> c" "c \<le> 150000"
  shows "(24000000 + c) mod (2 * c) \<noteq> 0 \<Longrightarrow> carrierCycles c = (24000000 + c) div (2 * c)"
    and "(24000000 + c) mod (2 * c) = 0 \<Longrightarrow>
      carrierCycles c = (24000000 + c) div (2 * c) \<or> carrierCycles c = (24000000 + c) div (2 * c) - 1"
  using dtrunc_close [OF carrierCycles_error(2) [OF assms] _ carrierCycles_error(1) [OF assms]] assms
  by (simp_all add: carrierCycles_def)

lemma carrierCycles_bounds:
  assumes "25000 \<le> c" "c \<le> 150000"
  shows "79 \<le> carrierCycles c" "carrierCycles c \<le> 480"
proof -
  have "(24000000 + c) div (2 * c) < 481"
    using assms by (intro less_mult_imp_div_less) simp
  then show "carrierCycles c \<le> 480" using carrierCycles_nat [OF assms] by force
  have "80 \<le> (24000000 + c) div (2 * c)"
    using assms by (simp add: less_eq_div_iff_mult_less_eq)
  then show "79 \<le> carrierCycles c" using carrierCycles_nat [OF assms] by force
qed

text \<open>The delay pair for a known cycle count, in natural arithmetic.\<close>

lemma delays_nat:
  assumes n: "n < 1000" and s: "s = (4 - n mod 4) mod 4" and enough: "7 * s \<le> n"
    and k: "carrierCycles (unat carrier) = n + unat loopCycles"
  shows "computeCarrierDelays carrier loopCycles
       = ((4 - word_of_nat s) * 2, 110 - word_of_nat ((n - 7 * s) div 4))"
proof -
  have u: "unat (word_of_nat m :: u32) = m" if "m < 1000" for m
    using that by (intro unat_of_nat32) simp
  have cyc: "(word_of_nat (carrierCycles (unat carrier)) - ucast loopCycles :: u32) = word_of_nat n"
    by (simp add: k of_nat_unat)
  have m4: "(word_of_nat m :: u32) mod 4 = word_of_nat (m mod 4)" if "m < 1000" for m
    using u [OF that] by (simp add: word_arith_nat_mod)
  have d4: "(word_of_nat m :: u32) div 4 = word_of_nat (m div 4)" if "m < 1000" for m
    using u [OF that] by (simp add: word_arith_nat_div)
  have s4: "s < 4" using s by simp
  have sev: "((4 - (word_of_nat n :: u32) mod 4) mod 4) = word_of_nat s"
  proof -
    have "(4 - (word_of_nat r :: u32)) mod 4 = word_of_nat ((4 - r) mod 4)" if "r < 4" for r
    proof -
      have "r = 0 \<or> r = 1 \<or> r = 2 \<or> r = 3" using that by linarith
      then show ?thesis by (elim disjE; simp)
    qed
    from this [of "n mod 4"] show ?thesis unfolding m4 [OF n] s by simp
  qed
  have us: "(ucast (word_of_nat m :: u32) :: byte) = word_of_nat m" if "m < 1000" for m
    using u [OF that] of_nat_unat [of "word_of_nat m :: u32", where ?'a = "8 word"] by simp
  have bk: "(ucast (word_of_nat s :: byte) :: u32) = word_of_nat s"
    using s4 of_nat_unat [of "word_of_nat s :: byte", where ?'a = "32 word"] by (simp add: unat_of_nat)
  have sub: "(word_of_nat n - word_of_nat s * 7 :: u32) = word_of_nat (n - 7 * s)"
    using enough by (simp add: of_nat_diff mult.commute)
  have f: "(ucast ((word_of_nat n - ucast (ucast (word_of_nat s :: u32) :: byte) * 7 :: u32) div 4) :: byte)
      = word_of_nat ((n - 7 * s) div 4)"
    using n s4 by (simp only: us [of s] bk sub d4 [of "n - 7 * s"] us [of "(n - 7 * s) div 4"])
  show ?thesis
    unfolding computeCarrierDelays_def Let_def cyc sev f using s4 by (simp only: us [of s] mult_1_right)
qed

lemma carrierCycles_nearest:
  assumes "25000 \<le> c" "c \<le> 150000"
  shows "\<bar>2 * int c * int (carrierCycles c) - 24000000\<bar> \<le> int c"
proof -
  define q r where "q = (24000000 + c) div (2 * c)" and "r = (24000000 + c) mod (2 * c)"
  have "2 * c * q + r = 24000000 + c" unfolding q_def r_def by (rule mult_div_mod_eq)
  then have e: "2 * int c * int q + int r = 24000000 + int c"
    by (metis of_nat_add of_nat_mult of_nat_numeral)
  have "r < 2 * c" unfolding r_def using assms by (intro mod_less_divisor) simp
  then have r: "int r < 2 * int c" by linarith
  have q: "1 \<le> q" using assms by (simp add: q_def less_eq_div_iff_mult_less_eq)
  show ?thesis
  proof (cases "r = 0")
    case False
    then show ?thesis using carrierCycles_nat(1) [OF assms] e r by (simp add: q_def r_def)
  next
    case True
    then have "carrierCycles c = q \<or> carrierCycles c = q - 1"
      using carrierCycles_nat(2) [OF assms] by (simp add: q_def r_def)
    then show ?thesis using e q True by (auto simp: of_nat_diff algebra_simps)
  qed
qed

text \<open>
  C10.  The carrier delays are right for every carrier a client may set (25 to 150 kHz) with the
  standard loop overhead of 65 cycles, one cycle count apart: the half period is the nearest number of
  24 MHz cycles, the offsets stay inside the two delay tables of the firmware (4 two-byte delays of 7
  cycles, 110 one-byte delays of 4), and the delays they leave make up the half period exactly.
\<close>

theorem computeCarrierDelays_exact:
  assumes range: "25000 \<le> unat carrier" "unat carrier \<le> 150000"
    and "carrierCycles (unat carrier) \<noteq> 82"
    and d: "computeCarrierDelays carrier 65 = (d0, d1)"
  shows "even (unat d0) \<and> unat d0 \<le> 8 \<and> unat d1 \<le> 110
    \<and> 65 + 7 * (4 - unat d0 div 2) + 4 * (110 - unat d1) = carrierCycles (unat carrier)
    \<and> \<bar>2 * int (unat carrier) * int (carrierCycles (unat carrier)) - 24000000\<bar> \<le> int (unat carrier)"
proof -
  define n s where "n = carrierCycles (unat carrier) - 65" and "s = (4 - n mod 4) mod 4"
  note b = carrierCycles_bounds [OF range]
  have cyc: "carrierCycles (unat carrier) = n + 65" using b by (simp add: n_def)
  have n: "14 \<le> n" "n \<le> 415" "n \<noteq> 17" using b assms(3) by (auto simp: n_def)
  have s4: "s < 4" by (simp add: s_def)
  have dvd: "4 dvd n + s"
  proof -
    have m: "n mod 4 < 4" by simp
    have "n + s = 4 * (n div 4) + (n mod 4 + (4 - n mod 4) mod 4)" unfolding s_def by simp
    moreover have "4 dvd r + (4 - r) mod 4" if "r < 4" for r :: nat
    proof -
      have "r = 0 \<or> r = 1 \<or> r = 2 \<or> r = 3" using that by linarith
      then show ?thesis by (elim disjE) simp_all
    qed
    ultimately show ?thesis using m by (metis dvd_add dvd_triv_left)
  qed
  have sc: "s = 0 \<or> s = 1 \<or> s = 2 \<or> s = 3" using s4 by linarith
  obtain k where k: "n + s = 4 * k" using dvd by blast
  have enough: "7 * s \<le> n" 
  proof -
    have "k \<le> 4 \<or> k = 5 \<or> 6 \<le> k" by linarith
    with sc k n show ?thesis by (elim disjE) simp_all
  qed
  have ds: "(d0, d1) = ((4 - word_of_nat s) * 2, 110 - word_of_nat ((n - 7 * s) div 4))"
    unfolding d [symmetric]
  proof (rule delays_nat [OF _ _ enough])
    show "n < 1000" using n by simp
    show "s = (4 - n mod 4) mod 4" by (rule s_def)
    show "carrierCycles (unat carrier) = n + unat (65 :: byte)" using b by (simp add: n_def)
  qed
  have f: "(n - 7 * s) div 4 \<le> 103" using n by simp
  have d0: "unat d0 = (4 - s) * 2"
    using sc ds by (elim disjE) simp_all
  have d1: "unat d1 = 110 - (n - 7 * s) div 4"
  proof -
    have "d1 = word_of_nat (110 - (n - 7 * s) div 4)" using ds f by (simp add: of_nat_diff)
    then show ?thesis by (simp add: unat_of_nat)
  qed
  have "n - 7 * s = 4 * (k - 2 * s)" using k by (simp add: diff_mult_distrib2)
  then have "4 * ((n - 7 * s) div 4) = n - 7 * s" by simp
  moreover have "110 - unat d1 = (n - 7 * s) div 4" "4 - unat d0 div 2 = s" using d0 d1 f s4 by auto
  ultimately show ?thesis
    using d0 d1 enough n(1) cyc carrierCycles_nearest [OF range] by simp
qed

theorem computeCarrierDelays_exact_witness:
  "computeCarrierDelays 38000 65 = (6, 49)
     \<and> 65 + 7 * (4 - 6 div 2) + 4 * (110 - 49) = carrierCycles 38000
     \<and> \<bar>2 * 38000 * int (carrierCycles 38000) - 24000000\<bar> \<le> 38000"
proof -
  have c: "carrierCycles 38000 = 316"
    using carrierCycles_nat(1) [of 38000] by simp
  have d: "computeCarrierDelays 38000 65 = (6, 49)"
    using delays_nat [of 251 1 38000 65] c by simp
  show ?thesis
    using computeCarrierDelays_exact [OF _ _ _ d] c d by simp
qed

text \<open>
  The one cycle count the division into sevens and fours gets wrong, 82, is reached by carriers a
  client may set: at 146341 Hz the subtraction wraps around, and the second offset jumps one byte past
  the table of 110 delays.
\<close>

theorem computeCarrierDelays_82_overshoots:
  "computeCarrierDelays 146341 65 = (2, 111) \<and> (110 :: byte) < snd (computeCarrierDelays 146341 65)"
proof -
  have "carrierCycles 146341 = 82"
    using carrierCycles_nat(1) [of 146341] by simp
  then have "computeCarrierDelays 146341 65 = (2, 111)"
    by (simp add: computeCarrierDelays_def)
  then show ?thesis by simp
qed

section \<open>The label block as a program\<close>

text \<open>
  The M8C instructions the block uses, as its comments describe them: store a byte (0x55), load A
  (0x50) or X (0x57), call the transmit routine (0x7C), return (0x7F).  The old routine at 0x68 takes
  the size in A and the address in X, the new one at 0x94 the other way round; a call sends the bytes at
  the address.  Anything else is outside of the subset (\<open>None\<close>).
\<close>

fun run_block :: "byte list \<Rightarrow> (byte \<Rightarrow> byte) \<Rightarrow> byte \<Rightarrow> byte \<Rightarrow> byte list list \<Rightarrow> byte list list option" where
  "run_block [] mem A X out = None"
| "run_block (b # p) mem A X out =
     (if b = 0x7F then Some out
      else case p of
        [] \<Rightarrow> None
      | v # q \<Rightarrow>
          if b = 0x50 then run_block q mem v X out
          else if b = 0x57 then run_block q mem A v out
          else case q of
            [] \<Rightarrow> None
          | w # r \<Rightarrow>
              if b = 0x55 then run_block r (mem(v := w)) A X out
              else if b = 0x7C then
                (let (size, addr) = (if w = 0x68 then (A, X) else (X, A))
                 in run_block r mem A X (out @ [map (\<lambda>i. mem (addr + word_of_nat i)) [0..<unat size]]))
              else None)"

lemma length_idBuffer [simp]: "length (idBuffer s version) = 16"
  by (simp add: idBuffer_def)

lemma list_16:
  assumes "length xs = 16"
  shows "xs = map (nth xs) [0, 1, 2, 3, 4, 5, 6, 7] @ map (nth xs) [8, 9, 10, 11, 12, 13, 14, 15]"
proof -
  have "[0..<16] = [0, 1, 2, 3, 4, 5, 6, 7] @ [8, 9, 10, 11, 12, 13, 14, 15 :: nat]" by (simp add: upt_rec)
  then show ?thesis using map_nth [of xs] assms by (metis map_append)
qed

lemma length_idPacket: "length (idPacket buf start send inA x) = 31"
  by (simp add: idPacket_def length_concat comp_def sum_list_triv)

lemma length_generateIDBlock [simp]: "length (generateIDBlock label version) = 68"
  by (simp add: generateIDBlock_def Let_def length_idPacket split: option.splits)

lemma replicate_9: "replicate 9 x = [x, x, x, x, x, x, x, x, x]"
  by (simp add: numeral_eq_Suc)

text \<open>
  C23.  The block stored for a non-empty label fills one page write (68 bytes), and running it, on old
  and new firmware alike, sends exactly two packets: the control header of an ID response followed by
  the label.
\<close>

theorem generateIDBlock_transmits:
  assumes "s \<noteq> []"
  shows "length (generateIDBlock (Some s) version) = 68
    \<and> run_block (drop 4 (generateIDBlock (Some s) version)) mem A X []
      = Some [take 8 (idBuffer s version), drop 8 (idBuffer s version)]"
proof -
  define buf where "buf = idBuffer s version"
  have b: "take 8 buf = map (nth buf) [0, 1, 2, 3, 4, 5, 6, 7]"
    "drop 8 buf = map (nth buf) [8, 9, 10, 11, 12, 13, 14, 15]"
    using arg_cong [OF list_16 [of buf], of "take 8"] arg_cong [OF list_16 [of buf], of "drop 8"]
    by (simp_all add: buf_def)
  have u: "[0..<8] = [0, 1, 2, 3, 4, 5, 6, 7 :: nat]" by (simp add: upt_rec)
  show ?thesis
    unfolding buf_def [symmetric] b
    using assms by (cases "0x101 \<le> version") (simp_all add: generateIDBlock_def Let_def idPacket_def u flip: buf_def)
qed

theorem generateIDBlock_transmits_witness:
  "run_block (drop 4 (generateIDBlock (Some [0x54, 0x7C, 0x56]) 0x308)) (\<lambda>_. 0) 0 0 []
     = Some [[0, 0, 0xDC, 0x20, 0x54, 0x5F, 0x56, 0], [0, 0, 0, 0, 0, 0, 0, 0]]"
  using generateIDBlock_transmits [of "[0x54, 0x7C, 0x56]" "0x308" "\<lambda>_. 0" 0 0]
  by (simp add: idBuffer_def label_char_def translateDevice_def translateProtocol_def replicate_9)

section \<open>Decoding received signals\<close>

text \<open>The reference: a byte is a pulse or a space of some number of ticks, and equal neighbours merge.\<close>

definition is_pulse :: "byte \<Rightarrow> bool" where
  "is_pulse b \<longleftrightarrow> b AND STATE_MASK = 0"

definition ticks :: "byte \<Rightarrow> nat" where
  "ticks b = (if b AND LENGTH_MASK = 0 then 1024 else unat (b AND LENGTH_MASK) + 1)"

fun merge_runs :: "bool \<Rightarrow> nat \<Rightarrow> byte list \<Rightarrow> (bool \<times> nat) list" where
  "merge_runs p t [] = [(p, t)]"
| "merge_runs p t (b # bs) =
     (if is_pulse b = p then merge_runs p (t + ticks b) bs
      else (p, t) # merge_runs (is_pulse b) (ticks b) bs)"

fun signal_runs :: "byte list \<Rightarrow> (bool \<times> nat) list" where
  "signal_runs [] = []"
| "signal_runs (b # bs) = merge_runs (is_pulse b) (ticks b) bs"

definition run_word :: "bool \<times> nat \<Rightarrow> nat" where
  "run_word r = 64 * snd r div 3 + (if fst r then 2 ^ 24 else 0)"

lemma mask7_bound: "unat (b AND LENGTH_MASK :: byte) \<le> 127"
proof -
  have "b AND (0x7F :: byte) \<le> 0x7F" by (rule word_and_le1)
  then show ?thesis by (simp add: word_le_nat_alt)
qed

lemma ticks_bound: "1 \<le> ticks b" "ticks b \<le> 1024"
  using mask7_bound [of b] by (auto simp: ticks_def)

lemma state_cases: "b AND STATE_MASK = 0 \<or> b AND STATE_MASK = (0x80 :: byte)"
proof -
  have "b AND 0x80 = (if bit b 7 then 0x80 else 0)"
    by (rule bit_word_eqI) (auto simp: bit_simps numeral_eq_Suc less_Suc_eq)
  then show ?thesis by auto
qed

lemma unat_ticks:
  "unat ((if b AND LENGTH_MASK = 0 then 1023 + 1 else ucast (b AND LENGTH_MASK) + 1) :: u32) = ticks b"
proof -
  have "unat (ucast (b AND LENGTH_MASK) + 1 :: u32) = unat (b AND LENGTH_MASK) + 1"
    using mask7_bound [of b] by (subst unat_add_lem [THEN iffD1]) (simp_all add: unsigned_ucast_eq take_bit_nat_eq_self)
  then show ?thesis by (simp add: ticks_def)
qed

lemma closePulse_nat:
  assumes "unat v < 786432"
  shows "unat (closePulse sp v) = run_word (sp = 0, unat v)"
proof -
  have "unat (push_bit 6 v) = 64 * unat v"
    using assms by (simp add: push_bit_eq_mult unat_word_ariths)
  then have d: "unat (push_bit 6 v div 3) = 64 * unat v div 3" by (simp add: unat_div)
  have lt: "64 * unat v div 3 < 2 ^ 24" using assms by simp
  have "unat (push_bit 6 v div 3 OR IG_PULSE_BIT) = unat (push_bit 6 v div 3) + 2 ^ 24"
    using or_pow2_nat [of "unat (push_bit 6 v div 3)" 24] d lt by (simp add: unsigned_or_eq)
  then show ?thesis using d by (simp add: closePulse_def run_word_def)
qed

lemma no_split:
  assumes "unat v < 786432"
  shows "\<not> IG_PULSE_MASK < ucast (b AND LENGTH_MASK :: byte) + v"
proof -
  have "unat (ucast (b AND LENGTH_MASK) + v :: u32) \<le> 127 + unat v"
    using mask7_bound [of b] assms
    by (subst unat_add_lem [THEN iffD1]) (simp_all add: unsigned_ucast_eq take_bit_nat_eq_self)
  then show ?thesis using assms by (simp add: word_less_nat_alt)
qed

lemma devLoop_runs:
  assumes "sp = 0 \<or> sp = 0x80" "unat cur + 1024 * length bs < 786432"
  shows "map unat (devLoop bs False sp cur acc) = map unat acc @ map run_word (merge_runs (sp = 0) (unat cur) bs)"
  using assms
proof (induction bs arbitrary: sp cur acc)
  case Nil
  then show ?case by (simp add: closePulse_nat)
next
  case (Cons b bs)
  let ?d = "(if b AND LENGTH_MASK = 0 then 1023 + 1 else ucast (b AND LENGTH_MASK) + 1) :: u32"
  have t: "unat ?d = ticks b" by (rule unat_ticks)
  have s: "unat (cur + ?d) = unat cur + ticks b"
    using Cons.prems(2) t ticks_bound(2) [of b] by (subst unat_add_lem [THEN iffD1]) simp_all
  have c: "unat cur < 786432" using Cons.prems(2) by simp
  have same: "(b AND STATE_MASK \<noteq> sp) = (is_pulse b \<noteq> (sp = 0))"
    using Cons.prems(1) state_cases [of b] by (auto simp: is_pulse_def)
  have next1: "map unat (devLoop bs False (b AND STATE_MASK) (cur + ?d) acc)
      = map unat acc @ map run_word (merge_runs (is_pulse b) (unat cur + ticks b) bs)" for acc
    using Cons.IH [of "b AND STATE_MASK" "cur + ?d" acc] Cons.prems(2) s state_cases [of b] ticks_bound(2) [of b]
    by (simp add: is_pulse_def)
  have next2: "map unat (devLoop bs False (b AND STATE_MASK) (0 + ?d) acc)
      = map unat acc @ map run_word (merge_runs (is_pulse b) (ticks b) bs)" for acc
    using Cons.IH [of "b AND STATE_MASK" "0 + ?d" acc] Cons.prems(2) t state_cases [of b] ticks_bound(2) [of b]
    by (simp add: is_pulse_def)
  show ?case
  proof (cases "is_pulse b = (sp = 0)")
    case True
    then have "devLoop (b # bs) False sp cur acc = devLoop bs False (b AND STATE_MASK) (cur + ?d) acc"
      using same no_split [OF c] by (simp only: devLoop.simps Let_def) simp
    then show ?thesis using next1 [of acc] True by simp
  next
    case False
    then have "devLoop (b # bs) False sp cur acc
        = devLoop bs False (b AND STATE_MASK) (0 + ?d) (acc @ [closePulse sp cur])"
      using same by (simp only: devLoop.simps Let_def) simp
    then show ?thesis using next2 [of "acc @ [closePulse sp cur]"] False closePulse_nat [OF c] by auto
  qed
qed

lemma decoded_runs:
  assumes "0 < length cs" "length cs \<le> 767"
  shows "\<exists>ps. iguanaDevToPulses cs (int (length cs)) = Inr ps
    \<and> map unat ps = map run_word (signal_runs cs)
    \<and> (\<forall>r \<in> set (signal_runs cs). 64 * snd r div 3 < 2 ^ 24)"
proof -
  obtain b bs where cs: "cs = b # bs" using assms by (cases cs) auto
  let ?d = "(if b AND LENGTH_MASK = 0 then 1023 + 1 else ucast (b AND LENGTH_MASK) + 1) :: u32"
  have first: "devLoop cs True 0 0 [] = devLoop bs False (b AND STATE_MASK) ?d []"
    unfolding cs by (simp only: devLoop.simps Let_def) simp
  have "map unat (devLoop cs True 0 0 []) = map run_word (signal_runs cs)"
    unfolding first using devLoop_runs [of "b AND STATE_MASK" ?d bs "[]"] assms state_cases [of b]
      unat_ticks [of b] ticks_bound(2) [of b] cs by (simp add: is_pulse_def)
  moreover have "snd r < 786432" if "r \<in> set (merge_runs p t bs)" "t + 1024 * length bs < 786432" for r p t bs
    using that
  proof (induction bs arbitrary: p t)
    case (Cons b bs)
    show ?case
      using Cons.prems Cons.IH [of p "t + ticks b"] Cons.IH [of "is_pulse b" "ticks b"] ticks_bound(2) [of b]
      by (auto split: if_splits)
  qed auto
  then have "snd r < 786432" if "r \<in> set (signal_runs cs)" for r
    using that assms cs ticks_bound(2) [of b] by fastforce
  then have "64 * snd r div 3 < 2 ^ 24" if "r \<in> set (signal_runs cs)" for r
    using that by fastforce
  ultimately show ?thesis using assms by (simp add: iguanaDevToPulses_def)
qed

text \<open>
  C22.  Received bytes are decoded into the runs of the signal: neighbouring bytes of the same level are
  one entry, a zero length stands for 1024 ticks, each entry holds the microseconds of its run (64/3 per
  tick) in its low 24 bits and the pulse bit above them.  No sum wraps for up to 767 bytes, far more
  than a device packet holds.
\<close>

theorem iguanaDevToPulses_runs:
  assumes "0 < length cs" "length cs \<le> 767"
  shows "\<exists>ps. iguanaDevToPulses cs (int (length cs)) = Inr ps
    \<and> map unat ps = map run_word (signal_runs cs)
    \<and> (\<forall>r \<in> set (signal_runs cs). 64 * snd r div 3 < 2 ^ 24)"
  using assms by (rule decoded_runs)

theorem iguanaDevToPulses_runs_witness:
  "\<exists>ps. iguanaDevToPulses [0x03, 0x04, 0x82] 3 = Inr ps \<and> map unat ps = [2 ^ 24 + 192, 64]"
  using iguanaDevToPulses_runs [of "[0x03, 0x04, 0x82]"]
  by (simp add: is_pulse_def ticks_def run_word_def)

end
