(* ===== verification/Device_Interface.thy ===== *)
theory Device_Interface
  imports Device_Table
begin

text \<open>
  The stateful part of \<open>device-interface.c\<close>: the packet queues between the reader thread and the worker
  thread, the transaction with a device (\<open>deviceTransaction\<close> and the functions it calls) and the loop of
  the reader thread (\<open>handleIncomingPackets\<close>).

  The state of a run is a \<open>devWorld\<close>: the fields of the C struct \<open>iguanaDev\<close> and the environment the code
  talks to.  Pipes carry one byte per notification, so a pipe is the number of unread bytes.  The results
  of \<open>interruptSend\<close> come from \<open>sendRes\<close>, by the number of packets sent before and the packet; what the
  reader thread queues while the worker waits for an acknowledgement comes from \<open>waitRes\<close>, and whether it
  races with the flush of old responses from \<open>flushTears\<close>.  The theorems hold for every choice of these,
  but where they exclude the race.  The reader's loop runs over a list of receive events.
  Logging, timing and memory release are left out (a \<open>free\<close> is visible only where it changes a pointer
  that is used later); allocation succeeds.
\<close>

section \<open>State\<close>

record iguanaDev =
  devId :: nat
  stopped :: bool
  maxPacketSize :: nat
  quitRequested :: bool
  readerPipe :: nat
  readerOpen :: bool
  responsePipe :: nat
  recvList :: "dataPacket list"
  response :: "dataPacket option"
  receiverCount :: u32
  version :: u16
  features :: byte
  cycles :: byte
  channels :: byte
  carrier :: u32
  addrStr :: "cstring option"
  locAlias :: "cstring option"
  userAlias :: "cstring option"
  willFail :: bool
  firstTimeout :: bool

datatype waitEvent =
    Queued "(dataPacket \<times> bool) list"  \<comment> \<open>packets the reader queues before the wait ends\<close>
  | PipeError int                       \<comment> \<open>reading the pipe fails with this errno\<close>

record devWorld = iguanaDev +
  errno :: int
  fixToggle :: bool
  disconnectOnEPipe :: bool
  autoRescan :: bool
  rescans :: nat
  sent :: "byte list list"
  sendRes :: "nat \<Rightarrow> byte list \<Rightarrow> int \<times> int"
  waits :: nat
  waitRes :: "nat \<Rightarrow> waitEvent"
  uninit :: "nat \<Rightarrow> byte"
  flushes :: nat
  flushTears :: "nat \<Rightarrow> bool"

section \<open>Queues\<close>

definition queueDataPacket :: "devWorld \<Rightarrow> dataPacket \<Rightarrow> bool \<Rightarrow> devWorld" where
  "queueDataPacket s current fromDev =
     (if fromDev then s\<lparr>recvList := recvList s @ [current], readerPipe := readerPipe s + 1\<rparr>
      else s\<lparr>response := Some current, responsePipe := responsePipe s + 1\<rparr>)"

text \<open>One turn of the loop per unread byte of the response pipe.\<close>

primrec flushLoop :: "nat \<Rightarrow> devWorld \<Rightarrow> devWorld" where
  "flushLoop 0 s = s"
| "flushLoop (Suc n) s = flushLoop n (s\<lparr>responsePipe := n, response := None\<rparr>)"

text \<open>
  The loop takes no lock, so the reader may store a response while it runs.  Such a response is thrown
  away like the old ones, stays for the wait that follows (then it is the first of \<open>waitRes\<close>), or is torn:
  the packet is overwritten with NULL and its notification comes after the last look at the pipe.
  \<open>flushTears\<close> says which flushes tear one; \<open>Response_Race\<close> has the single steps.
\<close>

definition flushToDevResponsePackets :: "devWorld \<Rightarrow> devWorld" where
  "flushToDevResponsePackets s =
     (let u = (flushLoop (responsePipe s) s)\<lparr>flushes := flushes s + 1\<rparr>
      in if flushTears s (flushes s) then u\<lparr>response := None, responsePipe := 1\<rparr> else u)"

definition removeNextPacket :: "devWorld \<Rightarrow> dataPacket option \<times> devWorld" where
  "removeNextPacket s =
     (case recvList s of [] \<Rightarrow> (None, s) | p # ps \<Rightarrow> (Some p, s\<lparr>recvList := ps\<rparr>))"

text \<open>\<open>notified\<close> on the response pipe: what the reader queues in the meantime arrives first.\<close>

definition notified :: "devWorld \<Rightarrow> int \<times> devWorld" where
  "notified s =
     (let w = waitRes s (waits s); s = s\<lparr>waits := waits s + 1\<rparr>
      in case w of
           PipeError e \<Rightarrow> (- 1, s\<lparr>errno := e\<rparr>)
         | Queued ps \<Rightarrow>
             let s = fold (\<lambda>(p, fromDev) s. queueDataPacket s p fromDev) ps s
             in if 0 < responsePipe s then (1, s\<lparr>responsePipe := responsePipe s - 1\<rparr>) else (0, s))"

section \<open>Sending\<close>

definition interruptSend :: "byte list \<Rightarrow> devWorld \<Rightarrow> int \<times> devWorld" where
  "interruptSend bs s =
     (let (r, e) = sendRes s (length (sent s)) bs
      in (r, s\<lparr>sent := sent s @ [bs], errno := if r < 0 then e else errno s\<rparr>))"

fun sendChunks :: "byte list list \<Rightarrow> devWorld \<Rightarrow> bool \<times> devWorld" where
  "sendChunks [] s = (True, s)"
| "sendChunks (c # cs) s =
     (let (r, s) = interruptSend c s in if r = int (length c) then sendChunks cs s else (False, s))"

definition sendData :: "devWorld \<Rightarrow> byte list \<Rightarrow> bool \<Rightarrow> (bool \<times> devWorld) res" where
  "sendData s buffer addTerminator =
     (if maxPacketSize s = 0 then Inl DivideByZero
      else let m = maxPacketSize s;
               count = length buffer div m;
               lastSize = length buffer mod m;
               lastPacket = (if addTerminator then Some (drop (count * m) buffer @ [0])
                             else if 0 < lastSize then Some (drop (count * m) buffer) else None);
               (ok, s) = sendChunks (map (\<lambda>x. take m (drop (x * m) buffer)) [0..<count]) s
           in Inr (if \<not> ok then (False, s)
                   else case lastPacket of None \<Rightarrow> (True, s)
                        | Some p \<Rightarrow> let (r, s) = interruptSend p s in (r = int (length p), s)))"

section \<open>Checking a request\<close>

definition checkIncomingProtocol ::
  "('a iguanaDev_scheme) option \<Rightarrow> dataPacket \<Rightarrow> bool \<Rightarrow> packetType option" where
  "checkIncomingProtocol idev request nullResponse =
     (let v = (case idev of None \<Rightarrow> IG_PROTOCOL_VERSION | Some d \<Rightarrow> version d)
      in case findTypeEntry (code request) v of
           None \<Rightarrow> None
         | Some type \<Rightarrow>
             if direction type \<noteq> CTL_TODEV then None
             else if \<not> payloadMatch (uchar (outData type)) (uchar (dataLen request)) then None
             else if inData type \<noteq> NO_PAYLOAD \<and> nullResponse then None
             else Some type)"

definition packetIsError :: "dataPacket option \<Rightarrow> bool \<times> int" where
  "packetIsError packet =
     (case packet of None \<Rightarrow> (True, EIO)
      | Some p \<Rightarrow> if code p \<noteq> IG_DEV_ERROR then (False, EIO) else (True, s32 (- dataLen p)))"

section \<open>Preparing a transaction\<close>

text \<open>
  The code that goes to the device, before translation: SETID becomes a block write with the generated
  label block, GETID an execute, and a block write forgets the feature set.
\<close>

definition deviceCode :: "dataPacket \<Rightarrow> devWorld \<Rightarrow> (byte \<times> dataPacket \<times> devWorld) res" where
  "deviceCode request s =
     (if code request = IG_DEV_GETID then Inr (IG_DEV_EXECUTE, request, s)
      else if code request = IG_DEV_SETID then
        bind_res (case data request of None \<Rightarrow> Inr None | Some bs \<Rightarrow> bind_res (cstr bs) (\<lambda>l. Inr (Some l)))
          (\<lambda>label. Inr (IG_DEV_WRITEBLOCK,
             request\<lparr>data := Some (generateIDBlock label (version s)), dataLen := 68\<rparr>, s))
      else if code request = IG_DEV_WRITEBLOCK then Inr (code request, request, s\<lparr>features := UNKNOWN_FEATURES\<rparr>)
      else Inr (code request, request, s))"

definition blockChecksum :: "byte list \<Rightarrow> u32" where
  "blockChecksum bs = sum_list (map ucast (take 64 (drop 4 bs)))"

definition addChecksum :: "byte \<Rightarrow> dataPacket \<Rightarrow> dataPacket res" where
  "addChecksum msgCode request =
     (if msgCode = IG_DEV_WRITEBLOCK \<and> dataLen request = 68
      then case data request of
             None \<Rightarrow> Inl NullDeref
           | Some bs \<Rightarrow>
               if length bs < 68 then Inl OutOfBounds
               else let chksum = blockChecksum bs
                    in Inr (request\<lparr>data := Some (bs[2 := ucast (drop_bit 8 (chksum AND 0xFF00)),
                                                      3 := ucast (chksum AND 0xFF)])\<rparr>)
      else Inr request)"

text \<open>The codes whose data does not travel in the control packet.\<close>

definition isStream :: "byte \<Rightarrow> bool" where
  "isStream c \<longleftrightarrow> c = IG_DEV_SEND \<or> c = IG_DEV_RESEND \<or> c = IG_DEV_PINBURST \<or> c = IG_DEV_REPEATER"

text \<open>\<open>memcpy(msg + MIN_CTL_LENGTH, request->data, sent)\<close> with \<open>sent\<close> at most 4.\<close>

definition packData :: "dataPacket \<Rightarrow> (int \<times> byte list) res" where
  "packData request =
     (if code request = IG_DEV_SETPINCONFIG then Inr (0, [])
      else let n = (if 4 < dataLen request then 4 else dataLen request)
           in bind_res (read_bytes (data request) n) (\<lambda>bs. Inr (n, bs)))"

type_synonym featureCheck = "devWorld \<Rightarrow> (bool \<times> devWorld) res"

definition loopCycles :: "featureCheck \<Rightarrow> devWorld \<Rightarrow> (byte \<times> devWorld) res" where
  "loopCycles checkF s =
     (if 4 \<le> version s AND 0xFF
      then bind_res (checkF s) (\<lambda>(ok, s). Inr (if ok then cycles s else 65, s))
      else Inr (65, s))"

text \<open>The carrier delays, for firmware with both a loader and a body version.\<close>

definition carrierBytes :: "featureCheck \<Rightarrow> devWorld \<Rightarrow> (byte list \<times> devWorld) res" where
  "carrierBytes checkF s =
     (if version s AND 0xFF \<noteq> 0 \<and> version s AND 0xFF00 \<noteq> 0
      then bind_res (loopCycles checkF s) (\<lambda>(n, s).
             let (d0, d1) = computeCarrierDelays (carrier s) n in Inr ([d0, d1], s))
      else Inr ([], s))"

text \<open>
  The arguments of the streaming codes, from version 3 on: the length, then for transmissions the
  channels and the carrier delays.  A RESEND writes them into its reallocated data instead, behind four
  bytes that are whatever the data held before or what the allocator left there.
\<close>

definition streamArgs :: "featureCheck \<Rightarrow> dataPacket \<Rightarrow> devWorld \<Rightarrow> (byte list \<times> dataPacket \<times> devWorld) res" where
  "streamArgs checkF request s =
     (if version s < 3 then Inr ([], request, s)
      else if code request = IG_DEV_PINBURST then Inr ([uchar (dataLen request)], request, s)
      else if code request = IG_DEV_RESEND then
        (let old = (case data request of None \<Rightarrow> [] | Some bs \<Rightarrow> take MAX_PACKET_SIZE bs);
             block = old @ map (uninit s) [length old..<MAX_PACKET_SIZE];
             args = [0xFF, channels s]
         in bind_res (carrierBytes checkF s) (\<lambda>(delays, s).
              Inr ([], request\<lparr>dataLen := int MAX_PACKET_SIZE,
                         data := Some (take 4 block @ args @ delays @ drop (6 + length delays) block)\<rparr>, s)))
      else bind_res (carrierBytes checkF s) (\<lambda>(delays, s).
             Inr ([uchar (dataLen request), channels s] @ delays, request, s)))"

text \<open>The control packet, the number of data bytes in it, and the request and state after packing.\<close>

definition packRequest ::
  "featureCheck \<Rightarrow> dataPacket \<Rightarrow> devWorld \<Rightarrow> (byte list \<times> int \<times> dataPacket \<times> devWorld) res" where
  "packRequest checkF request s =
     bind_res (deviceCode request s) (\<lambda>(c, request, s).
       let c = snd (translateDevice c (version s) True)
       in bind_res (addChecksum c request) (\<lambda>request.
            if isStream (code request)
            then bind_res (streamArgs checkF request s) (\<lambda>(args, request, s).
                   Inr ([CTL_START, CTL_START, CTL_TODEV, c] @ args, 0, request, s))
            else bind_res (packData request) (\<lambda>(n, bs).
                   Inr ([CTL_START, CTL_START, CTL_TODEV, c] @ bs, n, request, s))))"

section \<open>The transaction\<close>

definition injectToggleFix :: "devWorld \<Rightarrow> devWorld" where
  "injectToggleFix s =
     (if fixToggle s \<and> willFail s
      then snd (interruptSend [CTL_START, CTL_START, CTL_TODEV, IG_DEV_GETVERSION] s)
             \<lparr>willFail := False, firstTimeout := False\<rparr>
      else s)"

text \<open>The bytes of the request that follow the control packet.\<close>

definition restOfData :: "dataPacket \<Rightarrow> int \<Rightarrow> byte list res" where
  "restOfData request n =
     bind_res (read_bytes (data request) (dataLen request)) (\<lambda>bs. Inr (drop (nat n) bs))"

definition sendRequest :: "byte list \<Rightarrow> int \<Rightarrow> dataPacket \<Rightarrow> devWorld \<Rightarrow> (bool \<times> devWorld) res" where
  "sendRequest msg n request s =
     (let s = flushToDevResponsePackets (injectToggleFix s);
          (r, s) = interruptSend msg s
      in if r \<noteq> int (length msg) then Inr (False, s)
         else if n < dataLen request then
           bind_res (restOfData request n) (\<lambda>bs.
             sendData s bs (version s < 3 \<and> code request = IG_DEV_SEND))
         else Inr (True, s))"

text \<open>
  Waiting for the acknowledgement.  The second result is the packet stored in \<open>*response\<close>, if any; the
  caller passes NULL when it wants none.
\<close>

definition awaitAck ::
  "packetType \<Rightarrow> dataPacket \<Rightarrow> devWorld \<Rightarrow> (bool \<times> dataPacket option \<times> devWorld) res" where
  "awaitAck type request s =
     (let (amount, s) = notified s
      in if amount < 0 then Inr (False, None, s)
         else if 0 < amount then
           (case response s of
              None \<Rightarrow> Inl NullDeref
            | Some pos \<Rightarrow>
                let pos = (if code request = IG_DEV_SETID \<and> code pos = IG_DEV_WRITEBLOCK
                           then pos\<lparr>code := IG_DEV_SETID\<rparr> else pos);
                    s = s\<lparr>errno := EINVAL, response := None\<rparr>
                in if code pos = IG_DEV_INVALID_ARG \<or> code pos \<noteq> code request
                      \<or> \<not> payloadMatch (uchar (inData type)) (uchar (dataLen pos))
                   then Inr (False, None, s)
                   else Inr (True, Some pos, s))
         else Inr (False, None, s\<lparr>errno := ETIMEDOUT\<rparr>))"

text \<open>
  A run returns its boolean, the state, the request as the code leaves it, and \<open>*response\<close>: the new
  packet or the old value \<open>resp\<close>.
\<close>

type_synonym txResult = "bool \<times> devWorld \<times> dataPacket \<times> dataPacket option"

definition runTransaction ::
  "featureCheck \<Rightarrow> devWorld \<Rightarrow> dataPacket \<Rightarrow> bool \<Rightarrow> dataPacket option \<Rightarrow> txResult res" where
  "runTransaction checkF s request nullResponse resp =
     (let type = checkIncomingProtocol (Some s) request nullResponse;
          s = s\<lparr>errno := EINVAL\<rparr>
      in case type of
           None \<Rightarrow> Inr (False, s, request, resp)
         | Some type \<Rightarrow>
             bind_res (packRequest checkF request s) (\<lambda>(msg, n, request, s).
             bind_res (sendRequest msg n request s) (\<lambda>(ok, s).
               if \<not> ok then Inr (False, s, request, resp)
               else if \<not> ack type then Inr (True, s, request, resp)
               else bind_res (awaitAck type request s) (\<lambda>(ok, pos, s).
                      Inr (ok, s, request, if ok \<and> \<not> nullResponse then pos else resp)))))"

text \<open>
  In the source \<open>deviceTransaction\<close>, \<open>checkFeatures\<close> and \<open>oldPinConfig\<close> call each other.  The recursion is
  one level deep: a feature request packs no carrier, and the requests of \<open>oldPinConfig\<close> are not pin
  configuration requests.  So \<open>checkFeatures\<close> runs a transaction whose own feature check is never reached;
  \<open>checkFeatures_source\<close> and \<open>oldPinStep_source\<close> below give back the equations of the source.
\<close>

definition requestOf :: "byte \<Rightarrow> dataPacket" where
  "requestOf c = DATA_PACKET_INIT\<lparr>code := c\<rparr>"

definition storeFeatures :: "dataPacket option \<Rightarrow> devWorld \<Rightarrow> devWorld res" where
  "storeFeatures resp s =
     (case resp of
        None \<Rightarrow> Inl NullDeref
      | Some p \<Rightarrow>
          bind_res (byte_at (data p) 0) (\<lambda>f.
            if 1 < dataLen p
            then bind_res (byte_at (data p) 1) (\<lambda>c. Inr (s\<lparr>features := f, cycles := c\<rparr>))
            else Inr (s\<lparr>features := f\<rparr>)))"

definition checkFeatures :: "devWorld \<Rightarrow> byte \<Rightarrow> (bool \<times> devWorld) res" where
  "checkFeatures s targetSet =
     (if version s AND 0xFF = 0 \<or> version s AND 0xFF00 = 0 then Inr (False, s)
      else bind_res
        (if features s = UNKNOWN_FEATURES
         then bind_res (runTransaction (\<lambda>_. Inl AssertFailed) s (requestOf IG_DEV_GETFEATURES) False None)
                (\<lambda>(ok, s, _, resp). if ok then storeFeatures resp s else Inr s)
         else Inr s)
        (\<lambda>s. Inr (features s \<noteq> UNKNOWN_FEATURES
                   \<and> (targetSet = UNKNOWN_FEATURES \<or> features s = targetSet), s)))"

text \<open>
  One turn of the loop in \<open>oldPinConfig\<close>: \<open>c\<close> is the original code and \<open>block\<close> the \<open>data\<close> array of eight
  bytes.  The flag of the result says that the turn did not break out of the loop.  The response of the
  first turn of a GET is released, so \<open>*response\<close> is \<open>None\<close> there: no caller looks at it after a failure.
\<close>

definition oldPinStep :: "byte \<Rightarrow> nat \<Rightarrow> byte list option \<Rightarrow> devWorld \<Rightarrow> dataPacket \<Rightarrow> bool \<Rightarrow> dataPacket option
    \<Rightarrow> (bool \<times> byte list option \<times> devWorld \<times> dataPacket \<times> dataPacket option) res" where
  "oldPinStep c x block s request nullResponse resp =
     (let request =
            (if c = IG_DEV_SETPINCONFIG
             then request\<lparr>code := IG_DEV_SETCONFIG0 + word_of_nat x * 2, dataLen := 4,
                          data := map_option (drop (x * 4)) block\<rparr>
             else request\<lparr>code := IG_DEV_GETCONFIG0 + word_of_nat x * 2\<rparr>)
      in bind_res (runTransaction (\<lambda>s. checkFeatures s UNKNOWN_FEATURES) s request nullResponse resp)
          (\<lambda>(ok, s, request, resp).
             if \<not> ok then Inr (False, block, s, request, resp)
             else if nullResponse then Inl NullDeref
             else let (err, e) = packetIsError resp; s = s\<lparr>errno := e\<rparr>
                  in if err then Inr (False, block, s, request, resp)
                     else if c = IG_DEV_GETPINCONFIG then
                       bind_res (read_bytes (Option.bind resp data) 4) (\<lambda>bs.
                         let block = map_option (\<lambda>b. take (x * 4) b @ bs @ drop (x * 4 + 4) b) block
                         in Inr (True, block, s, request,
                                 if x = 0 then None
                                 else map_option (\<lambda>p. p\<lparr>code := c, dataLen := 8, data := block\<rparr>) resp))
                     else Inr (True, block, s, request, resp)))"

definition oldPinConfig ::
  "devWorld \<Rightarrow> dataPacket \<Rightarrow> bool \<Rightarrow> dataPacket option \<Rightarrow> txResult res" where
  "oldPinConfig s request nullResponse resp =
     (let c = code request;
          block = (if c = IG_DEV_SETPINCONFIG then data request else Some (map (uninit s) [0..<8]));
          restore = (\<lambda>r. if c = IG_DEV_SETPINCONFIG then r\<lparr>data := block\<rparr> else r)
      in bind_res (oldPinStep c 0 block s request nullResponse resp) (\<lambda>(ok, block, s, request, resp).
           if \<not> ok then Inr (False, s, restore request, resp)
           else bind_res (oldPinStep c 1 block s request nullResponse resp) (\<lambda>(ok, block, s, request, resp).
                  Inr (ok, s, restore request, resp))))"

definition deviceTransaction ::
  "devWorld \<Rightarrow> dataPacket \<Rightarrow> bool \<Rightarrow> dataPacket option \<Rightarrow> txResult res" where
  "deviceTransaction s request nullResponse resp =
     (if version s \<le> 3 \<and> (code request = IG_DEV_SETPINCONFIG \<or> code request = IG_DEV_GETPINCONFIG)
      then oldPinConfig s request nullResponse resp
      else runTransaction (\<lambda>s. checkFeatures s UNKNOWN_FEATURES) s request nullResponse resp)"

definition supportedVersion :: "u16 \<Rightarrow> bool" where
  "supportedVersion v \<longleftrightarrow> (1 \<le> v \<and> v \<le> 4) \<or> v = 0xFF00 \<or> (0x0100 \<le> v \<and> v < 0x0400)"

text \<open>The first failure is retried once; a response left by neither call is dereferenced only on success.\<close>

definition checkVersion :: "devWorld \<Rightarrow> (bool \<times> devWorld) res" where
  "checkVersion s =
     bind_res (deviceTransaction s (requestOf IG_DEV_GETVERSION) False None) (\<lambda>(ok, s, request, resp).
     bind_res (if ok then Inr (ok, s, request, resp) else deviceTransaction s request False resp)
       (\<lambda>(ok, s, _, resp).
          if \<not> ok then Inr (False, s)
          else case resp of
            None \<Rightarrow> Inl NullDeref
          | Some p \<Rightarrow>
              if dataLen p \<noteq> 2 then Inr (False, s)
              else bind_res (byte_at (data p) 1) (\<lambda>hi. bind_res (byte_at (data p) 0) (\<lambda>lo.
                     let v = push_bit 8 (ucast hi) + ucast lo
                     in Inr (supportedVersion v, s\<lparr>version := v\<rparr>)))))"

section \<open>The reader thread\<close>

text \<open>
  A turn of the reader: the flags other threads may have set when it looks at them, and what
  \<open>interruptRecv\<close> returns, the bytes received (at most \<open>maxPacketSize\<close>) or a failure with its errno.  Only
  the sign of a failure's return value matters to the code; it is \<open>- 1\<close> here.
\<close>

datatype recvResult = Received "byte list" | RecvFailed int

record recvEvent =
  ev_quit :: bool
  ev_stopped :: bool
  ev_result :: recvResult

text \<open>The control header check; the result is the code (translated) and the payload.\<close>

definition classify :: "u16 \<Rightarrow> byte list \<Rightarrow> byte \<times> byte list" where
  "classify v buf =
     (if MIN_CTL_LENGTH \<le> length buf \<and> buf ! 0 = CTL_START \<and> buf ! 1 = CTL_START \<and> buf ! 2 = CTL_FROMDEV
      then (snd (translateDevice (buf ! CODE_OFFSET) v False), drop MIN_CTL_LENGTH buf)
      else (IG_DEV_RECV, take (length buf - 1) buf))"

text \<open>
  The loop that reads the rest of a payload into a block of \<open>inData\<close> bytes: the bytes stored, the last
  value of \<open>length\<close>, the toggle and the events left.  No event left means that the thread still waits
  (\<open>None\<close>).
\<close>

fun collect :: "bool \<Rightarrow> nat \<Rightarrow> nat \<Rightarrow> byte list \<Rightarrow> int \<Rightarrow> bool \<Rightarrow> recvEvent list
    \<Rightarrow> (byte list \<times> int \<times> bool \<times> recvEvent list) option res" where
  "collect fix maxSize inD got len toggle evs =
     (if inD \<le> length got then Inr (Some (got, len, toggle, evs))
      else case evs of
        [] \<Rightarrow> Inr None
      | ev # evs \<Rightarrow>
          let toggle = (if fix then \<not> toggle else toggle)
          in case ev_result ev of
               RecvFailed e \<Rightarrow> Inr (Some (got, - 1, toggle, evs))
             | Received bs \<Rightarrow>
                 if 0 < length bs \<and> length bs \<le> maxSize
                 then if inD < length got + length bs then Inl OutOfBounds
                      else collect fix maxSize inD (got @ bs) (int (length bs)) toggle evs
                 else Inr (Some (got, int (length bs), toggle, evs)))"

text \<open>Storing and queueing one packet that arrived in \<open>buf\<close>.\<close>

definition storePacket :: "byte list \<Rightarrow> bool \<Rightarrow> recvEvent list \<Rightarrow> devWorld
    \<Rightarrow> (int \<times> bool \<times> recvEvent list \<times> devWorld) option res" where
  "storePacket buf toggle evs s =
     (let (c, payload) = classify (version s) buf;
          type = findTypeEntry c (version s);
          fromDev = (case type of None \<Rightarrow> True | Some t \<Rightarrow> direction t \<noteq> CTL_TODEV);
          plain = Inr (Some (int (length buf), toggle, evs,
                    queueDataPacket s \<lparr>code = c, dataLen = int (length payload), data = Some payload\<rparr> fromDev))
      in case type of
           None \<Rightarrow> plain
         | Some t \<Rightarrow>
             if inData t \<noteq> NO_PAYLOAD \<and> int (length payload) < inData t
             then bind_res (collect (fixToggle s) (maxPacketSize s) (nat (inData t)) payload
                              (int (length buf)) toggle evs)
                    (\<lambda>r. Inr (map_option (\<lambda>(got, len, toggle, evs).
                       (len, toggle, evs,
                        queueDataPacket s \<lparr>code = c, dataLen = int (length got),
                           data = Some (got @ map (uninit s) [length got..<nat (inData t)])\<rparr> fromDev)) r))
             else plain)"

text \<open>A receive error: the new \<open>length\<close>, the toggle and whether the code breaks out of the loop.\<close>

definition recvError :: "int \<Rightarrow> bool \<Rightarrow> int \<Rightarrow> bool \<Rightarrow> devWorld \<Rightarrow> int \<times> bool \<times> bool \<times> devWorld" where
  "recvError e isStopped prev toggle s =
     (if e = ETIMEDOUT then
        (if fixToggle s
         then (0, False, False, s\<lparr>willFail := willFail s \<or> (firstTimeout s \<and> toggle), firstTimeout := False\<rparr>)
         else (0, toggle, False, s))
      else if e = EPIPE then
        (if disconnectOnEPipe s \<or> prev < 0 then (- 1, toggle, True, s) else (0, toggle, False, s))
      else if e = ENODEV then (- 1, toggle, True, s)
      else if isStopped then (- 1, toggle, True, s)
      else (- 1, toggle, False, if autoRescan s then s\<lparr>rescans := rescans s + 1\<rparr> else s))"

definition noteTraffic :: "devWorld \<Rightarrow> devWorld" where
  "noteTraffic s = (if fixToggle s then s\<lparr>willFail := False, firstTimeout := True\<rparr> else s)"

definition closeReader :: "devWorld \<Rightarrow> devWorld" where
  "closeReader s = s\<lparr>readerOpen := False\<rparr>"

lemma collect_shorter:
  "collect fix m n got len toggle evs = Inr (Some (got', len', toggle', evs')) \<Longrightarrow> length evs' \<le> length evs"
proof (induction evs arbitrary: got len toggle)
  case Nil
  then show ?case by (auto split: if_splits)
next
  case (Cons ev evs)
  show ?case
  proof (cases "ev_result ev")
    case (Received bs)
    then show ?thesis using Cons.prems Cons.IH
      by (subst (asm) collect.simps) (fastforce simp del: collect.simps simp: Let_def split: if_splits)
  next
    case (RecvFailed e)
    then show ?thesis using Cons.prems by (subst (asm) collect.simps) (auto simp: Let_def split: if_splits)
  qed
qed

declare collect.simps [simp del]

lemma storePacket_shorter:
  "storePacket buf toggle evs s = Inr (Some (len, toggle', evs', s')) \<Longrightarrow> length evs' \<le> length evs"
  unfolding storePacket_def Let_def
  by (auto simp: res_simps split: prod.splits option.splits if_splits dest: collect_shorter)

text \<open>
  One turn of the reader's loop: it leaves the loop (\<open>Leave\<close>), it is still waiting inside of a payload
  when the events are used up (\<open>Waiting\<close>), or it goes on with a new \<open>length\<close>.
\<close>

datatype turn =
    Leave devWorld
  | Waiting devWorld
  | Again int bool "recvEvent list" devWorld

definition readerTurn :: "recvEvent \<Rightarrow> int \<Rightarrow> bool \<Rightarrow> recvEvent list \<Rightarrow> devWorld \<Rightarrow> turn res" where
  "readerTurn ev prev toggle evs s =
     (case ev_result ev of
        RecvFailed e \<Rightarrow>
          (let (len, toggle, brk, s) = recvError e (ev_stopped ev) prev toggle s
           in Inr (if brk then Leave s else Again len toggle evs s))
      | Received bs \<Rightarrow>
          (let toggle = (if fixToggle s then \<not> toggle else toggle); s = noteTraffic s
           in if bs = [] then Inr (Again 0 toggle evs s)
              else bind_res (storePacket bs toggle evs s)
                     (\<lambda>r. Inr (case r of None \<Rightarrow> Waiting s
                               | Some (len, toggle, evs, s) \<Rightarrow> Again len toggle evs s))))"

lemma readerTurn_shorter: "readerTurn ev prev toggle evs s = Inr (Again len toggle' evs' s') \<Longrightarrow> length evs' \<le> length evs"
  by (auto simp: readerTurn_def Let_def res_simps dest: storePacket_shorter
      split: recvResult.splits prod.splits if_splits option.splits)

text \<open>
  The loop of the reader thread over the receive events.  The result says whether the loop ended; it
  still runs when the events are used up.
\<close>

function readerLoop :: "int \<Rightarrow> int \<Rightarrow> bool \<Rightarrow> recvEvent list \<Rightarrow> devWorld \<Rightarrow> (bool \<times> devWorld) res" where
  "readerLoop len prev toggle evs s =
     (if len < 0 then Inr (True, closeReader s)
      else case evs of
        [] \<Rightarrow> Inr (False, s)
      | ev # evs \<Rightarrow>
          if ev_quit ev then Inr (True, closeReader s)
          else case readerTurn ev prev toggle evs s of
            Inl f \<Rightarrow> Inl f
          | Inr (Leave s) \<Rightarrow> Inr (True, closeReader s)
          | Inr (Waiting s) \<Rightarrow> Inr (False, s)
          | Inr (Again len toggle evs s) \<Rightarrow> readerLoop len len toggle evs s)"
  by pat_completeness auto
termination
  by (relation "measure (\<lambda>(_, _, _, evs, _). length evs)") (auto dest: readerTurn_shorter)

declare readerLoop.simps [simp del]

definition handleIncomingPackets :: "recvEvent list \<Rightarrow> devWorld \<Rightarrow> (bool \<times> devWorld) res" where
  "handleIncomingPackets evs s =
     readerLoop 0 0 True evs (if fixToggle s then s\<lparr>willFail := False, firstTimeout := True\<rparr> else s)"

section \<open>The equations of the source\<close>

lemma requestOf_sel [simp]: "code (requestOf c) = c" "dataLen (requestOf c) = 0" "data (requestOf c) = None"
  by (simp_all add: requestOf_def DATA_PACKET_INIT_def)

lemma deviceCode_code: "deviceCode r s = Inr (c, r', s') \<Longrightarrow> code r' = code r"
  by (auto simp: deviceCode_def res_simps split: if_splits)

lemma addChecksum_code: "addChecksum c r = Inr r' \<Longrightarrow> code r' = code r \<and> dataLen r' = dataLen r"
  by (auto simp: addChecksum_def Let_def split: if_splits option.splits)

lemma packRequest_cong:
  assumes "\<not> isStream (code r)"
  shows "packRequest f r s = packRequest g r s"
proof (cases "deviceCode r s")
  case (Inr t)
  obtain c r' s' where t: "t = (c, r', s')" by (cases t)
  show ?thesis
  proof (cases "addChecksum (snd (translateDevice c (version s') True)) r'")
    case (Inr r'')
    then have "code r'' = code r"
      using deviceCode_code addChecksum_code \<open>deviceCode r s = Inr t\<close> t by metis
    then show ?thesis using assms Inr \<open>deviceCode r s = Inr t\<close> t by (simp add: packRequest_def)
  qed (simp add: packRequest_def \<open>deviceCode r s = Inr t\<close> t)
qed (simp add: packRequest_def)

lemma runTransaction_cong:
  assumes "\<not> isStream (code r)"
  shows "runTransaction f s r null resp = runTransaction g s r null resp"
  unfolding runTransaction_def packRequest_cong [OF assms, of f _ g] ..

lemma checkFeatures_source:
  "checkFeatures s targetSet =
     (if version s AND 0xFF = 0 \<or> version s AND 0xFF00 = 0 then Inr (False, s)
      else bind_res
        (if features s = UNKNOWN_FEATURES
         then bind_res (deviceTransaction s (requestOf IG_DEV_GETFEATURES) False None)
                (\<lambda>(ok, s, _, resp). if ok then storeFeatures resp s else Inr s)
         else Inr s)
        (\<lambda>s. Inr (features s \<noteq> UNKNOWN_FEATURES
                   \<and> (targetSet = UNKNOWN_FEATURES \<or> features s = targetSet), s)))"
proof -
  have "runTransaction (\<lambda>_. Inl AssertFailed) s (requestOf IG_DEV_GETFEATURES) False None
      = deviceTransaction s (requestOf IG_DEV_GETFEATURES) False None"
    using runTransaction_cong [of "requestOf IG_DEV_GETFEATURES"]
    by (simp add: deviceTransaction_def isStream_def)
  then show ?thesis by (simp only: checkFeatures_def)
qed

lemma oldPinStep_source:
  "x < 2 \<Longrightarrow> code r = (if c = IG_DEV_SETPINCONFIG then IG_DEV_SETCONFIG0 else IG_DEV_GETCONFIG0) + word_of_nat x * 2 \<Longrightarrow>
     runTransaction (\<lambda>s. checkFeatures s UNKNOWN_FEATURES) s r null resp = deviceTransaction s r null resp"
  by (auto simp: deviceTransaction_def less_2_cases_iff split: if_splits)

section \<open>Sending in chunks\<close>

lemma sendChunks_sent:
  "sendChunks cs s = (ok, s') \<Longrightarrow>
     \<exists>ps. sent s' = sent s @ ps \<and> (\<exists>qs. cs = ps @ qs) \<and> (ok \<longrightarrow> ps = cs)
       \<and> maxPacketSize s' = maxPacketSize s \<and> sendRes s' = sendRes s"
proof (induction cs arbitrary: s)
  case (Cons c cs)
  obtain r t where t: "interruptSend c s = (r, t)" by (cases "interruptSend c s")
  then have st: "sent t = sent s @ [c]" "maxPacketSize t = maxPacketSize s" "sendRes t = sendRes s"
    by (auto simp: interruptSend_def split: prod.splits)
  show ?case
  proof (cases "r = int (length c)")
    case True
    then show ?thesis using Cons.IH [of t] Cons.prems t st by fastforce
  next
    case False
    then show ?thesis using Cons.prems t st by auto
  qed
qed simp

definition sends_ok :: "devWorld \<Rightarrow> bool" where
  "sends_ok s \<longleftrightarrow> (\<forall>n b. fst (sendRes s n b) = int (length b))"

lemma interruptSend_eq:
  "interruptSend b s = (r, s') \<Longrightarrow>
     sent s' = sent s @ [b] \<and> maxPacketSize s' = maxPacketSize s \<and> sendRes s' = sendRes s
     \<and> (sends_ok s \<longrightarrow> r = int (length b))"
  by (auto simp: interruptSend_def sends_ok_def split: prod.splits) (metis fst_conv)

lemma sendChunks_ok: "sends_ok s \<Longrightarrow> fst (sendChunks cs s)"
proof (induction cs arbitrary: s)
  case (Cons c cs)
  obtain r t where t: "interruptSend c s = (r, t)" by (cases "interruptSend c s")
  then have "r = int (length c)" "sends_ok t"
    using interruptSend_eq [OF t] Cons.prems by (simp_all add: sends_ok_def)
  then show ?case using Cons.IH [of t] t by simp
qed simp

lemma concat_chunks:
  "n * m \<le> length buf \<Longrightarrow> concat (map (\<lambda>x. take m (drop (x * m) buf)) [0..<n]) = take (n * m) buf"
proof (induction n)
  case (Suc n)
  then have "concat (map (\<lambda>x. take m (drop (x * m) buf)) [0..<n]) = take (n * m) buf" by simp
  moreover have "take (m + n * m) buf = take (n * m) buf @ take m (drop (n * m) buf)"
    by (metis add.commute take_add)
  ultimately show ?case by simp
qed simp

definition chunksOf :: "nat \<Rightarrow> byte list \<Rightarrow> bool \<Rightarrow> byte list list" where
  "chunksOf m buf term =
     map (\<lambda>x. take m (drop (x * m) buf)) [0..<length buf div m]
       @ (if term then [drop (length buf div m * m) buf @ [0]]
          else if 0 < length buf mod m then [drop (length buf div m * m) buf] else [])"

lemma chunk_index:
  fixes x m L :: nat
  assumes "x < L div m" "0 < m"
  shows "x * m + m \<le> L"
proof -
  have "Suc x * m \<le> (L div m) * m" using assms(1) by (intro mult_right_mono) auto
  also have "\<dots> \<le> L" by simp
  finally show ?thesis by (simp add: add.commute)
qed

lemma chunksOf_bounds:
  assumes "0 < m" "p \<in> set (chunksOf m buf term)"
  shows "0 < length p \<and> length p \<le> m"
proof -
  have r: "length buf - length buf div m * m = length buf mod m" by (simp add: minus_div_mult_eq_mod)
  have "length buf mod m < m" using assms(1) by simp
  moreover have "length p = m \<or> length p = length buf mod m + 1 \<or> (0 < length buf mod m \<and> length p = length buf mod m)"
  proof (cases "\<exists>x < length buf div m. p = take m (drop (x * m) buf)")
    case True
    then show ?thesis using chunk_index [OF _ assms(1), of _ "length buf"] by force
  next
    case False
    then show ?thesis using assms(2) r by (auto simp: chunksOf_def split: if_splits)
  qed
  ultimately show ?thesis using assms(1) by linarith
qed

lemma concat_chunksOf: "concat (chunksOf m buf term) = buf @ (if term then [0] else [])"
proof -
  define k where "k = length buf div m * m"
  have k: "k \<le> length buf" by (simp add: k_def)
  have "concat (map (\<lambda>x. take m (drop (x * m) buf)) [0..<length buf div m]) = take k buf"
    unfolding k_def by (rule concat_chunks) simp
  moreover have "drop k buf = []" if "length buf mod m = 0"
    using that unfolding k_def by (simp add: minus_div_mult_eq_mod [symmetric])
  ultimately show ?thesis by (simp add: chunksOf_def flip: k_def)
qed

lemma sendData_chunks:
  assumes "0 < maxPacketSize s"
  shows "\<exists>ok s' ps. sendData s buf term = Inr (ok, s') \<and> sent s' = sent s @ ps
    \<and> (\<exists>qs. chunksOf (maxPacketSize s) buf term = ps @ qs)
    \<and> (ok \<longrightarrow> ps = chunksOf (maxPacketSize s) buf term) \<and> (sends_ok s \<longrightarrow> ok)"
proof -
  let ?m = "maxPacketSize s"
  let ?cs = "map (\<lambda>x. take ?m (drop (x * ?m) buf)) [0..<length buf div ?m]"
  define lst where "lst = (if term then Some (drop (length buf div ?m * ?m) buf @ [0])
    else if 0 < length buf mod ?m then Some (drop (length buf div ?m * ?m) buf) else None)"
  obtain ok t where t: "sendChunks ?cs s = (ok, t)" by (cases "sendChunks ?cs s")
  have cs: "chunksOf ?m buf term = ?cs @ (case lst of None \<Rightarrow> [] | Some p \<Rightarrow> [p])"
    by (simp add: chunksOf_def lst_def)
  have eq: "sendData s buf term = Inr (if \<not> ok then (False, t)
      else case lst of None \<Rightarrow> (True, t) | Some p \<Rightarrow> let (r, s) = interruptSend p t in (r = int (length p), s))"
    using assms t by (simp add: sendData_def Let_def lst_def)
  obtain ps qs where ps: "sent t = sent s @ ps" "?cs = ps @ qs" "ok \<longrightarrow> ps = ?cs" "sendRes t = sendRes s"
    using sendChunks_sent [OF t] by metis
  have so: "sends_ok s \<Longrightarrow> ok \<and> sends_ok t"
    using sendChunks_ok [of s ?cs] t ps(4) by (simp add: sends_ok_def)
  show ?thesis
  proof (cases ok)
    case False
    then show ?thesis unfolding cs eq using ps(1,2) so by auto
  next
    case True
    show ?thesis
    proof (cases lst)
      case None
      then have "sendData s buf term = Inr (True, t)" unfolding eq using True by simp
      then show ?thesis unfolding cs None using ps(1,3) True by auto
    next
      case (Some p)
      obtain r u where u: "interruptSend p t = (r, u)" by (cases "interruptSend p t")
      then have "sendData s buf term = Inr (r = int (length p), u)" unfolding eq Some using True by simp
      moreover have "sent u = sent s @ ?cs @ [p]" "sends_ok s \<longrightarrow> r = int (length p)"
        using interruptSend_eq [OF u] ps(1,3) True so by auto
      moreover have "chunksOf ?m buf term = (?cs @ [p]) @ []" unfolding cs Some by simp
      ultimately show ?thesis
        by - (rule exI [of _ "r = int (length p)"], rule exI [of _ u], rule exI [of _ "?cs @ [p]"], simp)
    qed
  qed
qed

text \<open>
  Data is sent to a device in order and completely: the packets handed to the driver are a prefix
  of the chunks of the buffer (with the zero terminator old firmware wants), none larger than the
  endpoint's packet size and none empty; the call reports success only after all of them went out, and
  it does when no send fails.
\<close>

theorem sendData_complete:
  assumes "0 < maxPacketSize s"
  shows "\<exists>ok s' ps. sendData s buf addTerminator = Inr (ok, s') \<and> sent s' = sent s @ ps
    \<and> (\<forall>p \<in> set ps. 0 < length p \<and> length p \<le> maxPacketSize s)
    \<and> (\<exists>more. concat ps @ more = buf @ (if addTerminator then [0] else []))
    \<and> (ok \<longrightarrow> concat ps = buf @ (if addTerminator then [0] else [])) \<and> (sends_ok s \<longrightarrow> ok)"
proof -
  obtain ok s' ps qs where r: "sendData s buf addTerminator = Inr (ok, s')" "sent s' = sent s @ ps"
    "chunksOf (maxPacketSize s) buf addTerminator = ps @ qs"
    "ok \<longrightarrow> ps = chunksOf (maxPacketSize s) buf addTerminator" "sends_ok s \<longrightarrow> ok"
    using sendData_chunks [OF assms] by metis
  have "concat ps @ concat qs = buf @ (if addTerminator then [0] else [])"
    using concat_chunksOf [of "maxPacketSize s" buf addTerminator] r(3) by simp
  moreover have "\<forall>p \<in> set ps. 0 < length p \<and> length p \<le> maxPacketSize s"
    using chunksOf_bounds [OF assms, of _ buf addTerminator] r(3) by simp
  moreover have "ok \<longrightarrow> concat ps = buf @ (if addTerminator then [0] else [])"
    using r(4) concat_chunksOf [of "maxPacketSize s" buf addTerminator] by auto
  ultimately show ?thesis using r by blast
qed

text \<open>A device at rest, for the examples: version 0x308 with an 8-byte endpoint and a driver that sends everything.\<close>

definition devWorld0 :: devWorld where
  "devWorld0 = \<lparr>devId = 0, stopped = False, maxPacketSize = 8, quitRequested = False, readerPipe = 0,
     readerOpen = True, responsePipe = 0, recvList = [], response = None, receiverCount = 0,
     version = 0x308, features = UNKNOWN_FEATURES, cycles = 0, channels = 0, carrier = 38000,
     addrStr = None, locAlias = None, userAlias = None, willFail = False, firstTimeout = False,
     errno = 0, fixToggle = False, disconnectOnEPipe = False, autoRescan = True, rescans = 0, sent = [],
     sendRes = (\<lambda>n b. (int (length b), 0)), waits = 0, waitRes = (\<lambda>n. Queued []), uninit = (\<lambda>n. 0),
     flushes = 0, flushTears = (\<lambda>n. False)\<rparr>"

theorem sendData_complete_witness:
  "\<exists>s' ps. sendData devWorld0 [1, 2, 3, 4, 5, 6, 7, 8, 9] True = Inr (True, s')
     \<and> sent s' = ps \<and> concat ps = [1, 2, 3, 4, 5, 6, 7, 8, 9, 0]"
  using sendData_complete [of devWorld0 "[1, 2, 3, 4, 5, 6, 7, 8, 9]" True]
  by (auto simp: devWorld0_def sends_ok_def)

end
