(* ===== verification/Server.thy ===== *)
theory Server
  imports Pipes Device_Interface
begin

text \<open>
  \<open>server.c\<close>: the summaries of the known devices and the lookup of a device's address, which answer the
  control clients; the option parser and the default settings; the command pipe of the main thread.
\<close>

section \<open>Summaries\<close>

text \<open>\<open>sprintf(buf, "%d", n)\<close> into an array of the given size.\<close>

definition sprintfInt :: "nat \<Rightarrow> nat \<Rightarrow> cstring res" where
  "sprintfInt cap n = (if length (dec n) < cap then Inr (dec n) else Inl OutOfBounds)"

definition aliasText :: "cstring \<Rightarrow> cstring option \<Rightarrow> cstring option \<Rightarrow> cstring" where
  "aliasText name loc user =
     str ''i:'' @ name
       @ (case loc of None \<Rightarrow> [] | Some a \<Rightarrow> str '',l:'' @ a)
       @ (case user of None \<Rightarrow> [] | Some a \<Rightarrow> str '',u:'' @ a)"

text \<open>The text is copied piece by piece into a block whose size was added up before.\<close>

definition aliasSummary :: "'a iguanaDev_scheme \<Rightarrow> cstring res" where
  "aliasSummary d =
     bind_res (sprintfInt 8 (devId d)) (\<lambda>name.
       let len = 1 + (2 + length name)
                   + (case locAlias d of None \<Rightarrow> 0 | Some a \<Rightarrow> 3 + length a)
                   + (case userAlias d of None \<Rightarrow> 0 | Some a \<Rightarrow> 3 + length a);
           text = aliasText name (locAlias d) (userAlias d)
       in if length text < len then Inr text else Inl OutOfBounds)"

definition summarize :: "'a iguanaDev_scheme \<Rightarrow> cstring option \<Rightarrow> cstring option res" where
  "summarize d buf =
     bind_res (aliasSummary d) (\<lambda>s.
       let len = (case buf of None \<Rightarrow> 1 | Some b \<Rightarrow> length b + 1) + (length s + 1);
           text = (case buf of None \<Rightarrow> s | Some b \<Rightarrow> b @ [bar_char] @ s)
       in if length text < len then Inr (Some text) else Inl OutOfBounds)"

fun summarizeAll :: "('a iguanaDev_scheme) list \<Rightarrow> cstring option \<Rightarrow> cstring option res" where
  "summarizeAll [] buf = Inr buf"
| "summarizeAll (d # ds) buf = bind_res (summarize d buf) (\<lambda>buf. summarizeAll ds buf)"

definition deviceSummary :: "('a iguanaDev_scheme) list \<Rightarrow> cstring option res" where
  "deviceSummary devs = summarizeAll devs None"

section \<open>Addresses\<close>

text \<open>\<open>strcmp\<close> of an alias with a name; a NULL alias is dereferenced.\<close>

definition sameAs :: "cstring option \<Rightarrow> cstring \<Rightarrow> bool res" where
  "sameAs a name = (case a of None \<Rightarrow> Inl NullDeref | Some t \<Rightarrow> Inr (t = name))"

definition samePath :: "cstring option \<Rightarrow> cstring \<Rightarrow> bool res" where
  "samePath a name = bind_res (socketName a PATH_MAX) (\<lambda>path. Inr (path = name))"

definition orElse :: "bool res \<Rightarrow> bool res \<Rightarrow> bool res" where
  "orElse a b = bind_res a (\<lambda>found. if found then Inr True else b)"

definition matchesName :: "'a iguanaDev_scheme \<Rightarrow> cstring \<Rightarrow> bool res" where
  "matchesName d name =
     bind_res (sprintfInt 8 (devId d)) (\<lambda>idBuf.
       orElse (samePath (Some idBuf) name)
         (orElse (sameAs (locAlias d) name)
           (orElse (samePath (locAlias d) name)
             (if userAlias d = None then Inr False
              else orElse (sameAs (userAlias d) name) (samePath (userAlias d) name)))))"

definition findAddress :: "'a iguanaDev_scheme \<Rightarrow> cstring \<Rightarrow> cstring option \<Rightarrow> cstring option res" where
  "findAddress d name result =
     (if result \<noteq> None then Inr result
      else bind_res (matchesName d name) (\<lambda>found.
             if found then (case addrStr d of None \<Rightarrow> Inl NullDeref | Some a \<Rightarrow> Inr (Some a)) else Inr None))"

fun findAddressAll :: "('a iguanaDev_scheme) list \<Rightarrow> cstring \<Rightarrow> cstring option \<Rightarrow> cstring option res" where
  "findAddressAll [] name result = Inr result"
| "findAddressAll (d # ds) name result =
     bind_res (findAddress d name result) (\<lambda>result. findAddressAll ds name result)"

definition deviceAddress :: "('a iguanaDev_scheme) list \<Rightarrow> cstring option \<Rightarrow> cstring option res" where
  "deviceAddress devs name =
     (case name of None \<Rightarrow> Inr None | Some n \<Rightarrow> findAddressAll devs n None)"

section \<open>Settings\<close>

record serverSettings =
  onlyPreferred :: bool
  driverDir :: "cstring option"
  preferred :: "cstring list"     \<comment> \<open>without the terminating NULL\<close>
  recvTimeout :: int
  sendTimeout :: int
  s_disconnectOnEPipe :: bool
  s_readLabels :: bool
  s_autoRescan :: bool
  justDescribe :: bool
  unbind :: bool
  scanSeconds :: int
  s_fixToggle :: bool

definition initServerSettings :: serverSettings where
  "initServerSettings =
     \<lparr>onlyPreferred = False, driverDir = None, preferred = [], recvTimeout = 1000, sendTimeout = 1000,
      s_disconnectOnEPipe = False, s_readLabels = True, s_autoRescan = True, justDescribe = False,
      unbind = False, scanSeconds = 0, s_fixToggle = False\<rparr>"

datatype baseArg =
    ARG_DRIVER cstring | ARG_ONLY_PREFER | ARG_DRIVER_DIR cstring | ARG_NO_IDS | ARG_NO_RESCAN
  | ARG_SCANWHEN "int option"   \<comment> \<open>what \<open>strtol\<close> makes of the whole argument, if anything\<close>
  | ARG_BADTOGGLE
  | ARG_OTHER

datatype argError = ARGP_HELP_STD_ERR | ARGP_ERR_UNKNOWN

definition parseOption :: "baseArg \<Rightarrow> serverSettings \<Rightarrow> argError + serverSettings" where
  "parseOption key s =
     (case key of
        ARG_DRIVER arg \<Rightarrow> Inr (s\<lparr>preferred := preferred s @ [arg]\<rparr>)
      | ARG_ONLY_PREFER \<Rightarrow> Inr (s\<lparr>onlyPreferred := True\<rparr>)
      | ARG_DRIVER_DIR arg \<Rightarrow> Inr (s\<lparr>driverDir := Some arg\<rparr>)
      | ARG_NO_IDS \<Rightarrow> Inr (s\<lparr>s_readLabels := False\<rparr>)
      | ARG_NO_RESCAN \<Rightarrow> Inr (s\<lparr>s_autoRescan := False\<rparr>)
      | ARG_SCANWHEN v \<Rightarrow>
          (case v of None \<Rightarrow> Inl ARGP_HELP_STD_ERR
           | Some r \<Rightarrow> if r < 0 \<or> 3600 < r then Inl ARGP_HELP_STD_ERR else Inr (s\<lparr>scanSeconds := r\<rparr>))
      | ARG_BADTOGGLE \<Rightarrow> Inr (s\<lparr>s_fixToggle := True\<rparr>)
      | ARG_OTHER \<Rightarrow> Inl ARGP_ERR_UNKNOWN)"

section \<open>The command pipe\<close>

text \<open>
  What arrives on \<open>commPipe\<close> in units of a thread id: a thread to join, or the flag (the invalid id)
  followed by a command.
\<close>

datatype commWord = ThreadId nat | InvalidId

abbreviation (input) SCAN_TRIGGER :: nat where "SCAN_TRIGGER \<equiv> 0x55"
abbreviation (input) QUIT_TRIGGER :: nat where "QUIT_TRIGGER \<equiv> 0x56"

definition triggerCommand :: "nat \<Rightarrow> commWord list" where
  "triggerCommand cmd = [InvalidId, ThreadId cmd]"

definition makeParentJoin :: "nat \<Rightarrow> commWord list" where
  "makeParentJoin t = [ThreadId t]"

record commState =
  joined :: "nat list"
  scans :: nat

text \<open>
  The loop of \<open>waitOnCommPipe\<close> on the words in the pipe; its result says whether it ended.  The end of the
  list is a pipe that stays empty, so the loop waits; a failed read (\<open>readFails\<close>) ends it.
\<close>

fun commLoop :: "bool \<Rightarrow> bool \<Rightarrow> commWord list \<Rightarrow> commState \<Rightarrow> bool \<times> commState" where
  "commLoop readFails justDesc [] s = (readFails, s)"
| "commLoop readFails justDesc (ThreadId t # ws) s =
     commLoop readFails justDesc ws (s\<lparr>joined := joined s @ [t]\<rparr>)"
| "commLoop readFails justDesc [InvalidId] s = (readFails, s)"
| "commLoop readFails justDesc (InvalidId # w # ws) s =
     (if w = ThreadId QUIT_TRIGGER then (True, s)
      else if w \<noteq> ThreadId SCAN_TRIGGER then commLoop readFails justDesc ws s
      else let s = s\<lparr>scans := scans s + 1\<rparr>
           in if justDesc then (True, s) else commLoop readFails justDesc ws s)"

text \<open>
  \<open>waitOnCommPipe\<close> asks for a first scan like everybody else, with the two writes of \<open>triggerCommand\<close>, and
  then runs the loop.  \<open>before\<close>, \<open>between\<close> and \<open>after\<close> are the words the other writers put into the pipe
  before, between and after its own two.
\<close>

definition waitOnCommPipe :: "bool \<Rightarrow> bool \<Rightarrow> commWord list \<Rightarrow> commWord list \<Rightarrow> commWord list \<Rightarrow> commState \<Rightarrow> bool \<times> commState" where
  "waitOnCommPipe readFails justDesc before between after s =
     (let ws = triggerCommand SCAN_TRIGGER
      in commLoop readFails justDesc (before @ take 1 ws @ between @ drop 1 ws @ after) s)"

section \<open>Properties\<close>

lemma aliasSummary_eq: "length (dec (devId d)) < 8 \<Longrightarrow> aliasSummary d = Inr (aliasText (dec (devId d)) (locAlias d) (userAlias d))"
  by (simp add: aliasSummary_def sprintfInt_def aliasText_def str_def Let_def split: option.splits)

definition summaryOf :: "'a iguanaDev_scheme \<Rightarrow> cstring" where
  "summaryOf d = aliasText (dec (devId d)) (locAlias d) (userAlias d)"

fun joinBar :: "cstring list \<Rightarrow> cstring" where
  "joinBar [] = []"
| "joinBar [s] = s"
| "joinBar (s # t # ss) = s @ [bar_char] @ joinBar (t # ss)"

lemma summarize_eq:
  "length (dec (devId d)) < 8 \<Longrightarrow> summarize d buf = Inr (Some (case buf of None \<Rightarrow> summaryOf d | Some b \<Rightarrow> b @ [bar_char] @ summaryOf d))"
  by (simp add: summarize_def aliasSummary_eq summaryOf_def Let_def split: option.splits)

lemma summarizeAll_Some:
  "list_all (\<lambda>d. length (dec (devId d)) < 8) ds \<Longrightarrow>
     summarizeAll ds (Some b) = Inr (Some (if ds = [] then b else b @ [bar_char] @ joinBar (map summaryOf ds)))"
proof (induction ds arbitrary: b)
  case (Cons d ds)
  then show ?case
    using Cons.IH [of "b @ [bar_char] @ summaryOf d"] by (cases ds) (simp_all add: summarize_eq)
qed simp

lemma deviceSummary_eq:
  assumes "list_all (\<lambda>d. length (dec (devId d)) < 8) ds"
  shows "deviceSummary ds = Inr (if ds = [] then None else Some (joinBar (map summaryOf ds)))"
proof (cases ds)
  case (Cons d ds')
  then show ?thesis
    using assms summarizeAll_Some [of ds' "summaryOf d"]
    by (cases ds') (simp_all add: deviceSummary_def summarize_eq)
qed (simp add: deviceSummary_def)

fun splitBar :: "cstring \<Rightarrow> cstring list" where
  "splitBar [] = [[]]"
| "splitBar (c # cs) =
     (if c = bar_char then [] # splitBar cs
      else case splitBar cs of [] \<Rightarrow> [[c]] | h # t \<Rightarrow> (c # h) # t)"

lemma splitBar_no: "bar_char \<notin> set s \<Longrightarrow> splitBar s = [s]"
  by (induction s) auto

lemma splitBar_append: "bar_char \<notin> set s \<Longrightarrow> splitBar (s @ bar_char # t) = s # splitBar t"
  by (induction s) auto

lemma splitBar_joinBar:
  "ss \<noteq> [] \<Longrightarrow> list_all (\<lambda>s. bar_char \<notin> set s) ss \<Longrightarrow> splitBar (joinBar ss) = ss"
  by (induction ss rule: joinBar.induct) (simp_all add: splitBar_no splitBar_append)

text \<open>
  The list of devices a control client gets is complete and in order, and it is built without
  overrunning its buffers: splitting it at the bars gives the summary of every known device, as long as
  no alias contains a bar.
\<close>

theorem deviceSummary_lists_all:
  assumes "devs \<noteq> []" "list_all (\<lambda>d. devId d < 10 ^ 7) devs"
    and "list_all (\<lambda>d. bar_char \<notin> set (summaryOf d)) devs"
  shows "\<exists>t. deviceSummary devs = Inr (Some t) \<and> splitBar t = map summaryOf devs"
proof -
  have "list_all (\<lambda>d. length (dec (devId d)) < 8) devs"
    using assms(2) dec_length [of _ 6] by (fastforce simp: list_all_iff)
  then show ?thesis
    using assms splitBar_joinBar [of "map summaryOf devs"] by (simp add: deviceSummary_eq list_all_iff)
qed

definition exampleDev :: "nat \<Rightarrow> string \<Rightarrow> string option \<Rightarrow> iguanaDev" where
  "exampleDev n loc user = (iguanaDev.truncate devWorld0)\<lparr>devId := n, locAlias := Some (str loc),
     userAlias := map_option str user, addrStr := Some (IGSOCK_NAME @ dec n)\<rparr>"

lemmas example_simps = exampleDev_def devWorld0_def iguanaDev.truncate_def summaryOf_def aliasText_def str_def
  dec.simps IGSOCK_NAME_def

theorem deviceSummary_lists_all_witness:
  "\<exists>t. deviceSummary [exampleDev 0 ''1-2'' None, exampleDev 1 ''1-3'' (Some ''tv'')] = Inr (Some t)
     \<and> splitBar t = [str ''i:0,l:1-2'', str ''i:1,l:1-3,u:tv'']"
  using deviceSummary_lists_all [of "[exampleDev 0 ''1-2'' None, exampleDev 1 ''1-3'' (Some ''tv'')]"]
  by (simp add: example_simps)

section \<open>Finding a device\<close>

text \<open>The names a device answers to.\<close>

definition pathOf :: "cstring \<Rightarrow> cstring" where
  "pathOf a = (if slash_char \<in> set a then a else take (PATH_MAX - 1) (IGSOCK_NAME @ a))"

definition namesOf :: "'a iguanaDev_scheme \<Rightarrow> cstring list" where
  "namesOf d = pathOf (dec (devId d))
     # (case locAlias d of None \<Rightarrow> [] | Some a \<Rightarrow> [a, pathOf a])
     @ (case userAlias d of None \<Rightarrow> [] | Some a \<Rightarrow> [a, pathOf a])"

definition registered :: "'a iguanaDev_scheme \<Rightarrow> bool" where
  "registered d \<longleftrightarrow> devId d < 10 ^ 7 \<and> addrStr d \<noteq> None
     \<and> (\<exists>a. locAlias d = Some a \<and> length a < PATH_MAX)
     \<and> (\<forall>a. userAlias d = Some a \<longrightarrow> length a < PATH_MAX)"

lemma samePath_eq: "length a < PATH_MAX \<Longrightarrow> samePath (Some a) name = Inr (pathOf a = name)"
  by (simp add: samePath_def socketName_def pathOf_def)

lemma matchesName_eq: "registered d \<Longrightarrow> matchesName d name = Inr (name \<in> set (namesOf d))"
  using dec_length [of "devId d" 6]
  by (auto simp: registered_def matchesName_def sprintfInt_def orElse_def samePath_eq sameAs_def namesOf_def
      split: option.splits)

lemma findAddressAll_found: "findAddressAll ds name (Some r) = Inr (Some r)"
  by (induction ds) (simp_all add: findAddress_def)

text \<open>
  The address lookup returns the address of the first known device that answers to the name (its
  index or an alias as a socket path, or an alias alone), and nothing when no device does.
\<close>

theorem deviceAddress_first_match:
  assumes "list_all registered devs"
  shows "deviceAddress devs (Some name) = Inr (Option.bind (find (\<lambda>d. name \<in> set (namesOf d)) devs) addrStr)"
  using assms
proof (induction devs)
  case Nil
  then show ?case by (simp add: deviceAddress_def)
next
  case (Cons d ds)
  then obtain a where "addrStr d = Some a" by (auto simp: registered_def)
  then show ?case
    using Cons by (simp add: deviceAddress_def findAddress_def matchesName_eq findAddressAll_found)
qed

theorem deviceAddress_first_match_witness:
  "deviceAddress [exampleDev 0 ''1-2'' None, exampleDev 1 ''1-3'' (Some ''tv'')] (Some (str ''tv''))
     = Inr (Some (str ''/var/run/iguanaIR/1''))"
  using deviceAddress_first_match [of "[exampleDev 0 ''1-2'' None, exampleDev 1 ''1-3'' (Some ''tv'')]" "str ''tv''"]
  by (simp add: registered_def namesOf_def pathOf_def example_simps)

text \<open>
  A device is put on the list before its location alias is known; a lookup in between dereferences
  a null pointer.
\<close>

theorem deviceAddress_before_alias_crashes:
  "deviceAddress [(exampleDev 0 ''1-2'' None)\<lparr>locAlias := None\<rparr>] (Some (str ''tv'')) = Inl NullDeref"
  by (simp add: deviceAddress_def findAddress_def matchesName_def sprintfInt_def orElse_def samePath_def
      socketName_def sameAs_def example_simps)

section \<open>Options and commands\<close>

text \<open>
  Whatever options are given, the scan period the server ends up with is between 0 and 3600
  seconds, so its product with 1000 stays inside an \<open>int\<close>; a refused option changes nothing.
\<close>

theorem parseOption_scanSeconds:
  assumes "0 \<le> scanSeconds s \<and> scanSeconds s \<le> 3600" "parseOption key s = Inr s'"
  shows "0 \<le> scanSeconds s' \<and> scanSeconds s' \<le> 3600 \<and> in_s32 (scanSeconds s' * 1000)"
  using assms by (auto simp: parseOption_def in_s32_def split: baseArg.splits option.splits if_splits)

theorem parseOption_scanSeconds_witness:
  "\<exists>s'. parseOption (ARG_SCANWHEN (Some 60)) initServerSettings = Inr s' \<and> scanSeconds s' \<le> 3600"
  using parseOption_scanSeconds [of initServerSettings "ARG_SCANWHEN (Some 60)"]
  by (simp add: parseOption_def initServerSettings_def)

text \<open>
  Messages on the command pipe: \<open>Join\<close> from an exiting worker, \<open>Command\<close> from a signal or a reader.
\<close>

datatype commMsg = Join nat | Command nat

fun wire :: "commMsg \<Rightarrow> commWord list" where
  "wire (Join t) = makeParentJoin t"
| "wire (Command c) = triggerCommand c"

fun handled :: "commMsg list \<Rightarrow> commState \<Rightarrow> bool \<times> commState" where
  "handled [] s = (False, s)"
| "handled (Join t # ms) s = handled ms (s\<lparr>joined := joined s @ [t]\<rparr>)"
| "handled (Command c # ms) s =
     (if c = QUIT_TRIGGER then (True, s)
      else handled ms (if c = SCAN_TRIGGER then s\<lparr>scans := scans s + 1\<rparr> else s))"

text \<open>
  The main loop reads back the messages its threads wrote: each exiting worker is joined once, each
  scan command scans once, a quit command ends the loop, and a two-word command is never taken for a
  thread, as long as messages do not interleave.
\<close>

theorem commLoop_messages:
  "commLoop False False (concat (map wire ms)) s = handled ms s"
proof (induction ms arbitrary: s)
  case (Cons m ms)
  then show ?case by (cases m) (auto simp: makeParentJoin_def triggerCommand_def)
qed simp

lemma waitOnCommPipe_messages:
  "waitOnCommPipe False False (concat (map wire ms)) [] (concat (map wire ns)) s = handled (ms @ Command SCAN_TRIGGER # ns) s"
  using commLoop_messages [of "ms @ Command SCAN_TRIGGER # ns" s] by (simp add: waitOnCommPipe_def triggerCommand_def)

end
