(* ===== verification/Client_Library.thy ===== *)
theory Client_Library
  imports Scan Data_Packets Server
begin

text \<open>
  \<open>iguanaIR.c\<close>, the library clients link against: packets, connecting with the fallbacks for the default
  device and for old paths, transactions, files of pulses and spaces, firmware block files and pin
  specifications.
\<close>

section \<open>Packets\<close>

definition iguanaCreateRequest :: "byte \<Rightarrow> u32 \<Rightarrow> byte list option \<Rightarrow> dataPacket" where
  "iguanaCreateRequest c dataLength dat = \<lparr>code = c, dataLen = s32 (uint dataLength), data = dat\<rparr>"

text \<open>The result: the data handed to the caller, the length stored for it, and the packet left behind.\<close>

definition iguanaRemoveData :: "dataPacket option \<Rightarrow> byte list option \<times> u32 option \<times> dataPacket option" where
  "iguanaRemoveData pkt =
     (case pkt of None \<Rightarrow> (None, None, None)
      | Some p \<Rightarrow> (if dataLen p = 0 then None else data p, Some (word_of_int (dataLen p)),
                   Some (p\<lparr>dataLen := 0, data := None\<rparr>)))"

definition iguanaCode :: "dataPacket option \<Rightarrow> byte res" where
  "iguanaCode pkt = (case pkt of None \<Rightarrow> Inl NullDeref | Some p \<Rightarrow> Inr (code p))"

definition iguanaWriteRequest :: "image_junk \<Rightarrow> dataPacket \<Rightarrow> conn \<Rightarrow> (bool \<times> conn) option res" where
  "iguanaWriteRequest j request c = writeDataPacket j request c"

text \<open>A connection or \<open>INVALID_PIPE\<close>; \<open>None\<close> while the read still waits.\<close>

definition iguanaReadResponse :: "bool \<Rightarrow> conn option \<Rightarrow> (dataPacket option \<times> conn option) option" where
  "iguanaReadResponse late c =
     (case c of None \<Rightarrow> Some (None, None)
      | Some c \<Rightarrow> map_option (\<lambda>(ok, p, c). (if ok then Some p else None, Some c)) (readDataPacket late c))"

definition iguanaResponseIsError :: "dataPacket option \<Rightarrow> bool" where
  "iguanaResponseIsError resp = fst (packetIsError resp)"

text \<open>The response is the packet stored for the caller; \<open>None\<close> on failure or when the caller wants none.\<close>

definition iguanaTransaction ::
  "image_junk \<Rightarrow> bool \<Rightarrow> bool \<Rightarrow> dataPacket option \<Rightarrow> conn \<Rightarrow> (bool \<times> dataPacket option \<times> conn) option res" where
  "iguanaTransaction j late want request c =
     (case request of None \<Rightarrow> Inr (Some (False, None, c))
      | Some r \<Rightarrow>
          bind_res (iguanaWriteRequest j r c) (\<lambda>w. Inr (case w of
            None \<Rightarrow> None
          | Some (False, c) \<Rightarrow> Some (False, None, c)
          | Some (True, c) \<Rightarrow>
              (case iguanaReadResponse late (Some c) of None \<Rightarrow> None
               | Some (resp, c') \<Rightarrow>
                   let c = (case c' of None \<Rightarrow> c | Some c' \<Rightarrow> c')
                   in if iguanaResponseIsError resp then Some (False, None, c)
                      else Some (True, if want then resp else None, c)))))"

section \<open>Connecting\<close>

definition OLD_IGSOCK_NAME :: cstring where "OLD_IGSOCK_NAME = str ''/dev/iguanaIR/''"

text \<open>
  What connecting depends on: which names can be connected to, whether the server on a connection
  answers the version request, and the answer of the control socket to the device list request.
\<close>

record dialer =
  dial :: "cstring \<Rightarrow> nat option"
  understands :: "nat \<Rightarrow> bool"
  devList :: "nat \<Rightarrow> cstring option"

definition exchanged :: "dialer \<Rightarrow> nat \<Rightarrow> nat option" where
  "exchanged e conn = (if understands e conn then Some conn else None)"

definition isOldPath :: "cstring \<Rightarrow> bool" where
  "isOldPath name \<longleftrightarrow> take (length OLD_IGSOCK_NAME) name = OLD_IGSOCK_NAME"

lemma new_path_is_not_old: "\<not> isOldPath (IGSOCK_NAME @ s)"
  by (simp add: isOldPath_def OLD_IGSOCK_NAME_def IGSOCK_NAME_def str_def)

text \<open>A named device: an old path is tried again under the new directory, in a buffer of PATH_MAX bytes.\<close>

function connectName :: "dialer \<Rightarrow> cstring \<Rightarrow> nat option res" where
  "connectName e name =
     (case dial e name of
        Some conn \<Rightarrow> Inr (exchanged e conn)
      | None \<Rightarrow>
          if isOldPath name
          then if length (IGSOCK_NAME @ drop 14 name) < PATH_MAX then connectName e (IGSOCK_NAME @ drop 14 name)
               else Inl OutOfBounds
          else Inr None)"
  by pat_completeness auto
termination
  by (relation "measure (\<lambda>(_, name). if isOldPath name then 1 else 0)") (simp_all add: new_path_is_not_old)

declare connectName.simps [simp del]

definition iguanaListDevices :: "dialer \<Rightarrow> cstring option res" where
  "iguanaListDevices e = bind_res (connectName e (str ''ctl'')) (\<lambda>c. Inr (Option.bind c (devList e)))"

text \<open>
  The name of the first device in the list: the text between the two leading characters and the first
  comma, copied with \<open>strncpy\<close> into eight cleared bytes.
\<close>

abbreviation (input) comma_char :: byte where "comma_char \<equiv> 0x2C"

definition firstDevice :: "cstring \<Rightarrow> cstring res" where
  "firstDevice text =
     (let n = length (takeWhile (\<lambda>b. b \<noteq> comma_char) text)
      in if comma_char \<notin> set text \<or> n < 2 \<or> 10 \<le> n then Inl OutOfBounds
         else Inr (take (n - 2) (drop 2 text)))"

definition iguanaConnect_internal :: "dialer \<Rightarrow> cstring option \<Rightarrow> u32 \<Rightarrow> nat option res" where
  "iguanaConnect_internal e name protocol =
     (if protocol \<noteq> 1 then Inr None
      else case name of
        Some n \<Rightarrow> connectName e n
      | None \<Rightarrow>
          case dial e (str ''0'') of
            Some conn \<Rightarrow> Inr (exchanged e conn)
          | None \<Rightarrow>
              bind_res (iguanaListDevices e) (\<lambda>text.
                case text of None \<Rightarrow> Inr None | Some t \<Rightarrow> bind_res (firstDevice t) (connectName e)))"

definition iguanaConnect_real :: "dialer \<Rightarrow> cstring option \<Rightarrow> u32 \<Rightarrow> nat option res" where
  "iguanaConnect_real e name protocol = iguanaConnect_internal e name protocol"

text \<open>The entry point of programs built against the first version of the library.\<close>

definition iguanaConnect :: "dialer \<Rightarrow> cstring option \<Rightarrow> nat option res" where
  "iguanaConnect e name = iguanaConnect_real e name 0"

section \<open>Pulse files\<close>

abbreviation (input) MAX_LINE :: nat where "MAX_LINE \<equiv> 1024"

definition blankChar :: "byte \<Rightarrow> bool" where
  "blankChar c \<longleftrightarrow> c \<in> {0x20, 0x09, 0x0D, 0x0A}"

text \<open>The text of a line: a C string without its comment and leading blanks.\<close>

definition lineText :: "byte list \<Rightarrow> cstring" where
  "lineText buffer = dropWhile blankChar (takeWhile (\<lambda>b. b \<noteq> 0x23) (takeWhile (\<lambda>b. b \<noteq> 0) buffer))"

definition scanNamed :: "string \<Rightarrow> cstring \<Rightarrow> int option" where
  "scanNamed name line =
     (case Option.bind (literal (str name) line) scanInt of
        Some (v, _) \<Rightarrow> Some v
      | None \<Rightarrow> map_option fst (Option.bind (literal (str name @ str '':'') line) scanInt))"

text \<open>The pulses so far and \<open>inSpace\<close>.\<close>

type_synonym pulseState = "u32 list \<times> bool"

definition addPulse :: "int \<Rightarrow> pulseState \<Rightarrow> pulseState" where
  "addPulse v s =
     (let (ps, inSpace) = s; w = word_of_int v :: u32
      in (ps @ [if inSpace then w OR IG_PULSE_BIT else w], \<not> inSpace))"

definition combine :: "int \<Rightarrow> pulseState \<Rightarrow> pulseState" where
  "combine v s = (case s of (ps, inSpace) \<Rightarrow> (ps[length ps - 1 := last ps + word_of_int v], inSpace))"

definition pulseLine :: "byte list \<Rightarrow> pulseState \<Rightarrow> pulseState" where
  "pulseLine buffer s =
     (let line = lineText buffer; (ps, inSpace) = s
      in if line = [] then s
         else case scanNamed ''pulse'' line of
           Some v \<Rightarrow> if \<not> inSpace then combine v s else addPulse v s
         | None \<Rightarrow>
             case scanNamed ''space'' line of
               Some v \<Rightarrow> if ps = [] then s else if inSpace then combine v s else addPulse v s
             | None \<Rightarrow> case scanInt line of None \<Rightarrow> s | Some (v, _) \<Rightarrow> addPulse v s)"

text \<open>The contents of the file, \<open>None\<close> when it cannot be opened; the result and the array of pulses.\<close>

definition iguanaReadPulseFile :: "byte list option \<Rightarrow> int \<times> u32 list" where
  "iguanaReadPulseFile contents =
     (case contents of None \<Rightarrow> (- 1, [])
      | Some bs \<Rightarrow>
          if fgetsLines MAX_LINE bs = [] then (- 1, [])
          else let (ps, inSpace) = fold pulseLine (fgetsLines MAX_LINE bs) ([], True)
               in (if inSpace then int (length ps) - 1 else int (length ps), ps))"

section \<open>Block files and pins\<close>

definition iguanaReadBlockFile :: "byte list option \<Rightarrow> bool \<times> byte list" where
  "iguanaReadBlockFile contents =
     (case contents of None \<Rightarrow> (False, replicate 69 0)
      | Some bs \<Rightarrow>
          let block = take 69 bs @ replicate (69 - length bs) 0
          in if length (take 69 bs) = 68 then (True, if block ! 0 = 0 then block[0 := 0x7F] else block)
             else (False, block))"

definition iguanaPinSpecToData :: "u32 \<Rightarrow> bool \<Rightarrow> byte list" where
  "iguanaPinSpecToData value slotDev =
     (if slotDev then [ucast (value AND 0xFF), 0]
      else [ucast (value AND 0x0F), ucast (drop_bit 4 (value AND 0xF0))])"

definition iguanaDataToPinSpec :: "byte list \<Rightarrow> bool \<Rightarrow> byte res" where
  "iguanaDataToPinSpec dat slotDev =
     bind_res (byte_at (Some dat) 0) (\<lambda>b0.
       if slotDev then Inr b0
       else bind_res (byte_at (Some dat) 1) (\<lambda>b1. Inr ((b0 AND 0x0F) OR push_bit 4 (b1 AND 0x0F))))"

section \<open>Properties\<close>

text \<open>
  A pin specification survives the trip to the two-port layout of the device and back, on every
  kind of device, for all eight pins.
\<close>

theorem pin_spec_roundtrip:
  "iguanaDataToPinSpec (iguanaPinSpecToData value slotDev) slotDev = Inr (ucast value)"
proof -
  have low: "n = 0 \<or> n = 1 \<or> n = 2 \<or> n = 3 \<or> n = 4 \<or> n = 5 \<or> n = 6 \<or> n = 7" if "n < 8" for n :: nat
    using that by arith
  have "(ucast (value AND 0x0F) AND 0x0F) OR push_bit 4 (ucast (drop_bit 4 (value AND 0xF0)) AND 0x0F) = (ucast value :: byte)"
    (is "?l = ?r")
  proof (rule bit_word_eqI)
    fix n assume "n < LENGTH(8)"
    then have "n < 8" by simp
    from low [OF this] show "bit ?l n \<longleftrightarrow> bit ?r n" by (elim disjE) (simp_all add: bit_simps)
  qed
  moreover have "ucast (value AND 0xFF) = (ucast value :: byte)" (is "?l = ?r")
  proof (rule bit_word_eqI)
    fix n assume "n < LENGTH(8)"
    then have "n < 8" by simp
    from low [OF this] show "bit ?l n \<longleftrightarrow> bit ?r n" by (elim disjE) (simp_all add: bit_simps)
  qed
  ultimately show ?thesis
    by (simp add: iguanaDataToPinSpec_def iguanaPinSpecToData_def byte_at_def)
qed

lemma pulseLine_parity:
  "(snd s \<longleftrightarrow> even (length (fst s))) \<Longrightarrow> snd (pulseLine b s) \<longleftrightarrow> even (length (fst (pulseLine b s)))"
  by (cases s) (auto simp: pulseLine_def Let_def addPulse_def combine_def split: option.splits)

lemma pulseLines_parity:
  "(snd s \<longleftrightarrow> even (length (fst s))) \<Longrightarrow> snd (fold pulseLine bs s) \<longleftrightarrow> even (length (fst (fold pulseLine bs s)))"
proof (induction bs arbitrary: s)
  case (Cons b bs)
  show ?case using Cons.IH [OF pulseLine_parity [OF Cons.prems]] by simp
qed simp

text \<open>
  Whatever a pulse file contains, the codes read from it begin and end with a pulse: the count is odd,
  or the call fails with -1 (which is also what a file of comments gives), and it never exceeds the
  entries that were stored.
\<close>

theorem pulse_file_count_is_odd:
  "odd (fst (iguanaReadPulseFile contents)) \<and> - 1 \<le> fst (iguanaReadPulseFile contents)
     \<and> fst (iguanaReadPulseFile contents) \<le> int (length (snd (iguanaReadPulseFile contents)))"
proof (cases contents)
  case (Some bs)
  obtain ps sp where f: "fold pulseLine (fgetsLines MAX_LINE bs) ([], True) = (ps, sp)"
    by (cases "fold pulseLine (fgetsLines MAX_LINE bs) ([], True)")
  then have "sp \<longleftrightarrow> even (length ps)"
    using pulseLines_parity [of "([], True)" "fgetsLines MAX_LINE bs"] by simp
  then show ?thesis using Some f by (auto simp: iguanaReadPulseFile_def)
qed (simp add: iguanaReadPulseFile_def)

end
