(* ===== verification/Client_Program.thy ===== *)
theory Client_Program
  imports Client_Library
begin

text \<open>
  \<open>client.c\<close>, the command line client: its table of commands, the queue of tasks, the packing of arguments
  into requests and the printing of responses.  Messages of level NORMAL are the program's output and
  are collected in \<open>out\<close>; others are not modelled.  The files it reads, the answers it gets and the sleep
  times it parses are arguments.
\<close>

section \<open>Commands\<close>

abbreviation (input) INTERNAL_SLEEP :: u16 where "INTERNAL_SLEEP \<equiv> 0x100"
abbreviation (input) INTERNAL_GETCONFIG :: u16 where "INTERNAL_GETCONFIG \<equiv> 0x110"
abbreviation (input) INTERNAL_SETCONFIG :: u16 where "INTERNAL_SETCONFIG \<equiv> 0x120"
abbreviation (input) FINAL_CHECK :: u16 where "FINAL_CHECK \<equiv> 0xFFFF"
abbreviation (input) ARGP_OFFSET :: u16 where "ARGP_OFFSET \<equiv> 0x200"

record commandSpec =
  cmd_text :: string
  internal :: bool
  spec_code :: u16
  spec_bit :: byte
  parsePins :: bool

definition plain :: "string \<Rightarrow> byte \<Rightarrow> commandSpec" where
  "plain t c = \<lparr>cmd_text = t, internal = False, spec_code = ucast c, spec_bit = 0, parsePins = False\<rparr>"

definition ofPins :: "string \<Rightarrow> byte \<Rightarrow> commandSpec" where
  "ofPins t c = (plain t c)\<lparr>parsePins := True\<rparr>"

definition getter :: "string \<Rightarrow> u16 \<Rightarrow> byte \<Rightarrow> commandSpec" where
  "getter t n b = \<lparr>cmd_text = t, internal = True, spec_code = INTERNAL_GETCONFIG + n, spec_bit = b, parsePins = False\<rparr>"

definition setter :: "string \<Rightarrow> u16 \<Rightarrow> byte \<Rightarrow> commandSpec" where
  "setter t n b = \<lparr>cmd_text = t, internal = True, spec_code = INTERNAL_SETCONFIG + n, spec_bit = b, parsePins = True\<rparr>"

definition supportedCommands :: "commandSpec list" where
  "supportedCommands =
    [\<lparr>cmd_text = ''final check'', internal = False, spec_code = FINAL_CHECK, spec_bit = 0, parsePins = False\<rparr>,
     plain ''all devices'' IG_CTL_LISTDEVS, plain ''device address'' IG_CTL_DEVADDR,
     plain ''get version'' IG_DEV_GETVERSION, plain ''write block'' IG_DEV_WRITEBLOCK,
     plain ''checksum block'' IG_DEV_WRITEBLOCK, plain ''reset'' IG_DEV_RESET,
     plain ''get features'' IG_DEV_GETFEATURES, plain ''get buffer size'' IG_DEV_GETBUFSIZE,
     plain ''receiver on'' IG_DEV_RECVON, plain ''raw receiver on'' IG_DEV_RAWRECVON,
     plain ''receiver off'' IG_DEV_RECVOFF, plain ''send'' IG_DEV_SEND, plain ''resend'' IG_DEV_RESEND,
     plain ''all aliases'' IG_DEV_LISTALIASES, plain ''get address'' IG_DEV_GETADDRESS,
     plain ''encoded size'' IG_DEV_SENDSIZE, plain ''get channels'' IG_DEV_GETCHANNELS,
     ofPins ''set channels'' IG_DEV_SETCHANNELS, plain ''get carrier'' IG_DEV_GETCARRIER,
     plain ''set carrier'' IG_DEV_SETCARRIER,
     plain ''get pin config'' IG_DEV_GETPINCONFIG, plain ''get config 0'' IG_DEV_GETCONFIG0,
     plain ''get config 1'' IG_DEV_GETCONFIG1, plain ''set pin config'' IG_DEV_SETPINCONFIG,
     plain ''set config 0'' IG_DEV_SETCONFIG0, plain ''set config 1'' IG_DEV_SETCONFIG1,
     plain ''get pins'' IG_DEV_GETPINS, ofPins ''set pins'' IG_DEV_SETPINS, plain ''pin burst'' IG_DEV_PINBURST,
     plain ''execute code'' IG_DEV_EXECUTE, plain ''get id'' IG_DEV_GETID, plain ''set id'' IG_DEV_SETID,
     plain ''get location'' IG_DEV_GETLOCATION, plain ''repeater on'' IG_DEV_REPEATER,
     getter ''get output pins'' 1 1, setter ''set output pins'' 1 1,
     getter ''get pullup pins'' 2 2, setter ''set pullup pins'' 2 2,
     getter ''get open drain pins'' 3 4, setter ''set open drain pins'' 3 4,
     getter ''get high sink pins'' 4 8, setter ''set high sink pins'' 4 8,
     getter ''get threshold pins'' 5 16, setter ''set threshold pins'' 5 16,
     \<lparr>cmd_text = ''sleep'', internal = True, spec_code = INTERNAL_SLEEP, spec_bit = 0, parsePins = False\<rparr>]"

record igtask =
  command :: string
  arg :: "cstring option"
  spec :: "commandSpec option"
  isSubTask :: bool

section \<open>Numbers\<close>

text \<open>The digits after the \<open>b\<close> of a binary number.\<close>

fun binLoop :: "cstring \<Rightarrow> u32 \<Rightarrow> u32 option" where
  "binLoop [] v = Some v"
| "binLoop (c # cs) v = (if c \<noteq> 0x30 \<and> c \<noteq> 0x31 then None else binLoop cs (push_bit 1 v + ucast c - 0x30))"

definition whole :: "(u32 \<times> cstring) option \<Rightarrow> u32 option" where
  "whole r = (case r of Some (v, []) \<Rightarrow> Some v | _ \<Rightarrow> None)"

definition parseNumber :: "cstring option \<Rightarrow> u32 option res" where
  "parseNumber t =
     (case t of None \<Rightarrow> Inl NullDeref
      | Some s \<Rightarrow>
          Inr (case whole (Option.bind (literal (str ''0x'') s) scanHex) of
                 Some v \<Rightarrow> Some v
               | None \<Rightarrow>
                   case whole (scanUnsigned s) of
                     Some v \<Rightarrow> Some v
                   | None \<Rightarrow> if s \<noteq> [] \<and> hd s = 0x62 then binLoop (tl s) 0 else None))"

section \<open>Finding the command of a task\<close>

text \<open>\<open>strncmp\<close> over the length of the given command: an abbreviation matches.\<close>

fun scanSpecs :: "commandSpec list \<Rightarrow> string \<Rightarrow> commandSpec option \<Rightarrow> commandSpec option" where
  "scanSpecs [] t found = found"
| "scanSpecs (s # ss) t found =
     (if take (length t) (cmd_text s) = t
      then (if found \<noteq> None then None else scanSpecs ss t (Some s))
      else scanSpecs ss t found)"

definition findTaskSpec :: "igtask \<Rightarrow> bool \<times> igtask" where
  "findTaskSpec task =
     (let s = scanSpecs supportedCommands (command task) None in (s \<noteq> None, task\<lparr>spec := s\<rparr>))"

definition checkTask :: "igtask \<Rightarrow> (bool \<times> igtask) res" where
  "checkTask task =
     (let (ok, task) = findTaskSpec task
      in case (if ok then spec task else None) of
           None \<Rightarrow> Inr (True, task)
         | Some s \<Rightarrow>
             let task = task\<lparr>command := cmd_text s\<rparr>
             in if parsePins s then bind_res (parseNumber (arg task)) (\<lambda>v. Inr (v \<noteq> None, task))
                else Inr (True, task))"

section \<open>Pin settings\<close>

definition getSetting :: "byte \<Rightarrow> byte list \<Rightarrow> byte" where
  "getSetting setting pins = fold (\<lambda>x v. v + push_bit x ((pins ! x) AND setting)) [0..<IG_PIN_COUNT] 0"

definition setSetting :: "byte \<Rightarrow> cstring option \<Rightarrow> byte list \<Rightarrow> byte list res" where
  "setSetting setting pinText pins =
     bind_res (parseNumber pinText) (\<lambda>v. Inr (case v of
       None \<Rightarrow> pins
     | Some value \<Rightarrow>
         map (\<lambda>x. if bit value x then (pins ! x) OR setting else (pins ! x) AND NOT setting) [0..<IG_PIN_COUNT]))"

section \<open>The queue\<close>

text \<open>A task for the first command with the given code; \<open>message(LOG_FATAL)\<close> ends the program.\<close>

definition enqueueTask :: "string \<Rightarrow> cstring option \<Rightarrow> igtask list \<Rightarrow> igtask list" where
  "enqueueTask t a ts = ts @ [\<lparr>command = t, arg = a, spec = None, isSubTask = False\<rparr>]"

definition enqueueCode :: "u16 \<Rightarrow> cstring option \<Rightarrow> igtask list \<Rightarrow> igtask list res" where
  "enqueueCode c a ts =
     (case find (\<lambda>s. spec_code s = c) supportedCommands of
        None \<Rightarrow> Inl AssertFailed
      | Some s \<Rightarrow> Inr (enqueueTask (cmd_text s) a ts))"

definition markSubTask :: "igtask list \<Rightarrow> igtask list" where
  "markSubTask ts = butlast ts @ [(last ts)\<lparr>isSubTask := True\<rparr>]"

definition enqueueTaskById :: "u16 \<Rightarrow> cstring option \<Rightarrow> igtask list \<Rightarrow> igtask list res" where
  "enqueueTaskById c a ts =
     bind_res
       (if (c = ucast IG_DEV_SETCHANNELS \<or> c = ucast IG_DEV_GETPINS \<or> c = ucast IG_DEV_SETPINS)
           \<and> (\<forall>t \<in> set ts. command t \<noteq> cmd_text (supportedCommands ! unat IG_DEV_GETFEATURES))
        then bind_res (enqueueCode (ucast IG_DEV_GETFEATURES) None ts) (\<lambda>ts. Inr (markSubTask ts))
        else Inr ts)
       (enqueueCode c a)"

end
