(* ===== verification/Client_Tasks.thy ===== *)
theory Client_Tasks
  imports Client_Program
begin

text \<open>
  \<open>client.c\<close>, continued: performing the queued tasks.  A response that is read from the connection comes
  with the errno of a failed read and with the answer of the clock to the question whether the time is up.
\<close>

section \<open>Output\<close>

record prog =
  pinState :: "byte list"
  recvOnFlag :: bool
  deviceFeatures :: byte
  out :: cstring
  strerror :: "int \<Rightarrow> cstring"

definition say :: "cstring \<Rightarrow> prog \<Rightarrow> prog" where
  "say t st = st\<lparr>out := out st @ t\<rparr>"

definition hexDigit :: "nat \<Rightarrow> byte" where
  "hexDigit d = (if d < 10 then 0x30 + word_of_nat d else 0x57 + word_of_nat d)"

fun hexText :: "nat \<Rightarrow> cstring" where
  "hexText n = (if n < 16 then [hexDigit n] else hexText (n div 16) @ [hexDigit (n mod 16)])"

declare hexText.simps [simp del]

text \<open>\<open>%w.wx\<close>\<close>

definition hexPad :: "nat \<Rightarrow> nat \<Rightarrow> cstring" where
  "hexPad w n = replicate (w - length (hexText n)) 0x30 @ hexText n"

text \<open>\<open>%d\<close>\<close>

definition intText :: "int \<Rightarrow> cstring" where
  "intText i = (if i < 0 then str ''-'' @ dec (nat (- i)) else dec (nat i))"

text \<open>A received signal: one line for each entry.\<close>

definition signalLine :: "u32 \<Rightarrow> cstring" where
  "signalLine value =
     0x0A # (if value AND IG_PULSE_BIT \<noteq> 0 then str ''  pulse: '' @ intText (s32 (uint (value AND IG_PULSE_MASK)))
             else str ''  space: '' @ intText (s32 (uint value)))"

definition signalText :: "u32 list \<Rightarrow> cstring" where
  "signalText ps =
     str ''received '' @ dec (length ps) @ str '' signal(s):'' @ concat (map signalLine ps)"

section \<open>Responses\<close>

definition dataByte :: "byte list option \<Rightarrow> nat \<Rightarrow> (byte \<Rightarrow> 'a) \<Rightarrow> 'a res" where
  "dataByte dat i f = bind_res (byte_at dat i) (\<lambda>b. Inr (f b))"

text \<open>\<open>%c\<close> arguments of type \<open>char\<close> are promoted with their sign.\<close>

definition charHex :: "nat \<Rightarrow> byte \<Rightarrow> cstring" where
  "charHex w b = hexPad w (nat (sint b mod 2 ^ 32))"

definition stringArg :: "byte list option \<Rightarrow> cstring res" where
  "stringArg dat = (case dat of None \<Rightarrow> Inl NullDeref | Some bs \<Rightarrow> cstr bs)"

definition networkWord :: "byte list option \<Rightarrow> int res" where
  "networkWord dat = bind_res (read_bytes dat 4) (\<lambda>bs. Inr (s32 (int (be_nat bs))))"

definition describe :: "byte \<Rightarrow> bool \<Rightarrow> byte list option \<Rightarrow> prog \<Rightarrow> prog res" where
  "describe c sub dat st =
     (if c = IG_CTL_LISTDEVS \<or> c = IG_CTL_DEVADDR \<or> c = IG_DEV_LISTALIASES then
        (if dat = None then Inr (say (str '': no devices'') st)
         else bind_res (stringArg dat) (\<lambda>s. Inr (say (str '': '' @ s) st)))
      else if c = IG_DEV_GETADDRESS then bind_res (stringArg dat) (\<lambda>s. Inr (say (str '': '' @ s) st))
      else if c = IG_DEV_GETVERSION then
        bind_res (byte_at dat 1) (\<lambda>hi. dataByte dat 0 (\<lambda>lo. say (str '': version=0x'' @ hexPad 4 (256 * unat hi + unat lo)) st))
      else if c = IG_DEV_GETFEATURES then
        dataByte dat 0 (\<lambda>b. let st = st\<lparr>deviceFeatures := b\<rparr> in if sub then st else say (str '': features=0x'' @ charHex 0 b) st)
      else if c = IG_DEV_GETBUFSIZE then dataByte dat 0 (\<lambda>b. say (str '': size='' @ dec (unat b)) st)
      else if c = IG_DEV_GETCHANNELS then dataByte dat 0 (\<lambda>b. say (str '': channels=0x'' @ charHex 2 b) st)
      else if c = IG_DEV_GETCARRIER \<or> c = IG_DEV_SETCARRIER then
        bind_res (networkWord dat) (\<lambda>v. Inr (say (str '': carrier='' @ intText v @ str ''Hz'') st))
      else if c = IG_DEV_GETLOCATION then
        bind_res (byte_at dat 0) (\<lambda>a. dataByte dat 1 (\<lambda>b. say (str '': location='' @ dec (unat a) @ str '':'' @ dec (unat b)) st))
      else if c = IG_DEV_GETPINS then
        bind_res (case dat of None \<Rightarrow> Inl NullDeref | Some bs \<Rightarrow> iguanaDataToPinSpec bs (deviceFeatures st AND IG_SLOT_DEV \<noteq> 0))
          (\<lambda>v. Inr (say (str '': 0x'' @ hexPad 2 (unat v)) st))
      else if c = IG_DEV_GETPINCONFIG then bind_res (read_bytes dat 8) (\<lambda>bs. Inr (st\<lparr>pinState := bs\<rparr>))
      else if c = IG_DEV_GETCONFIG0 then
        bind_res (read_bytes dat 4) (\<lambda>bs. Inr (st\<lparr>pinState := bs @ drop 4 (pinState st)\<rparr>))
      else if c = IG_DEV_GETCONFIG1 then
        bind_res (read_bytes dat 4) (\<lambda>bs. Inr (st\<lparr>pinState := take 4 (pinState st) @ bs\<rparr>))
      else if c = IG_DEV_GETID then
        (case dat of None \<Rightarrow> Inl NullDeref
         | Some bs \<Rightarrow> if 0 \<in> set (take 12 bs) \<or> 12 \<le> length bs
                      then Inr (say (str '': id='' @ takeWhile (\<lambda>b. b \<noteq> 0) (take 12 bs)) st) else Inl OutOfBounds)
      else if c = IG_DEV_SENDSIZE then
        bind_res (read_bytes dat 2) (\<lambda>bs. Inr (say (str '': size='' @ dec (le_nat bs)) st))
      else Inr st)"

definition processResponse :: "byte \<Rightarrow> igtask \<Rightarrow> u32 \<Rightarrow> byte list option \<Rightarrow> prog \<Rightarrow> (bool \<times> prog) res" where
  "processResponse c cmd len dat st =
     bind_res
       (if c = IG_DEV_RECV then
          bind_res (read_bytes dat (4 * (uint len div 4))) (\<lambda>bs. Inr (False, say (signalText (words32 bs)) st))
        else
          bind_res (if isSubTask cmd then Inr st
                    else case spec cmd of None \<Rightarrow> Inl NullDeref | Some s \<Rightarrow> Inr (say (str (cmd_text s) @ str '': success'') st))
            (\<lambda>st. bind_res (describe c (isSubTask cmd) dat st) (\<lambda>st. Inr (True, st))))
       (\<lambda>(ok, st). Inr (ok, if isSubTask cmd then st else say [0x0A] st))"

text \<open>
  A response is read, or the read fails or times out; \<open>packetIsError\<close> overwrites the errno of a failed read.
  \<open>timeUp\<close> is the clock's answer after the response was handled.
\<close>

record answerEvent =
  answered :: "dataPacket option"
  timeUp :: bool

definition complain :: "int \<Rightarrow> igtask \<Rightarrow> prog \<Rightarrow> prog res" where
  "complain err cmd st =
     (if err \<noteq> ETIMEDOUT \<and> err \<noteq> EIO
      then (case spec cmd of None \<Rightarrow> Inl NullDeref
            | Some s \<Rightarrow> Inr (say (str (cmd_text s) @ str '': failed: '' @ intText err @ str '': '' @ strerror st err @ [0x0A]) st))
      else case spec cmd of None \<Rightarrow> Inl NullDeref
           | Some s \<Rightarrow>
               if spec_code s \<noteq> INTERNAL_SLEEP \<and> spec_code s \<noteq> FINAL_CHECK
               then Inr (say (str (cmd_text s) @ str '': failed: '' @ intText err @ str '': '' @ strerror st err @ [0x0A]) st)
               else Inr st)"

text \<open>
  The loop over the responses; the result has the events that are left.  \<open>None\<close> stands for a loop that
  still waits.  The callers pass no negative timeout, so the loop is entered.
\<close>

fun receiveResponse :: "answerEvent list \<Rightarrow> igtask \<Rightarrow> prog \<Rightarrow> (bool \<times> prog \<times> answerEvent list) option res" where
  "receiveResponse [] cmd st = Inr None"
| "receiveResponse (ev # evs) cmd st =
     (let (isError, err) = packetIsError (answered ev)
      in if isError then bind_res (complain err cmd st) (\<lambda>st. Inr (Some (False, st, evs)))
         else let (dat, len, _) = iguanaRemoveData (answered ev)
              in bind_res (iguanaCode (answered ev)) (\<lambda>c.
                 bind_res (processResponse c cmd (case len of None \<Rightarrow> 0 | Some n \<Rightarrow> n) dat st) (\<lambda>(ok, st).
                   if ok \<or> timeUp ev then Inr (Some (ok, st, evs))
                   else receiveResponse evs cmd st)))"

section \<open>Tasks\<close>

text \<open>
  What tasks take from outside: the contents of files, the duration \<open>%f\<close> reads from an argument in
  milliseconds (\<open>None\<close> when the argument is not a number) and what \<open>%.3f\<close> prints for it, and whether a
  request can be written.
\<close>

record taskEnv =
  files :: "cstring \<Rightarrow> byte list option"
  millis :: "cstring \<Rightarrow> int option"
  seconds :: "cstring \<Rightarrow> cstring"
  writes :: bool

type_synonym taskResult = "(bool \<times> prog \<times> answerEvent list) option res"

definition theArg :: "igtask \<Rightarrow> (cstring \<Rightarrow> 'a res) \<Rightarrow> 'a res" where
  "theArg cmd f = (case arg cmd of None \<Rightarrow> Inl NullDeref | Some a \<Rightarrow> f a)"

definition handleInternalTask :: "taskEnv \<Rightarrow> answerEvent list \<Rightarrow> igtask \<Rightarrow> commandSpec \<Rightarrow> prog \<Rightarrow> taskResult" where
  "handleInternalTask e evs cmd s st =
     (if spec_code s = INTERNAL_SLEEP then
        theArg cmd (\<lambda>a. case millis e a of
          None \<Rightarrow> Inr (Some (False, st, evs))
        | Some ms \<Rightarrow>
            if ms < 0 then Inr (Some (False, st, evs))
            else bind_res (receiveResponse evs cmd st) (\<lambda>r. Inr (map_option (\<lambda>(ok, st, evs).
              (ok, if ok then say (str (command cmd) @ str '' ('' @ seconds e a @ str ''): success'' @ [0x0A]) st else st, evs)) r)))
      else if spec_code s AND INTERNAL_GETCONFIG = INTERNAL_GETCONFIG then
        Inr (Some (True, say (str (command cmd) @ str '': success: 0x'' @ hexPad 2 (unat (getSetting (spec_bit s) (pinState st))) @ [0x0A]) st, evs))
      else if spec_code s AND INTERNAL_SETCONFIG = INTERNAL_SETCONFIG then
        bind_res (setSetting (spec_bit s) (arg cmd) (pinState st)) (\<lambda>pins.
          Inr (Some (True, say (str (command cmd) @ str '': success'' @ [0x0A]) (st\<lparr>pinState := pins\<rparr>), evs)))
      else Inl AssertFailed)"

section \<open>Arguments\<close>

definition packChannels :: "byte \<Rightarrow> u32 \<Rightarrow> int \<times> byte list option" where
  "packChannels feats value =
     (let mask = (if feats AND IG_SLOT_DEV \<noteq> 0 then 0x3F else 0x0F) :: u32
      in if value \<noteq> mask AND value then (- 1, None) else (1, Some [ucast value]))"

definition packCarrier :: "u32 \<Rightarrow> int \<times> byte list option" where
  "packCarrier value =
     (if value < 25000 \<or> 150000 < value then (- 1, None) else (4, Some (be_bytes 4 (unat value))))"

definition packPins :: "byte \<Rightarrow> u32 \<Rightarrow> int \<times> byte list option" where
  "packPins feats value =
     (if 0xFF < value then (- 1, None) else (2, Some (iguanaPinSpecToData value (feats AND IG_SLOT_DEV \<noteq> 0))))"

definition lcdByte :: "byte \<Rightarrow> byte list" where
  "lcdByte c = [(c AND 0xF0) OR 0x0D, (c AND 0xF0) OR 0x0C, push_bit 4 (c AND 0x0F) OR 0x0D, push_bit 4 (c AND 0x0F) OR 0x0C]"

text \<open>The text for an LCD: the block is filled from the second byte on; the rest of it is what malloc returned.\<close>

definition packBurst :: "(nat \<Rightarrow> byte) \<Rightarrow> cstring \<Rightarrow> int \<times> byte list option" where
  "packBurst junk s =
     (let cs = take 15 s; body = word_of_nat (4 * length cs) # concat (map lcdByte cs)
      in (64, Some (body @ map junk [length body..<64])))"

definition numberArg :: "igtask \<Rightarrow> (u32 \<Rightarrow> int \<times> byte list option) \<Rightarrow> (int \<times> byte list option) res" where
  "numberArg cmd pack = bind_res (parseNumber (arg cmd)) (\<lambda>v. Inr (case v of None \<Rightarrow> (- 1, None) | Some n \<Rightarrow> pack n))"

definition packArgs :: "taskEnv \<Rightarrow> (nat \<Rightarrow> byte) \<Rightarrow> igtask \<Rightarrow> commandSpec \<Rightarrow> prog \<Rightarrow> (int \<times> byte list option) res" where
  "packArgs e junk cmd s st =
     (let c = spec_code s
      in if c = ucast IG_CTL_DEVADDR \<or> c = ucast IG_DEV_SETID then
           theArg cmd (\<lambda>a. Inr (int (length a) + 1, Some (a @ [0])))
         else if c = ucast IG_DEV_SETCHANNELS then numberArg cmd (packChannels (deviceFeatures st))
         else if c = ucast IG_DEV_SETCARRIER then numberArg cmd packCarrier
         else if c = ucast IG_DEV_SETPINCONFIG then Inr (8, Some (pinState st))
         else if c = ucast IG_DEV_SETCONFIG0 then Inr (4, Some (take 4 (pinState st)))
         else if c = ucast IG_DEV_SETCONFIG1 then Inr (4, Some (drop 4 (pinState st)))
         else if c = ucast IG_DEV_SETPINS then numberArg cmd (packPins (deviceFeatures st))
         else if c = ucast IG_DEV_SEND \<or> c = ucast IG_DEV_SENDSIZE then
           theArg cmd (\<lambda>a. let (n, ps) = iguanaReadPulseFile (files e a) in Inr (s32 (n * 4), Some (pulseBytes ps)))
         else if c = ucast IG_DEV_WRITEBLOCK then
           theArg cmd (\<lambda>a. let (ok, block) = iguanaReadBlockFile (files e a) in Inr (if ok then 68 else 0, Some block))
         else if c = ucast IG_DEV_PINBURST then theArg cmd (\<lambda>a. Inr (packBurst junk a))
         else Inr (0, None))"

definition transaction :: "taskEnv \<Rightarrow> answerEvent list \<Rightarrow> igtask \<Rightarrow> prog \<Rightarrow> taskResult" where
  "transaction e evs cmd st = (if writes e then receiveResponse evs cmd st else Inr (Some (False, st, evs)))"

definition requestFor :: "commandSpec \<Rightarrow> int \<Rightarrow> byte list option \<Rightarrow> dataPacket" where
  "requestFor s amt dat = iguanaCreateRequest (ucast (spec_code s)) (word_of_int amt) dat"

text \<open>The second component is the request that was sent, if one was.\<close>

definition performTask ::
  "taskEnv \<Rightarrow> (nat \<Rightarrow> byte) \<Rightarrow> answerEvent list \<Rightarrow> igtask \<Rightarrow> prog \<Rightarrow> ((bool \<times> prog \<times> answerEvent list) option \<times> dataPacket option) res" where
  "performTask e junk evs cmd st =
     (case spec cmd of None \<Rightarrow> Inl NullDeref
      | Some s \<Rightarrow>
          if internal s then bind_res (handleInternalTask e evs cmd s st) (\<lambda>r. Inr (r, None))
          else let st = (if spec_code s = ucast IG_DEV_RECVON then st\<lparr>recvOnFlag := True\<rparr>
                         else if spec_code s = ucast IG_DEV_RECVOFF then st\<lparr>recvOnFlag := False\<rparr> else st)
               in bind_res (packArgs e junk cmd s st) (\<lambda>(n, dat).
                    if n < 0 then Inr (Some (False, st, evs), None)
                    else bind_res (transaction e evs cmd st) (\<lambda>r. Inr (r, Some (requestFor s n dat)))))"

text \<open>
  The queue: \<open>connects\<close> says whether connecting for a task works.  The result has the number of failures,
  or \<open>None\<close> when a task still waits for its answer.
\<close>

fun performQueuedTasks ::
  "(igtask \<Rightarrow> bool) \<Rightarrow> taskEnv \<Rightarrow> (nat \<Rightarrow> byte) \<Rightarrow> igtask list \<Rightarrow> answerEvent list \<Rightarrow> nat \<Rightarrow> prog \<Rightarrow> (nat \<times> prog) option res" where
  "performQueuedTasks connects e junk [] evs failed st = Inr (Some (failed, st))"
| "performQueuedTasks connects e junk (cmd # ts) evs failed st =
     bind_res (checkTask cmd) (\<lambda>(ok, cmd).
       if \<not> ok
       then performQueuedTasks connects e junk ts evs failed
              (say (str (command cmd) @ str '': failed: Could not parse argument'' @ [0x0A]) st)
       else if spec cmd = None then Inl NullDeref
       else if \<not> connects cmd then performQueuedTasks connects e junk ts evs (failed + 1) st
       else bind_res (performTask e junk evs cmd st) (\<lambda>(r, _).
              case r of None \<Rightarrow> Inr None
              | Some (ok, st, evs) \<Rightarrow> performQueuedTasks connects e junk ts evs (if ok then failed else failed + 1) st))"

section \<open>Command line\<close>

text \<open>The options that queue tasks, by the keys of the option table; \<open>None\<close> is \<open>ARGP_ERR_UNKNOWN\<close>.\<close>

definition directKeys :: "u16 list" where
  "directKeys = map ucast [IG_DEV_GETVERSION, IG_DEV_GETFEATURES, IG_DEV_SEND, IG_DEV_RECVON, IG_DEV_RECVOFF, IG_DEV_GETPINS,
     IG_DEV_SETPINS, IG_DEV_GETBUFSIZE, IG_DEV_WRITEBLOCK, IG_DEV_RESET, IG_DEV_GETCHANNELS, IG_DEV_SETCHANNELS,
     IG_DEV_GETCARRIER, IG_DEV_SETCARRIER, IG_DEV_PINBURST, IG_DEV_EXECUTE, IG_DEV_GETPINCONFIG, IG_DEV_SETPINCONFIG]
     @ [INTERNAL_GETCONFIG + 1, INTERNAL_SETCONFIG + 1, INTERNAL_GETCONFIG + 2, INTERNAL_SETCONFIG + 2,
        INTERNAL_GETCONFIG + 3, INTERNAL_SETCONFIG + 3, INTERNAL_GETCONFIG + 4, INTERNAL_SETCONFIG + 4,
        INTERNAL_GETCONFIG + 5, INTERNAL_SETCONFIG + 5, INTERNAL_SLEEP]"

definition offsetKeys :: "byte list" where
  "offsetKeys = [IG_DEV_RESEND, IG_DEV_GETID, IG_DEV_SETID, IG_DEV_GETLOCATION, IG_DEV_REPEATER, IG_DEV_SENDSIZE,
     IG_DEV_LISTALIASES, IG_DEV_GETADDRESS, IG_CTL_LISTDEVS, IG_CTL_DEVADDR]"

definition parseClientOption ::
  "u16 \<Rightarrow> cstring option \<Rightarrow> igtask list \<Rightarrow> cstring option \<Rightarrow> (igtask list \<times> cstring option) option res" where
  "parseClientOption key a ts device =
     (if key \<in> set directKeys then bind_res (enqueueTaskById key a ts) (\<lambda>ts. Inr (Some (ts, device)))
      else if key \<in> set (map (\<lambda>c. ARGP_OFFSET + ucast c) offsetKeys) then
        bind_res (if key = ARGP_OFFSET + ucast IG_DEV_RESEND then enqueueTaskById INTERNAL_SLEEP a ts else Inr ts) (\<lambda>ts.
        bind_res (enqueueTaskById (key - ARGP_OFFSET) a ts) (\<lambda>ts. Inr (Some (ts, device))))
      else if key = 0x64 then
        (case a of None \<Rightarrow> Inl NullDeref | Some t \<Rightarrow> Inr (Some (ts, if t = [] then None else Some t)))
      else Inr None)"

end
