(* ===== verification/Client_Text.thy ===== *)
theory Client_Text
  imports Client_Tasks
begin

text \<open>
  What the command line client reads and writes: a received signal that was printed is read back from a
  file, numbers, the table of commands, and the settings of the pins.
\<close>

section \<open>Lines of a file\<close>

lemma fgetsLine_text:
  assumes "0x0A \<notin> set l" "length l < 1023"
  shows "fgetsLine 1024 (l @ 0x0A # rest) = l @ [0x0A]"
proof -
  have "takeWhile (\<lambda>b. b \<noteq> 0x0A) (l @ 0x0A # rest) = l" "dropWhile (\<lambda>b. b \<noteq> 0x0A) (l @ 0x0A # rest) = 0x0A # rest"
    using assms(1) by (induction l) auto
  then show ?thesis using assms(2) by (simp add: fgetsLine_def)
qed

lemma fgetsLines_text:
  assumes "0x0A \<notin> set l" "length l < 1023"
  shows "fgetsLines 1024 (l @ 0x0A # rest) = (l @ [0x0A]) # fgetsLines 1024 rest"
  using fgetsLine_text [OF assms, of rest] by (subst fgetsLines.simps) simp

lemma fgetsLines_all:
  "list_all (\<lambda>l. 0x0A \<notin> set l \<and> length l < 1023) ls \<Longrightarrow>
     fgetsLines 1024 (concat (map (\<lambda>l. l @ [0x0A]) ls)) = map (\<lambda>l. l @ [0x0A]) ls"
proof (induction ls)
  case (Cons l ls)
  then show ?case using fgetsLines_text [of l "concat (map (\<lambda>l. l @ [0x0A]) ls)"] by simp
qed (simp add: fgetsLines.simps)

section \<open>A printed signal\<close>

text \<open>The entries of a signal: pulses at the even places, each entry with a duration below $2^{24}$.\<close>

definition entry :: "bool \<Rightarrow> nat \<Rightarrow> u32" where
  "entry pulse n = (if pulse then word_of_nat n OR IG_PULSE_BIT else word_of_nat n)"

text \<open>The entries for durations, the first of them a pulse or a space.\<close>

fun entries :: "bool \<Rightarrow> nat list \<Rightarrow> u32 list" where
  "entries pulse [] = []"
| "entries pulse (n # ns) = entry pulse n # entries (\<not> pulse) ns"

definition entryText :: "bool \<Rightarrow> nat \<Rightarrow> cstring" where
  "entryText pulse n = str (if pulse then ''  pulse: '' else ''  space: '') @ dec n"

lemma unat_entry: "n < 2 ^ 24 \<Longrightarrow> unat (entry pulse n) = n + (if pulse then 2 ^ 24 else 0)"
proof -
  assume n: "n < 2 ^ 24"
  then have u: "unat (word_of_nat n :: u32) = n" by (simp add: unat_of_nat)
  have "unat (word_of_nat n OR IG_PULSE_BIT :: u32) = n OR 2 ^ 24"
    using u by (simp add: unsigned_or_eq)
  then show ?thesis using u or_pow2_nat [OF n] by (simp add: entry_def)
qed

lemma signalLine_entry:
  assumes "n < 2 ^ 24"
  shows "signalLine (entry pulse n) = 0x0A # entryText pulse n"
proof -
  note u = unat_entry [OF assms, of pulse]
  have "bit (entry pulse n) 24 \<longleftrightarrow> bit (unat (entry pulse n)) 24"
    by (simp add: bit_unsigned_iff)
  also have "\<dots> \<longleftrightarrow> pulse" unfolding u using assms by (auto simp: bit_iff_odd div_add_self2)
  finally have b: "entry pulse n AND 2 ^ 24 \<noteq> 0 \<longleftrightarrow> pulse" by (simp only: and_exp_eq_0_iff_not_bit not_not)
  have "entry pulse n AND IG_PULSE_MASK = take_bit 24 (entry pulse n)" by (simp add: take_bit_eq_mask mask_numeral)
  moreover have "unat (take_bit 24 (entry pulse n)) = unat (entry pulse n) mod 2 ^ 24"
    by (simp only: unsigned_take_bit_eq) (simp only: take_bit_eq_mod)
  ultimately have "unat (entry pulse n AND IG_PULSE_MASK) = n" using u assms by simp
  then have "uint (entry pulse n AND IG_PULSE_MASK) = int n" by (simp only: uint_nat)
  moreover have "uint (entry False n) = int n" using unat_entry [OF assms, of False] by (simp only: uint_nat if_False add_0_right)
  moreover have "in_s32 (int n)" using assms by (simp add: in_s32_def)
  ultimately show ?thesis using b by (cases pulse) (simp_all add: signalLine_def entryText_def intText_def)
qed

lemma dec_clean: "c \<in> set (dec n) \<Longrightarrow> c \<noteq> 0 \<and> c \<noteq> 0x23 \<and> c \<noteq> 0x0A"
  using dec_digits digit_class by blast

lemma takeWhile_id: "(\<And>x. x \<in> set xs \<Longrightarrow> P x) \<Longrightarrow> takeWhile P xs = xs"
  by (simp add: takeWhile_eq_all_conv)

lemma lineText_entry:
  "lineText (entryText pulse n @ [0x0A]) = str (if pulse then ''pulse: '' else ''space: '') @ dec n @ [0x0A]"
proof -
  have "takeWhile (\<lambda>b. b \<noteq> 0) (entryText pulse n @ [0x0A]) = entryText pulse n @ [0x0A]"
    by (rule takeWhile_id, cases pulse) (auto simp: entryText_def str_def dest: dec_clean)
  moreover have "takeWhile (\<lambda>b. b \<noteq> 0x23) (entryText pulse n @ [0x0A]) = entryText pulse n @ [0x0A]"
    by (rule takeWhile_id, cases pulse) (auto simp: entryText_def str_def dest: dec_clean)
  ultimately show ?thesis by (simp add: lineText_def entryText_def str_def blankChar_def)
qed

lemma scan_value: "n < 2 ^ 31 \<Longrightarrow> scanInt (0x20 # dec n @ [0x0A]) = Some (int n, [0x0A])"
  using scanInt_dec [of n "[0x0A]"] by (simp add: scanInt_def skipSpace_def isSpace_def isDigit_def)

lemma scan_colon: "scanInt (0x3A # s) = None"
  by (simp add: scanInt_def skipSpace_def isSpace_def isDigit_def)

lemma pulseLine_entry:
  assumes "n < 2 ^ 24" "pulse \<or> ps \<noteq> []"
  shows "pulseLine (entryText pulse n @ [0x0A]) (ps, pulse) = (ps @ [entry pulse n], \<not> pulse)"
proof -
  have v: "scanInt (0x20 # dec n @ [0x0A]) = Some (int n, [0x0A])" using scan_value assms(1) by simp
  show ?thesis
    using assms(2) v by (cases pulse)
      (simp_all add: pulseLine_def lineText_entry scanNamed_def str_def scan_colon addPulse_def entry_def)
qed

fun entryTexts :: "bool \<Rightarrow> nat list \<Rightarrow> cstring list" where
  "entryTexts pulse [] = []"
| "entryTexts pulse (n # ns) = entryText pulse n # entryTexts (\<not> pulse) ns"

lemma fold_entries:
  "list_all (\<lambda>n. n < 2 ^ 24) ns \<Longrightarrow> pulse \<or> ps \<noteq> [] \<Longrightarrow>
     fold pulseLine (map (\<lambda>l. l @ [0x0A]) (entryTexts pulse ns)) (ps, pulse) = (ps @ entries pulse ns, even (length ns) = pulse)"
proof (induction ns arbitrary: ps pulse)
  case (Cons n ns)
  then show ?case
    using Cons.IH [of "\<not> pulse" "ps @ [entry pulse n]"] pulseLine_entry [of n pulse ps] by auto
qed simp

lemma signalLines:
  "list_all (\<lambda>n. n < 2 ^ 24) ns \<Longrightarrow> map signalLine (entries pulse ns) = map (\<lambda>l. 0x0A # l) (entryTexts pulse ns)"
  by (induction ns arbitrary: pulse) (simp_all add: signalLine_entry)

lemma join_lines: "h @ concat (map (\<lambda>l. c # l) ls) @ [c] = concat (map (\<lambda>l. l @ [c]) (h # ls))"
  by (induction ls arbitrary: h) simp_all

lemma length_entries [simp]: "length (entries pulse ns) = length ns"
  by (induction ns arbitrary: pulse) simp_all

lemma entryTexts_short:
  "list_all (\<lambda>n. n < 2 ^ 24) ns \<Longrightarrow> list_all (\<lambda>l. 0x0A \<notin> set l \<and> length l < 1023) (entryTexts pulse ns)"
proof (induction ns arbitrary: pulse)
  case (Cons n ns)
  then have "length (dec n) \<le> 8" using dec_length [of n 7] by simp
  moreover have "0x0A \<notin> set (dec n)" using dec_clean by blast
  ultimately show ?case using Cons by (simp add: entryText_def str_def)
qed simp

definition headLine :: "nat \<Rightarrow> cstring" where
  "headLine n = str ''received '' @ dec n @ str '' signal(s):''"

lemma pulseLine_head: "pulseLine (headLine n @ [0x0A]) s = s"
proof -
  obtain t where "lineText (headLine n @ [0x0A]) = 0x72 # t"
    by (simp add: lineText_def headLine_def str_def blankChar_def)
  then show ?thesis
    by (cases s) (simp add: pulseLine_def scanNamed_def str_def scanInt_def skipSpace_def isSpace_def isDigit_def)
qed

lemma read_back:
  assumes "list_all (\<lambda>n. n < 2 ^ 24) ns" "length ns < 10 ^ 8"
  shows "iguanaReadPulseFile (Some (signalText (entries True ns) @ [0x0A]))
    = (if even (length ns) then int (length ns) - 1 else int (length ns), entries True ns)"
proof -
  have "signalText (entries True ns) @ [0x0A] = headLine (length ns) @ concat (map (\<lambda>l. 0x0A # l) (entryTexts True ns)) @ [0x0A]"
    using signalLines [OF assms(1), of True] by (simp add: signalText_def headLine_def)
  also have "\<dots> = concat (map (\<lambda>l. l @ [0x0A]) (headLine (length ns) # entryTexts True ns))" by (rule join_lines)
  finally have t: "signalText (entries True ns) @ [0x0A] = concat (map (\<lambda>l. l @ [0x0A]) (headLine (length ns) # entryTexts True ns))" .
  have "0x0A \<notin> set (headLine (length ns))" "length (headLine (length ns)) < 1023"
    using dec_clean dec_length [of "length ns" 7] assms(2) by (auto simp: headLine_def str_def)
  then have "fgetsLines 1024 (signalText (entries True ns) @ [0x0A]) = map (\<lambda>l. l @ [0x0A]) (headLine (length ns) # entryTexts True ns)"
    unfolding t using entryTexts_short [OF assms(1)] by (intro fgetsLines_all) simp
  then show ?thesis
    using fold_entries [OF assms(1), of True "[]"] by (simp add: iguanaReadPulseFile_def pulseLine_head)
qed

text \<open>
  C24.  What the client prints for a received signal can be saved to a file and sent: reading the text
  gives the entries of the signal again, without a last space, for signals that start with a pulse.
\<close>

theorem received_text_reads_back:
  assumes "list_all (\<lambda>n. n < 2 ^ 24) ns" "length ns < 10 ^ 8"
  shows "iguanaReadPulseFile (Some (signalText (entries True ns) @ [0x0A]))
    = (if even (length ns) then int (length ns) - 1 else int (length ns), entries True ns)"
  using assms by (rule read_back)

theorem received_text_reads_back_witness:
  "iguanaReadPulseFile (Some (signalText (entries True [9000, 4500, 560]) @ [0x0A])) = (3, [0x1002328, 4500, 0x1000230])"
  using received_text_reads_back [of "[9000, 4500, 560]"] by (simp add: entry_def)

section \<open>Numbers and commands\<close>

lemma parse_decimal:
  assumes "n < 2 ^ 32"
  shows "parseNumber (Some (dec n)) = Inr (Some (word_of_nat n))"
proof -
  obtain c cs where c: "dec n = c # cs" by (cases "dec n") simp_all
  have all: "list_all isDigit (dec n)" using dec_digits by (simp add: list_all_iff)
  have "literal (str ''0x'') (dec n) = None"
    using all c by (cases cs) (auto simp: str_def isDigit_def)
  moreover have "whole (scanUnsigned (dec n)) = Some (word_of_nat n)"
  proof -
    have "isDigit c" using all c by simp
    then have s: "skipSpace (dec n) = dec n" "signOf (dec n) = (False, dec n)"
      using c digit_class [of c] by (simp_all add: skipSpace_def)
    have t: "takeWhile isDigit (dec n) = dec n" "dropWhile isDigit (dec n) = []"
      using dec_digits by (auto simp: takeWhile_eq_all_conv dropWhile_eq_Nil_conv)
    show ?thesis using assms by (simp add: scanUnsigned_def whole_def decVal_dec toULong_def s t)
  qed
  ultimately show ?thesis by (simp add: parseNumber_def whole_def)
qed

text \<open>
  The table of commands has no ambiguous entry: looking up the full text of a command gives that
  command, so every task the options can queue finds its specification.
\<close>

theorem command_texts_are_unambiguous:
  "list_all (\<lambda>s. scanSpecs supportedCommands (cmd_text s) None = Some s) supportedCommands"
  by code_simp

text \<open>
  The check that saves a second request for the features of the device looks at the wrong entry of
  the table: it takes the code of the command for its index and finds ``encoded size''.  With a request
  for the size of a signal in the queue the features are not asked for at all, and the channels are
  then checked as for a device of unknown kind; with a request for the features in the queue they are
  asked for again.
\<close>

theorem features_are_looked_up_under_encoded_size:
  "cmd_text (supportedCommands ! unat IG_DEV_GETFEATURES) = ''encoded size''
   \<and> map_sum id (map command) (bind_res (enqueueTaskById (ucast IG_DEV_SENDSIZE) a []) (enqueueTaskById (ucast IG_DEV_SETCHANNELS) b))
       = Inr [''encoded size'', ''set channels'']
   \<and> map_sum id (map command) (bind_res (enqueueTaskById (ucast IG_DEV_GETFEATURES) a []) (enqueueTaskById (ucast IG_DEV_SETCHANNELS) b))
       = Inr [''get features'', ''get features'', ''set channels'']"
proof -
  have f: "supportedCommands ! unat IG_DEV_GETFEATURES = plain ''encoded size'' IG_DEV_SENDSIZE" by code_simp
  have q: "find (\<lambda>s. spec_code s = ucast IG_DEV_SENDSIZE) supportedCommands = Some (plain ''encoded size'' IG_DEV_SENDSIZE)"
    "find (\<lambda>s. spec_code s = ucast IG_DEV_SETCHANNELS) supportedCommands = Some (ofPins ''set channels'' IG_DEV_SETCHANNELS)"
    "find (\<lambda>s. spec_code s = ucast IG_DEV_GETFEATURES) supportedCommands = Some (plain ''get features'' IG_DEV_GETFEATURES)"
    by code_simp+
  show ?thesis
    using f q by (simp add: enqueueTaskById_def enqueueCode_def enqueueTask_def markSubTask_def plain_def ofPins_def)
qed

section \<open>Settings of the pins\<close>

lemma byte_of_bits:
  "(b :: byte) = of_bool (bit b 0) + 2 * (of_bool (bit b 1) + 2 * (of_bool (bit b 2) + 2 * (of_bool (bit b 3)
     + 2 * (of_bool (bit b 4) + 2 * (of_bool (bit b 5) + 2 * (of_bool (bit b 6) + 2 * of_bool (bit b 7)))))))"
proof -
  have "b = horner_sum of_bool 2 (map (bit b) [0..<8])"
    by (simp only: horner_sum_bit_eq_take_bit) (simp add: take_bit_word_eq_self)
  moreover have "[0..<8] = [0, 1, 2, 3, 4, 5, 6, 7 :: nat]" by (simp add: upt_rec)
  ultimately show ?thesis by (simp only: list.map horner_sum_simps mult_zero_right add_0_right)
qed

lemma horner_times:
  "(s :: byte) * x0 + s * x1 * 2 + s * x2 * 4 + s * x3 * 8 + s * x4 * 16 + s * x5 * 32 + s * x6 * 64 + s * x7 * 128
     = s * (x0 + 2 * (x1 + 2 * (x2 + 2 * (x3 + 2 * (x4 + 2 * (x5 + 2 * (x6 + 2 * x7)))))))"
  by (simp add: algebra_simps)

lemma getSetting_bits:
  assumes "\<And>x. x < 8 \<Longrightarrow> (pins ! x) AND setting = (if bit b x then setting else 0)"
  shows "getSetting setting pins = setting * (b :: byte)"
proof -
  define g where "g = (\<lambda>x. of_bool (bit b x) :: byte)"
  have "(pins ! x) AND setting = setting * g x" if "x < 8" for x using assms [OF that] by (simp add: g_def)
  then have "getSetting setting pins = setting * g 0 + setting * g 1 * 2 + setting * g 2 * 4 + setting * g 3 * 8
     + setting * g 4 * 16 + setting * g 5 * 32 + setting * g 6 * 64 + setting * g 7 * 128"
    by (simp add: getSetting_def upt_rec push_bit_eq_mult) (simp add: numeral_eq_Suc)
  moreover have "b = g 0 + 2 * (g 1 + 2 * (g 2 + 2 * (g 3 + 2 * (g 4 + 2 * (g 5 + 2 * (g 6 + 2 * g 7))))))"
    unfolding g_def by (rule byte_of_bits)
  ultimately show ?thesis by (simp only: horner_times)
qed

lemma bit_small:
  assumes "v < 256"
  shows "bit (word_of_nat v :: u32) x \<longleftrightarrow> bit v x" "bit (word_of_nat v :: byte) x \<longleftrightarrow> bit v x"
  using bit_unsigned_iff [of "word_of_nat v :: u32" x, where ?'a = nat]
    bit_unsigned_iff [of "word_of_nat v :: byte" x, where ?'a = nat] assms by (simp_all add: unat_of_nat)

text \<open>
  The settings of the pins are stored in one bit of each pin's byte, but reading one back does not
  shift that bit down: only for the output setting, which is bit 0, the value read is the value set.
  For the pull-up setting it is doubled, for open drain it is four times the value, and so on, with
  the upper pins lost.
\<close>

theorem pin_settings_are_read_back_shifted:
  assumes "length pins = 8" "v < 256" "k < 5"
  shows "\<exists>pins'. setSetting (2 ^ k) (Some (dec v)) pins = Inr pins' \<and> getSetting (2 ^ k) pins' = 2 ^ k * word_of_nat v"
proof -
  let ?pins = "map (\<lambda>x. if bit (word_of_nat v :: u32) x then (pins ! x) OR 2 ^ k else (pins ! x) AND NOT (2 ^ k)) [0..<8]"
  have "setSetting (2 ^ k) (Some (dec v)) pins = Inr ?pins"
    using parse_decimal [of v] assms(2) by (simp add: setSetting_def)
  moreover have "getSetting (2 ^ k) ?pins = 2 ^ k * word_of_nat v"
  proof (rule getSetting_bits)
    fix x :: nat assume x: "x < 8"
    have "(p OR s) AND s = s" "(p AND NOT s) AND s = 0" for p s :: byte
      by (rule bit_word_eqI; auto simp: bit_simps)+
    moreover have "bit (word_of_nat v :: u32) x \<longleftrightarrow> bit (word_of_nat v :: byte) x" using bit_small [OF assms(2)] by simp
    ultimately show "(?pins ! x) AND 2 ^ k = (if bit (word_of_nat v :: byte) x then 2 ^ k else 0)"
      using x by simp
  qed
  ultimately show ?thesis by blast
qed

theorem pin_settings_are_read_back_shifted_witness:
  "\<exists>pins'. setSetting 2 (Some (dec 0x81)) (replicate 8 0) = Inr pins' \<and> getSetting 2 pins' = 2"
proof -
  have "2 ^ 1 * word_of_nat 0x81 = (2 :: byte)" by simp
  then show ?thesis using pin_settings_are_read_back_shifted [of "replicate 8 0" "0x81" 1] by auto
qed

end
