(* ===== verification/Send_Format.thy ===== *)
theory Send_Format
  imports Soft_Double Codes
begin

text \<open>
  \<open>sendFormat.c\<close>: the encoding of pulse and space durations into device bytes, and what the device
  firmware does with them: it reads the announced number into its buffer (\<open>pc.asm\<close>, \<open>body.asm\<close>) and plays
  them (\<open>ir.asm\<close>), which gives the bytes their meaning.  A duration is converted to
  carrier cycles in double arithmetic (\<open>pulseCycles\<close>); a run of cycles becomes bytes of at most 127
  cycles with the high bit set for a space.  The firmware side maps bytes to a waveform, one boolean
  per carrier cycle, so that the encoder's correctness is an equality of waveforms.  Byte counts are
  natural numbers: they are exact as long as the total stays below the range of the C \<open>int\<close>.
\<close>

section \<open>The encoder\<close>

text \<open>\<open>cycles = (uint32_t)((sendCode[x] & IG_PULSE_MASK) / 1000000.0 * carrier + 0.5)\<close>\<close>

definition pulseCycles :: "nat \<Rightarrow> u32 \<Rightarrow> u32" where
  "pulseCycles carrier v =
     word_of_nat (dtrunc
       (dadd (dmul (ddiv (dnat (unat (v AND IG_PULSE_MASK))) (dnat 1000000)) (dnat carrier)) dhalf))"

text \<open>The number of bytes for a run and the value of its last byte.\<close>

definition splitCycles :: "u32 \<Rightarrow> u32 \<times> u32" where
  "splitCycles cycles =
     (let numBytes = cycles div MAX_DATA_BYTE + 1; cycles = cycles mod MAX_DATA_BYTE
      in if cycles = 0 then (MAX_DATA_BYTE, numBytes - 1) else (cycles, numBytes))"

text \<open>The bytes of one run: \<open>memset\<close> of full bytes, then the last byte.\<close>

definition runBytes :: "bool \<Rightarrow> u32 \<Rightarrow> u32 \<Rightarrow> byte list" where
  "runBytes inSpace cycles numBytes =
     replicate (unat numBytes - 1) (LENGTH_MASK OR (if inSpace then STATE_MASK else 0))
       @ [ucast (if inSpace then cycles OR 0x80 else cycles)]"

text \<open>
  The loop over the codes: \<open>n\<close> is \<open>codeLength\<close>, \<open>out\<close> the buffer \<open>*results\<close>, which stays \<open>NULL\<close> when the
  caller passed no \<open>results\<close> or when no byte is produced.
\<close>

fun sendLoop :: "nat \<Rightarrow> compressVersion \<Rightarrow> bool \<Rightarrow> u32 list \<Rightarrow> nat \<Rightarrow> bool \<Rightarrow> u32 \<Rightarrow> byte list option
    \<Rightarrow> nat \<times> byte list option" where
  "sendLoop carrier compress want [] n inSpace lastCycles out = (n, out)"
| "sendLoop carrier compress want (v # vs) n inSpace lastCycles out =
     (let (cycles, numBytes) = splitCycles (pulseCycles carrier v);
          (numBytes, lastCycles) =
            (if compress = COMPRESS_VER1 \<and> \<not> inSpace
             then (if cycles \<noteq> MAX_DATA_BYTE \<and> cycles = lastCycles \<and> vs \<noteq> [] then 0 else numBytes, cycles)
             else (numBytes, lastCycles))
      in if numBytes = 0 then sendLoop carrier compress want vs n (\<not> inSpace) lastCycles out
         else sendLoop carrier compress want vs (n + unat numBytes) (\<not> inSpace) lastCycles
                (if want
                 then Some ((case out of None \<Rightarrow> [] | Some bs \<Rightarrow> bs) @ runBytes inSpace cycles numBytes)
                 else out))"

definition pulsesToIguanaSend :: "nat \<Rightarrow> u32 list \<Rightarrow> bool \<Rightarrow> compressVersion \<Rightarrow> nat \<times> byte list option" where
  "pulsesToIguanaSend carrier sendCode want compress = sendLoop carrier compress want sendCode 0 False 0 None"

section \<open>The firmware's transmit loop\<close>

text \<open>
  \<open>send_loop\<close> transmits the low seven bits of a byte in carrier cycles, with the carrier on unless the
  high bit is set (one transmitter at least being selected).  \<open>tx_loop\<close> reads the bytes of the transmit
  buffer and counts them down in \<open>tmp1\<close>, one byte wide; between two space bytes it repeats the last pulse
  byte, unless the byte before is a full one.  \<open>transmit_code\<close> takes the count from the control packet; a
  count of zero jumps to the decrement, so that 255 bytes are played.  \<open>ram\<close> is what the reads find from
  the start of the buffer on, and has at least as many bytes as are read.
\<close>

definition sends :: "byte \<Rightarrow> bool list" where
  "sends b = replicate (unat (b AND 0x7F)) (b AND 0x80 = 0)"

fun tx_loop :: "byte \<Rightarrow> byte list \<Rightarrow> byte \<Rightarrow> byte \<Rightarrow> bool \<Rightarrow> bool list" where
  "tx_loop tmp1 [] tmp3 last_pulse tx_state = []"
| "tx_loop tmp1 (b # ram) tmp3 last_pulse tx_state =
     (let comp = b AND 0x80 \<noteq> 0 \<and> (tmp3 AND 0x7F) XOR 0x7F \<noteq> 0 \<and> \<not> tx_state;
          played = (if comp then sends last_pulse else []) @ sends b;
          tmp1 = tmp1 - 1
      in if tmp1 = 0 then played
         else played @ tx_loop tmp1 ram b (if b AND 0x80 = 0 then b else last_pulse) (b AND 0x80 = 0))"

definition transmit_code :: "byte \<Rightarrow> byte list \<Rightarrow> byte \<Rightarrow> byte \<Rightarrow> bool list" where
  "transmit_code cnt ram tmp3 last_pulse =
     (if cnt = 0
      then let tmp1 = cnt - 1 in if tmp1 = 0 then [] else tx_loop tmp1 ram tmp3 last_pulse False
      else tx_loop cnt ram tmp3 last_pulse False)"

text \<open>
  A transmission as the device runs it (\<open>send_body\<close>): \<open>read_buffer\<close> copies the announced number of bytes
  from the packets on the endpoint into the buffer of 150 bytes, then the buffer is played and the
  request is confirmed; when the buffer is full before all bytes are there, what is in it is played and
  the overflow is reported.  The firmware keeps \<open>tmp3\<close>, the last pulse and the memory from the buffer on;
  \<open>None\<close> is a firmware that waits for a packet.  A packet has at least one byte.  (That a halt of the
  bus resets the waiting firmware is left out.)
\<close>

definition BUFFER_SIZE :: nat where "BUFFER_SIZE = 150"

record firmware =
  fwTmp3 :: byte
  fwPulse :: byte
  fwBuffer :: "byte list"

datatype rbEnd = RbDone | RbOverflow | RbFrag

fun rb_loop :: "byte \<Rightarrow> byte list \<Rightarrow> byte list \<Rightarrow> rbEnd \<times> byte \<times> byte list" where
  "rb_loop tmp1 filled [] = (RbFrag, tmp1, filled)"
| "rb_loop tmp1 filled (b # packet) =
     (if length filled = BUFFER_SIZE then (RbOverflow, tmp1, filled)
      else if tmp1 - 1 = 0 then (RbDone, tmp1 - 1, filled @ [b])
      else rb_loop (tmp1 - 1) (filled @ [b]) packet)"

fun rb_frag :: "byte \<Rightarrow> byte list \<Rightarrow> byte list list \<Rightarrow> (bool \<times> byte list) option" where
  "rb_frag tmp1 filled [] = None"
| "rb_frag tmp1 filled (packet # packets) =
     (case rb_loop tmp1 filled packet of
        (RbDone, _, filled) \<Rightarrow> Some (True, filled)
      | (RbOverflow, _, filled) \<Rightarrow> Some (False, filled)
      | (RbFrag, tmp1, filled) \<Rightarrow> rb_frag tmp1 filled packets)"

text \<open>The result of \<open>read_buffer\<close>, the count left in the control packet and the memory.\<close>

definition read_buffer :: "byte \<Rightarrow> byte list \<Rightarrow> byte list list \<Rightarrow> (bool \<times> byte \<times> byte list) option" where
  "read_buffer cnt ram packets =
     (if cnt = 0 then Some (True, cnt, ram)
      else map_option (\<lambda>(ok, filled). (ok, if ok then cnt else word_of_nat BUFFER_SIZE, filled @ drop (length filled) ram))
             (rb_frag cnt [] packets))"

text \<open>Whether the device confirms the transmission, and what it plays.\<close>

definition send_body :: "byte \<Rightarrow> firmware \<Rightarrow> byte list list \<Rightarrow> (bool \<times> bool list) option" where
  "send_body cnt fw packets =
     map_option (\<lambda>(ok, cnt, ram). (ok, transmit_code cnt ram (fwTmp3 fw) (fwPulse fw)))
       (read_buffer cnt (fwBuffer fw) packets)"

text \<open>
  For reference: the format of the bytes as \<open>docs/hwProtocol\<close> has it, which is what bodies before
  version 8 play (their source is not in the repository), and the bytes of the current format without
  the counting.
\<close>

definition transmit_plain :: "byte list \<Rightarrow> bool list" where
  "transmit_plain bs = concat (map sends bs)"

fun transmit_bytes :: "byte list \<Rightarrow> byte \<Rightarrow> byte \<Rightarrow> bool \<Rightarrow> bool list" where
  "transmit_bytes [] tmp3 last_pulse tx_state = []"
| "transmit_bytes (b # bs) tmp3 last_pulse tx_state =
     (if b AND 0x80 = 0 then sends b @ transmit_bytes bs b b True
      else (if (tmp3 AND 0x7F) XOR 0x7F = 0 \<or> tx_state then [] else sends last_pulse)
             @ sends b @ transmit_bytes bs b last_pulse False)"

lemma unat_byte: "n < 256 \<Longrightarrow> unat (word_of_nat n :: byte) = n"
  by (simp add: unat_of_nat)

lemma tx_loop_bytes:
  "n \<noteq> 0 \<Longrightarrow> unat n \<le> length ram \<Longrightarrow> tx_loop n ram t3 lp on = transmit_bytes (take (unat n) ram) t3 lp on"
proof (induction ram arbitrary: n t3 lp on)
  case (Cons b ram)
  then obtain k where k: "unat n = Suc k" by (cases "unat n") (simp_all add: unat_eq_zero)
  have m: "unat (n - 1) = k" using k by (simp add: unat_minus_one Cons.prems(1))
  show ?case
  proof (cases "n - 1 = 0")
    case True
    then have "k = 0" using m by simp
    then show ?thesis using True k by (simp add: Let_def)
  next
    case False
    then have "tx_loop (n - 1) ram t lp' on' = transmit_bytes (take k ram) t lp' on'" for t lp' on'
      using Cons.IH [of "n - 1"] Cons.prems(2) k m by simp
    then show ?thesis using False k by (simp add: Let_def)
  qed
qed (simp add: unat_eq_zero)

text \<open>A byte count between 1 and 255 plays just the bytes counted.\<close>

lemma transmit_code_counted:
  assumes "bs \<noteq> []" "length bs \<le> 255"
  shows "transmit_code (word_of_nat (length bs)) (bs @ rest) t3 lp = transmit_bytes bs t3 lp False"
proof -
  have u: "unat (word_of_nat (length bs) :: byte) = length bs" using assms(2) by (intro unat_byte) simp
  then have n: "(word_of_nat (length bs) :: byte) \<noteq> 0" using assms(1) by (metis length_0_conv unat_0)
  show ?thesis using tx_loop_bytes [OF n, of "bs @ rest"] n u by (simp add: transmit_code_def)
qed

lemma minus_one_byte:
  fixes n :: byte
  assumes "n \<noteq> 0"
  shows "unat (n - 1) = unat n - 1" "n - 1 = 0 \<longleftrightarrow> unat n = 1"
proof -
  show m: "unat (n - 1) = unat n - 1" using assms by (rule unat_minus_one)
  show "n - 1 = 0 \<longleftrightarrow> unat n = 1" using assms m by (metis One_nat_def diff_self eq_iff_diff_eq_0 unat_1 word_unat_eq_iff)
qed

lemma rb_loop_counted:
  "length filled + min (length bs) (unat n) \<le> BUFFER_SIZE \<Longrightarrow> n \<noteq> 0 \<Longrightarrow> bs \<noteq> [] \<Longrightarrow> rb_loop n filled bs =
     (if unat n \<le> length bs then (RbDone, 0, filled @ take (unat n) bs)
      else (RbFrag, n - word_of_nat (length bs), filled @ bs))"
proof (induction bs arbitrary: n filled)
  case (Cons b bs)
  note n = minus_one_byte [OF Cons.prems(2)]
  obtain k where k: "unat n = Suc k" using Cons.prems(2) by (cases "unat n") (simp_all add: unat_eq_zero)
  have f: "length filled < BUFFER_SIZE" using Cons.prems(1) k by simp
  show ?case
  proof (cases "bs = [] \<or> unat n = 1")
    case True
    then show ?thesis using f k n by auto
  next
    case False
    moreover have "n - 1 - word_of_nat (length bs) = n - word_of_nat (length (b # bs))" by simp
    moreover have "rb_loop (n - 1) (filled @ [b]) bs =
        (if unat (n - 1) \<le> length bs then (RbDone, 0, (filled @ [b]) @ take (unat (n - 1)) bs)
         else (RbFrag, n - 1 - word_of_nat (length bs), (filled @ [b]) @ bs))"
      using Cons.prems(1) n k False by (intro Cons.IH) auto
    ultimately show ?thesis using f n k by auto
  qed
qed simp

lemma rb_loop_overflow:
  "length filled \<le> BUFFER_SIZE \<Longrightarrow> BUFFER_SIZE < length filled + length bs \<Longrightarrow> BUFFER_SIZE < length filled + unat n \<Longrightarrow>
     \<exists>m. rb_loop n filled bs = (RbOverflow, m, filled @ take (BUFFER_SIZE - length filled) bs)"
proof (induction bs arbitrary: n filled)
  case (Cons b bs)
  show ?case
  proof (cases "length filled = BUFFER_SIZE")
    case False
    then have f: "length filled < BUFFER_SIZE" using Cons.prems(1) by simp
    then have n: "n \<noteq> 0" "unat n \<noteq> 1" using Cons.prems(3) by auto
    note m = minus_one_byte [OF n(1)]
    obtain k where k: "BUFFER_SIZE - length filled = Suc k" using f by (cases "BUFFER_SIZE - length filled") simp_all
    have "\<exists>m. rb_loop (n - 1) (filled @ [b]) bs = (RbOverflow, m, (filled @ [b]) @ take (BUFFER_SIZE - length (filled @ [b])) bs)"
      using Cons.prems f m n by (intro Cons.IH) auto
    moreover have "BUFFER_SIZE - length (filled @ [b]) = k" using k by simp
    ultimately show ?thesis using f m n k by auto
  qed auto
qed simp

lemma packet_taken:
  fixes n :: byte
  assumes "length p < unat n"
  shows "unat (n - word_of_nat (length p)) = unat n - length p" "n - word_of_nat (length p) \<noteq> 0"
proof -
  have "unat n < 256" using unsigned_less [of n] by simp
  then have w: "unat (word_of_nat (length p) :: byte) = length p" using assms by (intro unat_byte) linarith
  then have "(word_of_nat (length p) :: byte) \<le> n" using assms by (simp add: word_le_nat_alt)
  then show u: "unat (n - word_of_nat (length p)) = unat n - length p" using w by (simp add: unat_sub)
  show "n - word_of_nat (length p) \<noteq> 0" using u assms by auto
qed

lemma rb_frag_counted:
  assumes "length filled + unat n \<le> BUFFER_SIZE" "n \<noteq> 0" "unat n \<le> length (concat ps)" "[] \<notin> set ps"
  shows "rb_frag n filled ps = Some (True, filled @ take (unat n) (concat ps))"
  using assms
proof (induction ps arbitrary: n filled)
  case (Cons p ps)
  have r: "rb_loop n filled p = (if unat n \<le> length p then (RbDone, 0, filled @ take (unat n) p)
      else (RbFrag, n - word_of_nat (length p), filled @ p))"
    using Cons.prems by (intro rb_loop_counted) auto
  show ?case
  proof (cases "unat n \<le> length p")
    case False
    then have l: "length p < unat n" by simp
    have "rb_frag (n - word_of_nat (length p)) (filled @ p) ps
        = Some (True, (filled @ p) @ take (unat (n - word_of_nat (length p))) (concat ps))"
      using Cons.prems packet_taken [OF l] l by (intro Cons.IH) auto
    then show ?thesis using r l packet_taken(1) [OF l] by simp
  qed (use r in simp)
qed (simp add: unat_eq_zero)

lemma rb_frag_overflow:
  assumes "length filled \<le> BUFFER_SIZE" "BUFFER_SIZE < length filled + unat n" "unat n \<le> length (concat ps)" "[] \<notin> set ps"
  shows "rb_frag n filled ps = Some (False, filled @ take (BUFFER_SIZE - length filled) (concat ps))"
  using assms
proof (induction ps arbitrary: n filled)
  case (Cons p ps)
  show ?case
  proof (cases "BUFFER_SIZE < length filled + length p")
    case True
    then show ?thesis using rb_loop_overflow [OF Cons.prems(1) True Cons.prems(2)] by auto
  next
    case False
    then have l: "length p < unat n" using Cons.prems(2) by linarith
    have n: "n \<noteq> 0" using l by auto
    have "rb_loop n filled p = (RbFrag, n - word_of_nat (length p), filled @ p)"
      using rb_loop_counted [of filled p n] Cons.prems(4) False l n by auto
    moreover have "rb_frag (n - word_of_nat (length p)) (filled @ p) ps
        = Some (False, (filled @ p) @ take (BUFFER_SIZE - length (filled @ p)) (concat ps))"
      using Cons.prems packet_taken [OF l] l False by (intro Cons.IH) auto
    ultimately show ?thesis using False by simp
  qed
qed simp

text \<open>A code that fits the buffer is read completely, played and confirmed.\<close>

lemma send_body_counted:
  assumes "n \<noteq> 0" "unat n \<le> BUFFER_SIZE" "unat n \<le> length (concat ps)" "[] \<notin> set ps"
  shows "send_body n fw ps = Some (True, transmit_bytes (take (unat n) (concat ps)) (fwTmp3 fw) (fwPulse fw) False)"
proof -
  let ?bs = "take (unat n) (concat ps)"
  have l: "length ?bs = unat n" "length ?bs \<le> 255" using assms(2,3) by (simp_all add: BUFFER_SIZE_def)
  then have "?bs \<noteq> []" using assms(1) by (metis length_0_conv unat_eq_zero)
  then show ?thesis
    using rb_frag_counted [of "[]" n ps] assms transmit_code_counted [OF _ l(2)] l(1)
    by (simp add: send_body_def read_buffer_def)
qed

lemma send_body_fits:
  assumes "concat ps = bs" "[] \<notin> set ps" "bs \<noteq> []" "length bs \<le> BUFFER_SIZE"
  shows "send_body (word_of_nat (length bs)) fw ps = Some (True, transmit_bytes bs (fwTmp3 fw) (fwPulse fw) False)"
proof -
  have u: "unat (word_of_nat (length bs) :: byte) = length bs"
    using assms(4) by (intro unat_byte) (simp add: BUFFER_SIZE_def)
  then have "(word_of_nat (length bs) :: byte) \<noteq> 0" using assms(3) by (metis length_0_conv unat_0)
  then show ?thesis using send_body_counted [of "word_of_nat (length bs)" ps fw] assms u by simp
qed

section \<open>What the codes mean\<close>

text \<open>The waveform a list of durations stands for: alternately carrier on and off.\<close>

fun waveform :: "nat \<Rightarrow> bool \<Rightarrow> u32 list \<Rightarrow> bool list" where
  "waveform carrier inSpace [] = []"
| "waveform carrier inSpace (v # vs) =
     replicate (unat (pulseCycles carrier v)) (\<not> inSpace) @ waveform carrier (\<not> inSpace) vs"

section \<open>Conversion to carrier cycles\<close>

lemma cycles_error:
  fixes x c :: nat
  assumes "x < 2 ^ 24" "c \<le> 150000"
  defines "d \<equiv> dadd (dmul (ddiv (dnat x) (dnat 1000000)) (dnat c)) dhalf"
  shows "\<bar>dval d - real (x * c + 500000) / real (1000000::nat)\<bar> < 1 / real (1000000::nat)" and "0 < snd d"
proof -
  let ?u = "1 / 2 ^ 53 :: real"
  define q where "q = ddiv (dnat x) (dnat 1000000)"
  define m where "m = dmul q (dnat c)"
  have q0: "0 < snd q" by (simp add: q_def)
  have m0: "0 < snd m" using q0 by (simp add: m_def)
  show "0 < snd d" using m0 by (simp add: d_def m_def [symmetric] q_def [symmetric])
  have x: "real x / 1000000 \<le> 17" "real c \<le> 150000" using assms by simp_all
  have e1: "\<bar>dval q - real x / 1000000\<bar> \<le> 17 * ?u"
    using dop_error(3) [of "dnat x" "dnat 1000000"] x by (simp add: q_def)
  have u: "17 * ?u \<le> 1" "18 * 150000 * ?u \<le> 1" by simp_all
  have q18: "dval q \<le> 18" using e1 x(1) u(1) by linarith
  have mq: "dval q * real c \<le> 18 * 150000"
    using q18 x by (intro mult_mono) auto
  have e2: "\<bar>dval m - dval q * real c\<bar> \<le> 18 * 150000 * ?u"
    using dop_error(2) [of q "dnat c"] q0 mq by (simp add: m_def)
  have e3: "\<bar>dval q * real c - real x / 1000000 * real c\<bar> \<le> 17 * 150000 * ?u"
  proof -
    have "\<bar>dval q * real c - real x / 1000000 * real c\<bar> = \<bar>dval q - real x / 1000000\<bar> * real c"
      unfolding left_diff_distrib [symmetric] abs_mult by simp
    also have "\<dots> \<le> 17 * ?u * 150000"
      using e1 x by (intro mult_mono) auto
    finally show ?thesis by simp
  qed
  have m2: "dval m \<le> 18 * 150000 + 1" using e2 mq u(2) by linarith
  have e4: "\<bar>dval d - (dval m + 1 / 2)\<bar> \<le> (18 * 150000 + 2) * ?u"
    using dop_error(1) [of m dhalf] m0 m2 by (simp add: d_def m_def q_def)
  have N: "real (x * c + 500000) / real (1000000::nat) = real x / 1000000 * real c + 1 / 2"
    by (simp add: field_simps)
  have tri: "\<bar>dval d - (X + 1 / 2)\<bar> \<le> \<bar>dval d - (dval m + 1 / 2)\<bar> + \<bar>dval m - Y\<bar> + \<bar>Y - X\<bar>"
    for X Y :: real by linarith
  have "\<bar>dval d - real (x * c + 500000) / real (1000000::nat)\<bar>
      \<le> (18 * 150000 + 2) * ?u + 18 * 150000 * ?u + 17 * 150000 * ?u"
    unfolding N using tri [of "real x / 1000000 * real c" "dval q * real c"] e2 e3 e4 by linarith
  also have "\<dots> < 1 / real (1000000::nat)" by simp
  finally show "\<bar>dval d - real (x * c + 500000) / real (1000000::nat)\<bar> < 1 / real (1000000::nat)" .
qed

lemma unat_mask24: "unat (v AND IG_PULSE_MASK) < 2 ^ 24"
proof -
  have "v AND IG_PULSE_MASK \<le> IG_PULSE_MASK" by (rule word_and_le1)
  then have "unat (v AND IG_PULSE_MASK) \<le> unat IG_PULSE_MASK" by (simp only: word_le_nat_alt)
  then show ?thesis by simp
qed

lemma pulseCycles_nat:
  fixes v :: u32
  assumes "carrier \<le> 150000"
  defines "p \<equiv> unat (v AND IG_PULSE_MASK) * carrier"
  shows "p mod 1000000 \<noteq> 500000 \<Longrightarrow> unat (pulseCycles carrier v) = (p + 500000) div 1000000"
    and "p mod 1000000 = 500000 \<Longrightarrow>
      unat (pulseCycles carrier v) = (p + 500000) div 1000000 \<or>
      unat (pulseCycles carrier v) = (p + 500000) div 1000000 - 1"
proof -
  let ?d = "dadd (dmul (ddiv (dnat (unat (v AND IG_PULSE_MASK))) (dnat 1000000)) (dnat carrier)) dhalf"
  note e = cycles_error [OF unat_mask24 [of v] assms(1)]
  have big: "(p + 500000) div 1000000 < 2 ^ 32"
  proof -
    have "p \<le> 2 ^ 24 * 150000"
      unfolding p_def using unat_mask24 [of v] assms(1) by (intro mult_mono) auto
    then have "(p + 500000) div 1000000 \<le> (2 ^ 24 * 150000 + 500000) div 1000000"
      by (intro div_le_mono) simp
    then show ?thesis by simp
  qed
  have conv: "unat (pulseCycles carrier v) = dtrunc ?d" if "dtrunc ?d < 2 ^ 32"
    unfolding pulseCycles_def using that by (rule unat_of_nat32)
  have mod0: "(p + 500000) mod 1000000 = 0 \<longleftrightarrow> p mod 1000000 = 500000"
  proof -
    have r: "p mod 1000000 < 1000000" by simp
    have "(p + 500000) mod 1000000 = (p mod 1000000 + 500000) mod 1000000"
      by (simp only: mod_add_left_eq)
    then show ?thesis using r
      by (cases "p mod 1000000 < 500000") (simp_all add: le_mod_geq)
  qed
  show "unat (pulseCycles carrier v) = (p + 500000) div 1000000" if "p mod 1000000 \<noteq> 500000"
    using dtrunc_close(1) [OF e(2) _ e(1)] that big conv mod0 unfolding p_def by simp
  show "unat (pulseCycles carrier v) = (p + 500000) div 1000000 \<or>
      unat (pulseCycles carrier v) = (p + 500000) div 1000000 - 1" if "p mod 1000000 = 500000"
  proof -
    have "dtrunc ?d = (p + 500000) div 1000000 \<or> dtrunc ?d = (p + 500000) div 1000000 - 1"
      using dtrunc_close(2) [OF e(2) _ e(1)] that mod0 unfolding p_def by simp
    with big conv show ?thesis by fastforce
  qed
qed

text \<open>The cycle count of a concrete duration by integer arithmetic.\<close>

lemma pulseCycles_eval:
  fixes v :: u32
  assumes "carrier \<le> 150000" and "unat (v AND IG_PULSE_MASK) * carrier mod 1000000 \<noteq> 500000"
  shows "pulseCycles carrier v = word_of_nat ((unat (v AND IG_PULSE_MASK) * carrier + 500000) div 1000000)"
  using pulseCycles_nat(1) [OF assms] by (metis of_nat_unat ucast_id)

section \<open>One run of cycles\<close>

lemma splitCycles_run:
  assumes "splitCycles c = (cy, nb)"
  shows "nb = 0 \<longleftrightarrow> c = 0" "0 < unat cy" "unat cy \<le> 127"
    and "c \<noteq> 0 \<Longrightarrow> (unat nb - 1) * 127 + unat cy = unat c"
proof -
  have d: "unat (c div 127) = unat c div 127" by (simp add: unat_div)
  have m: "unat (c mod 127) = unat c mod 127" by (simp add: unat_mod)
  have lt: "unat c < 2 ^ 32" using unsigned_less [of c, where ?'a = nat] by simp
  have s: "unat (c div 127 + 1) = unat c div 127 + 1"
    using lt by (subst unat_add_lem [THEN iffD1]) (auto simp: d)
  have z: "c mod 127 = 0 \<longleftrightarrow> unat c mod 127 = 0" using m by (metis unat_eq_zero)
  have r: "unat c mod 127 < 127" by simp
  have c: "unat c = 127 * (unat c div 127) + unat c mod 127" by simp
  show "nb = 0 \<longleftrightarrow> c = 0"
  proof (cases "c mod 127 = 0")
    case True
    then have "nb = c div 127" using assms by (simp add: splitCycles_def)
    moreover have "c div 127 = 0 \<longleftrightarrow> c = 0"
      using True z c d by (metis add_0 mult_0_right unat_eq_zero div_0)
    ultimately show ?thesis by simp
  next
    case False
    then have "nb = c div 127 + 1" using assms by (simp add: splitCycles_def)
    moreover have "c div 127 + 1 \<noteq> 0" using s by (metis add_is_0 one_neq_zero unat_0)
    ultimately show ?thesis using False by auto
  qed
  show "0 < unat cy" "unat cy \<le> 127"
    using assms z m r by (auto simp: splitCycles_def Let_def split: if_splits)
  show "(unat nb - 1) * 127 + unat cy = unat c" if "c \<noteq> 0"
  proof (cases "c mod 127 = 0")
    case True
    then have "nb = c div 127" "cy = 127" using assms by (auto simp: splitCycles_def)
    moreover have "0 < unat c div 127"
      using that True z c by (metis add_0_right gr0I mult_0_right unat_eq_zero)
    moreover have "unat c = 127 * (unat c div 127)" using True z c by simp
    moreover have "unat (127 :: u32) = 127" by simp
    ultimately show ?thesis unfolding d by (metis Suc_diff_1 d mult.commute mult_Suc_right add.commute One_nat_def)
  next
    case False
    then have "nb = c div 127 + 1" "cy = c mod 127" using assms by (auto simp: splitCycles_def)
    then show ?thesis by (simp add: s m)
  qed
qed

lemma low_byte_bits:
  fixes b :: byte
  assumes "unat b \<le> 127"
  shows "b AND 0x7F = b" "b AND 0x80 = 0" "(b OR 0x80) AND 0x7F = b" "(b OR 0x80) AND 0x80 = 0x80"
proof -
  have t: "take_bit 7 b = b"
    using assms by (simp add: word_unat_eq_iff unsigned_take_bit_eq take_bit_nat_eq_self)
  have b: "bit b n \<Longrightarrow> n < 7" for n
    using t by (metis bit_take_bit_iff)
  have m: "(0x7F :: byte) = mask 7" by (simp add: mask_eq_exp_minus_1)
  have e: "(0x80 :: byte) = push_bit 7 1" by simp
  show "b AND 0x7F = b" using t by (simp add: m flip: take_bit_eq_mask)
  show "b AND 0x80 = 0" by (rule bit_word_eqI) (auto simp: e bit_simps dest: b simp del: push_bit_of_1)
  show "(b OR 0x80) AND 0x7F = b"
    by (rule bit_word_eqI) (auto simp: m e bit_simps dest: b simp del: push_bit_of_1)
  show "(b OR 0x80) AND 0x80 = 0x80"
    by (rule bit_word_eqI) (auto simp: e bit_simps simp del: push_bit_of_1)
qed

lemma not_full_xor: "unat (b :: byte) \<noteq> 127 \<Longrightarrow> b XOR 0x7F \<noteq> 0"
proof
  assume n: "unat b \<noteq> 127" and "b XOR 0x7F = 0"
  then have "(b XOR 0x7F) XOR 0x7F = 0 XOR 0x7F" by simp
  then have "b = 0x7F" by (simp only: xor.assoc xor_self_eq xor.left_neutral xor.right_neutral)
  with n show False by simp
qed

lemma sends_full: "sends (LENGTH_MASK OR (if sp then STATE_MASK else 0)) = replicate 127 (\<not> sp)"
  by (cases sp) (simp_all add: sends_def)

lemma unat_ucast_low: "unat (cy :: u32) \<le> 127 \<Longrightarrow> unat (ucast cy :: byte) = unat cy"
  by (simp add: unsigned_ucast_eq take_bit_nat_eq_self)

lemma ucast_or_state: "(ucast (cy OR 0x80 :: u32) :: byte) = ucast cy OR 0x80"
  by (simp add: unsigned_or_eq)

lemma sends_last:
  assumes "unat (cy :: u32) \<le> 127"
  shows "sends (ucast (if sp then cy OR 0x80 else cy)) = replicate (unat cy) (\<not> sp)"
proof -
  note b = low_byte_bits [of "ucast cy"] and u = unat_ucast_low [OF assms]
  show ?thesis
    using b u assms by (cases sp) (simp_all add: sends_def ucast_or_state)
qed

lemma transmit_plain_append [simp]: "transmit_plain (xs @ ys) = transmit_plain xs @ transmit_plain ys"
  by (simp add: transmit_plain_def)

lemma transmit_plain_run:
  assumes "unat (cy :: u32) \<le> 127"
  shows "transmit_plain (runBytes sp cy nb) = replicate ((unat nb - 1) * 127 + unat cy) (\<not> sp)"
proof -
  have "concat (replicate k (replicate m x)) = replicate (k * m) x" for k m :: nat and x :: bool
    by (induction k) (simp_all add: replicate_add)
  then show ?thesis
    unfolding transmit_plain_def runBytes_def map_append map_replicate sends_full
    using sends_last [OF assms, of sp] by (simp add: replicate_add)
qed

lemma length_runBytes: "nb \<noteq> 0 \<Longrightarrow> length (runBytes sp cy nb) = unat nb"
  by (cases "unat nb") (auto simp: runBytes_def unat_eq_zero)

section \<open>The encoder without accumulators\<close>

text \<open>The bytes the loop appends for the codes that remain.\<close>

fun encoded :: "nat \<Rightarrow> compressVersion \<Rightarrow> u32 list \<Rightarrow> bool \<Rightarrow> u32 \<Rightarrow> byte list" where
  "encoded carrier compress [] inSpace lastCycles = []"
| "encoded carrier compress (v # vs) inSpace lastCycles =
     (let (cycles, numBytes) = splitCycles (pulseCycles carrier v);
          drop = (compress = COMPRESS_VER1 \<and> \<not> inSpace \<and>
                  cycles \<noteq> MAX_DATA_BYTE \<and> cycles = lastCycles \<and> vs \<noteq> []);
          lastCycles = (if compress = COMPRESS_VER1 \<and> \<not> inSpace then cycles else lastCycles)
      in (if drop \<or> numBytes = 0 then [] else runBytes inSpace cycles numBytes)
           @ encoded carrier compress vs (\<not> inSpace) lastCycles)"

lemma sendLoop_encoded:
  "sendLoop carrier compress want vs n inSpace lastCycles out =
     (let bs = encoded carrier compress vs inSpace lastCycles
      in (n + length bs,
          if want \<and> bs \<noteq> [] then Some ((case out of None \<Rightarrow> [] | Some xs \<Rightarrow> xs) @ bs) else out))"
proof (induction vs arbitrary: n inSpace lastCycles out)
  case (Cons v vs)
  obtain cy nb where s: "splitCycles (pulseCycles carrier v) = (cy, nb)" by fastforce
  have "runBytes inSpace cy nb \<noteq> []" by (simp add: runBytes_def)
  then show ?case
    using Cons.IH length_runBytes [of nb inSpace cy]
    by (cases "nb = 0") (auto simp: s Let_def split: option.splits)
qed simp

lemma pulsesToIguanaSend_encoded:
  "pulsesToIguanaSend carrier vs want compress =
     (let bs = encoded carrier compress vs False 0
      in (length bs, if want \<and> bs \<noteq> [] then Some bs else None))"
  by (simp add: pulsesToIguanaSend_def sendLoop_encoded Let_def)

lemma encoded_plain:
  "compress \<noteq> COMPRESS_VER1 \<Longrightarrow>
   transmit_plain (encoded carrier compress vs inSpace lastCycles) = waveform carrier inSpace vs"
proof (induction vs arbitrary: inSpace lastCycles)
  case Nil
  then show ?case by (simp add: transmit_plain_def)
next
  case (Cons v vs)
  obtain cy nb where s: "splitCycles (pulseCycles carrier v) = (cy, nb)" by fastforce
  note r = splitCycles_run [OF s]
  have "transmit_plain (if nb = 0 then [] else runBytes inSpace cy nb)
      = replicate (unat (pulseCycles carrier v)) (\<not> inSpace)"
    using r transmit_plain_run [OF r(3)] by (auto simp: transmit_plain_def)
  with Cons show ?case by (simp add: s Let_def)
qed

section \<open>The compressed format\<close>

text \<open>
  The codes the compressed format represents faithfully: every pulse is shorter than a full byte and
  no space ends in a full byte.
\<close>

fun ver1_faithful :: "nat \<Rightarrow> bool \<Rightarrow> u32 list \<Rightarrow> bool" where
  "ver1_faithful carrier inSpace [] = True"
| "ver1_faithful carrier inSpace (v # vs) =
     ((if inSpace then unat (pulseCycles carrier v) mod 127 \<noteq> 0
       else 0 < unat (pulseCycles carrier v) \<and> unat (pulseCycles carrier v) < 127)
      \<and> ver1_faithful carrier (\<not> inSpace) vs)"

lemma transmit_bytes_full_spaces:
  "transmit_bytes (replicate k 0xFF @ bs) 0xFF lp on = replicate (k * 127) False @ transmit_bytes bs 0xFF lp (on \<and> k = 0)"
proof (induction k arbitrary: on)
  case (Suc k)
  have "sends 0xFF = replicate 127 False" by (simp add: sends_def)
  with Suc show ?case by (simp add: replicate_add)
qed simp

lemma transmit_bytes_space_run:
  fixes cy nb :: u32
  assumes cy: "unat cy \<le> 127" and nb: "nb \<noteq> 0"
  shows "transmit_bytes (runBytes True cy nb @ bs) t3 lp on =
     (if (t3 AND 0x7F) XOR 0x7F = 0 \<or> on then [] else sends lp) @
     replicate ((unat nb - 1) * 127 + unat cy) False @ transmit_bytes bs (ucast cy OR 0x80) lp False"
proof -
  have last: "sends (ucast cy OR 0x80) = replicate (unat cy) False"
    using sends_last [OF cy, of True] by (simp add: ucast_or_state)
  have sp: "(ucast cy OR 0x80 :: byte) AND 0x80 \<noteq> 0"
    using low_byte_bits(4) [of "ucast cy"] unat_ucast_low [OF cy] cy by simp
  have full: "sends 0xFF = replicate 127 False" by (simp add: sends_def)
  show ?thesis
  proof (cases "unat nb - 1")
    case 0
    then show ?thesis using last sp by (simp add: runBytes_def ucast_or_state)
  next
    case (Suc k)
    then have "runBytes True cy nb @ bs = 0xFF # replicate k 0xFF @ (ucast cy OR 0x80) # bs"
      by (simp add: runBytes_def ucast_or_state)
    then show ?thesis
      using Suc last sp full transmit_bytes_full_spaces [of k "(ucast cy OR 0x80) # bs" lp False]
      by (simp add: replicate_add)
  qed
qed

lemma encoded_ver1:
  assumes "ver1_faithful carrier inSpace vs"
    and "\<not> inSpace \<Longrightarrow> lastCycles \<noteq> 0 \<Longrightarrow> lp = ucast lastCycles \<and> \<not> on"
    and "inSpace \<Longrightarrow> lp = ucast lastCycles \<and> (on \<or> vs \<noteq> [])"
    and "\<not> on \<Longrightarrow> lastCycles \<noteq> 0 \<Longrightarrow> (t3 AND 0x7F) XOR 0x7F \<noteq> 0"
    and "inSpace \<Longrightarrow> lastCycles \<noteq> 0"
  shows "transmit_bytes (encoded carrier COMPRESS_VER1 vs inSpace lastCycles) t3 lp on =
     (if inSpace \<and> \<not> on then sends lp else []) @ waveform carrier inSpace vs"
  using assms
proof (induction vs arbitrary: inSpace lastCycles t3 lp on)
  case (Cons v vs)
  obtain cy nb where s: "splitCycles (pulseCycles carrier v) = (cy, nb)" by fastforce
  note r = splitCycles_run [OF s]
  let ?c = "unat (pulseCycles carrier v)"
  show ?case
  proof (cases inSpace)
    case True
    with Cons.prems(1) have c0: "?c mod 127 \<noteq> 0" and f: "ver1_faithful carrier False vs" by simp_all
    then have "pulseCycles carrier v \<noteq> 0" by auto
    with r have nb: "nb \<noteq> 0" and sum: "(unat nb - 1) * 127 + unat cy = ?c" by auto
    have "?c mod 127 = unat cy mod 127" using sum by (metis mod_mult_self3)
    with c0 have "unat cy \<noteq> 127" by auto
    then have t: "((ucast cy OR 0x80 :: byte) AND 0x7F) XOR 0x7F \<noteq> 0"
      using low_byte_bits(3) [of "ucast cy"] by (intro not_full_xor) (simp add: unat_ucast_low [OF r(3)] r(3))
    have "transmit_bytes (encoded carrier COMPRESS_VER1 vs False lastCycles) (ucast cy OR 0x80) lp False
        = waveform carrier False vs"
      using Cons.IH [of False lastCycles lp False "ucast cy OR 0x80"] Cons.prems True f t by simp
    then show ?thesis
      using True Cons.prems transmit_bytes_space_run [OF r(3) nb] nb sum by (simp add: s Let_def)
  next
    case False
    with Cons.prems(1) have c: "0 < ?c" "?c < 127" and f: "ver1_faithful carrier True vs" by simp_all
    then have c0: "pulseCycles carrier v \<noteq> 0" by auto
    with r have nb: "nb \<noteq> 0" and sum: "(unat nb - 1) * 127 + unat cy = ?c" by auto
    with c(2) have one: "unat nb - 1 = 0" by (cases "unat nb - 1") auto
    with sum have cy: "unat cy = ?c" by simp
    then have cy0: "cy \<noteq> 0" "cy \<noteq> 127" using c by auto
    have pulse: "sends (ucast cy) = replicate ?c True" and hi: "(ucast cy :: byte) AND 0x80 = 0"
      using sends_last [OF r(3), of False] low_byte_bits(2) [of "ucast cy"] unat_ucast_low [OF r(3)] r(3) cy
      by simp_all
    show ?thesis
    proof (cases "cy = lastCycles \<and> vs \<noteq> []")
      case True
      with Cons.prems(2) False cy0 have lp: "lp = ucast cy" "\<not> on" by auto
      have "transmit_bytes (encoded carrier COMPRESS_VER1 vs True cy) t3 lp on = sends lp @ waveform carrier True vs"
        using Cons.IH [of True cy lp on t3] f lp True Cons.prems(4) cy0 by simp
      then show ?thesis using False True cy0 pulse lp by (simp add: s Let_def)
    next
      case emit: False
      have "transmit_bytes (encoded carrier COMPRESS_VER1 vs True cy) (ucast cy) (ucast cy) True
          = waveform carrier True vs"
        using Cons.IH [of True cy "ucast cy" True "ucast cy"] f cy0 by simp
      moreover have "runBytes False cy nb = [ucast cy]" using one by (simp add: runBytes_def)
      ultimately show ?thesis using False emit cy0 pulse hi nb by (auto simp: s Let_def)
    qed
  qed
qed auto

lemma runBytes_nonzero:
  fixes cy nb :: u32
  assumes "0 < unat cy" "unat cy \<le> 127"
  shows "\<forall>b \<in> set (runBytes sp cy nb). b AND 0x7F \<noteq> 0"
proof -
  have "(ucast cy :: byte) \<noteq> 0"
    using assms unat_ucast_low [of cy] by (metis neq0_conv unat_0 less_irrefl)
  then show ?thesis
    using low_byte_bits [of "ucast cy"] unat_ucast_low [OF assms(2)] assms
    by (auto simp: runBytes_def ucast_or_state)
qed

lemma encoded_nonzero: "b \<in> set (encoded carrier compress vs inSpace lastCycles) \<Longrightarrow> b AND 0x7F \<noteq> 0"
proof (induction vs arbitrary: inSpace lastCycles)
  case (Cons v vs)
  obtain cy nb where s: "splitCycles (pulseCycles carrier v) = (cy, nb)" by fastforce
  note r = splitCycles_run [OF s]
  show ?case
    using Cons runBytes_nonzero [OF r(2,3), of inSpace nb] by (auto simp: s Let_def split: if_splits)
qed simp

section \<open>Properties\<close>

text \<open>
  The double arithmetic of the cycle computation rounds to nearest: for every duration and every
  carrier up to 150 kHz the result is the integer rounding of \<open>duration * carrier / 10^6\<close>, except that
  an exact tie may go either way.
\<close>

theorem pulseCycles_nearest:
  fixes v :: u32
  assumes "carrier \<le> 150000"
  defines "p \<equiv> unat (v AND IG_PULSE_MASK) * carrier"
  shows "unat (pulseCycles carrier v) = (p + 500000) div 1000000 \<or>
     (p mod 1000000 = 500000 \<and> unat (pulseCycles carrier v) = (p + 500000) div 1000000 - 1)"
  unfolding p_def using pulseCycles_nat [OF assms(1), of v] by blast

theorem pulseCycles_nearest_witness:
  "unat (pulseCycles 38000 8000) = 304"
  using pulseCycles_nearest [of 38000 8000] by simp

text \<open>
  C5.  Uncompressed encoding is exact: the carrier waveform the device produces from the bytes of
  \<open>pulsesToIguanaSend\<close> is the waveform of the requested durations, cycle for cycle, the reported length
  is the number of bytes, and no byte has a zero length field, so the \<open>0x00\<close> terminator that old
  firmware needs cannot occur inside the data.
\<close>

theorem pulsesToIguanaSend_exact:
  assumes "pulsesToIguanaSend carrier vs True COMPRESS_VER0 = (n, out)"
  shows "transmit_plain (case out of None \<Rightarrow> [] | Some bs \<Rightarrow> bs) = waveform carrier False vs
       \<and> n = length (case out of None \<Rightarrow> [] | Some bs \<Rightarrow> bs)
       \<and> (\<forall>b \<in> set (case out of None \<Rightarrow> [] | Some bs \<Rightarrow> bs). b AND 0x7F \<noteq> 0)"
proof -
  let ?bs = "encoded carrier COMPRESS_VER0 vs False 0"
  have "(case out of None \<Rightarrow> [] | Some bs \<Rightarrow> bs) = ?bs" "n = length ?bs"
    using assms by (auto simp: pulsesToIguanaSend_encoded Let_def split: if_splits)
  moreover have "transmit_plain ?bs = waveform carrier False vs"
    by (rule encoded_plain) simp
  ultimately show ?thesis using encoded_nonzero by auto
qed

theorem pulsesToIguanaSend_exact_witness:
  "pulsesToIguanaSend 38000 [0x01000000 + 8000, 1000, 0x01000000 + 800] True COMPRESS_VER0
     = (5, Some [0x7F, 0x7F, 0x32, 0xA6, 0x1E])
   \<and> transmit_plain [0x7F, 0x7F, 0x32, 0xA6, 0x1E]
       = waveform 38000 False [0x01000000 + 8000, 1000, 0x01000000 + 800]"
proof -
  have e: "pulsesToIguanaSend 38000 [0x01000000 + 8000, 1000, 0x01000000 + 800] True COMPRESS_VER0
     = (5, Some [0x7F, 0x7F, 0x32, 0xA6, 0x1E])"
    by (simp add: pulsesToIguanaSend_def pulseCycles_eval splitCycles_def runBytes_def)
       (simp add: numeral_2_eq_2)
  from pulsesToIguanaSend_exact [OF this] e show ?thesis by simp
qed

text \<open>
  The size query agrees with the encoder: running the conversion with \<open>results == NULL\<close>, as the
  SENDSIZE request does, returns the length a SEND with the same codes would transmit, in every
  format, and allocates nothing.
\<close>

theorem sendSize_equals_send_length:
  "pulsesToIguanaSend carrier vs False compress = (fst (pulsesToIguanaSend carrier vs True compress), None)
   \<and> fst (pulsesToIguanaSend carrier vs True compress)
       = length (case snd (pulsesToIguanaSend carrier vs True compress) of None \<Rightarrow> [] | Some bs \<Rightarrow> bs)"
  by (simp add: pulsesToIguanaSend_encoded Let_def)

text \<open>
  C30.  The compressed format is faithful where every pulse takes fewer than 127 cycles and no space
  takes a multiple of 127: the transmit loop, which repeats the last pulse between two spaces, reproduces
  the requested waveform from the compressed bytes, whatever the memory after them, as long as their
  number is between 1 and 255 and so fits the byte the loop counts in.
\<close>

theorem compressed_faithful:
  assumes "ver1_faithful carrier False vs"
    and "pulsesToIguanaSend carrier vs True COMPRESS_VER1 = (n, Some bs)" "n \<le> 255"
  shows "transmit_code (word_of_nat n) (bs @ rest) t3 lp = waveform carrier False vs"
proof -
  have "bs = encoded carrier COMPRESS_VER1 vs False 0" "n = length bs" "bs \<noteq> []"
    using assms(2) by (auto simp: pulsesToIguanaSend_encoded Let_def split: if_splits)
  then show ?thesis using encoded_ver1 [OF assms(1), of 0 lp False t3] transmit_code_counted [of bs rest t3 lp] assms(3) by simp
qed

theorem compressed_faithful_witness:
  "transmit_code 4 ([0x1E, 0x84, 0x85, 0x1E] @ [0x7F, 0xFF]) 0 0
     = waveform 38000 False [0x01000000 + 800, 100, 0x01000000 + 800, 130, 0x01000000 + 800]"
proof -
  have f: "ver1_faithful 38000 False [0x01000000 + 800, 100, 0x01000000 + 800, 130, 0x01000000 + 800]"
    by (simp add: pulseCycles_eval)
  have e: "pulsesToIguanaSend 38000 [0x01000000 + 800, 100, 0x01000000 + 800, 130, 0x01000000 + 800] True
     COMPRESS_VER1 = (4, Some [0x1E, 0x84, 0x85, 0x1E])"
    by (simp add: pulsesToIguanaSend_def pulseCycles_eval splitCycles_def runBytes_def)
  from compressed_faithful [OF f e, of "[0x7F, 0xFF]" 0 0] show ?thesis by simp
qed

text \<open>
  C17.  What becomes of a transmission of any length: the count in the control packet is the number of bytes
  modulo 256.  Up to 150 bytes are played and confirmed; a count above 150 overflows the buffer, its 150
  bytes are played and the overflow is reported; but from 256 bytes on the count starts again, and a code
  is cut to the counted bytes and confirmed all the same, and for a multiple of 256 the loop plays the 255
  bytes that happen to be in memory and confirms.
\<close>

theorem transmission_of_any_length:
  assumes "[] \<notin> set ps" "n = length (concat ps)" "0 < n" "255 \<le> length (fwBuffer fw)"
  shows "send_body (word_of_nat n) fw ps =
    (let k = n mod 256; played = (\<lambda>bs. transmit_bytes bs (fwTmp3 fw) (fwPulse fw) False)
     in if k = 0 then Some (True, played (take 255 (fwBuffer fw)))
        else if k \<le> 150 then Some (True, played (take k (concat ps)))
        else Some (False, played (take 150 (concat ps))))"
proof -
  let ?c = "word_of_nat n :: byte"
  have u: "unat ?c = n mod 256" by (simp add: unat_of_nat)
  have z: "?c = 0 \<longleftrightarrow> n mod 256 = 0" using u by (metis unat_eq_zero)
  have le: "unat ?c \<le> length (concat ps)" using u assms(2) by simp
  consider "n mod 256 = 0" | "?c \<noteq> 0" "unat ?c \<le> BUFFER_SIZE" | "?c \<noteq> 0" "BUFFER_SIZE < unat ?c" using z by linarith
  then show ?thesis
  proof cases
    case 1
    have m: "unat (- 1 :: byte) = 255" by (simp add: unsigned_minus_1_eq_mask mask_eq_exp_minus_1)
    have "tx_loop (- 1) (fwBuffer fw) t3 lp False = transmit_bytes (take 255 (fwBuffer fw)) t3 lp False" for t3 lp
      using tx_loop_bytes [of "- 1 :: byte" "fwBuffer fw"] assms(4) m by simp
    then show ?thesis using 1 z by (simp add: send_body_def read_buffer_def transmit_code_def)
  next
    case 2
    then show ?thesis using send_body_counted [OF 2 le assms(1)] u z by (simp add: BUFFER_SIZE_def Let_def)
  next
    case 3
    have f: "rb_frag ?c [] ps = Some (False, take BUFFER_SIZE (concat ps))"
      using rb_frag_overflow [of "[]" ?c ps] 3 le assms(1) by simp
    have l: "length (take BUFFER_SIZE (concat ps)) = 150" using 3 le by (simp add: BUFFER_SIZE_def)
    then have "take BUFFER_SIZE (concat ps) \<noteq> []" by (metis list.size(3) zero_neq_numeral)
    from transmit_code_counted [OF this, of "drop 150 (fwBuffer fw)"] l have
      "transmit_code 150 (take 150 (concat ps) @ drop 150 (fwBuffer fw)) t3 lp = transmit_bytes (take 150 (concat ps)) t3 lp False" for t3 lp
      by (simp add: BUFFER_SIZE_def)
    then show ?thesis using 3 f l u z by (simp add: send_body_def read_buffer_def BUFFER_SIZE_def Let_def)
  qed
qed

theorem transmission_of_any_length_witness:
  "send_body (word_of_nat (length (concat (replicate 129 [1, 0x81 :: byte])))) \<lparr>fwTmp3 = 0, fwPulse = 0, fwBuffer = replicate 255 0\<rparr>
      (replicate 129 [1, 0x81]) = Some (True, [True, False])"
proof -
  let ?ps = "replicate 129 [1, 0x81] :: byte list list"
  have l: "length (concat ?ps) = 258" by (simp add: length_concat sum_list_replicate)
  have "?ps = [1, 0x81] # replicate 128 [1, 0x81]" by (metis replicate_Suc numeral_eq_Suc pred_numeral_simps(3) Num.BitM.simps)
  then have "take 2 (concat ?ps) = [1, 0x81]" by simp
  then show ?thesis
    using transmission_of_any_length [of ?ps "length (concat ?ps)" "\<lparr>fwTmp3 = 0, fwPulse = 0, fwBuffer = replicate 255 0\<rparr>"] l
    by (simp add: sends_def)
qed

text \<open>
  Beyond that range compression loses signal: of two equal long pulses only the remainder modulo
  127 of the second is transmitted, because the encoder compares remainders and drops all bytes of
  the run, while the firmware repeats one byte.
\<close>

theorem compressed_drops_long_pulse:
  "pulsesToIguanaSend 38000 [9000, 600, 9000, 600, 600] True COMPRESS_VER1
     = (6, Some [0x7F, 0x7F, 0x58, 0x97, 0x97, 0x17])
   \<and> length (filter id (transmit_code 6 [0x7F, 0x7F, 0x58, 0x97, 0x97, 0x17] 0 0)) = 453
   \<and> length (filter id (waveform 38000 False [9000, 600, 9000, 600, 600])) = 707"
proof (intro conjI)
  show "pulsesToIguanaSend 38000 [9000, 600, 9000, 600, 600] True COMPRESS_VER1
     = (6, Some [0x7F, 0x7F, 0x58, 0x97, 0x97, 0x17])"
    by (simp add: pulsesToIguanaSend_def pulseCycles_eval splitCycles_def runBytes_def)
       (simp add: numeral_2_eq_2)
  have "transmit_code 6 [0x7F, 0x7F, 0x58, 0x97, 0x97, 0x17] 0 0 = transmit_bytes [0x7F, 0x7F, 0x58, 0x97, 0x97, 0x17] 0 0 False"
    using transmit_code_counted [of "[0x7F, 0x7F, 0x58, 0x97, 0x97, 0x17]" "[]" 0 0] by simp
  then show "length (filter id (transmit_code 6 [0x7F, 0x7F, 0x58, 0x97, 0x97, 0x17] 0 0)) = 453"
    by (simp add: sends_def)
  show "length (filter id (waveform 38000 False [9000, 600, 9000, 600, 600])) = 707"
    by (simp add: pulseCycles_eval)
qed

end
