(* ===== verification/Device_Transactions.thy ===== *)
theory Device_Transactions
  imports Device_Interface
begin

text \<open>
  What a transaction with a device guarantees: the control packet fits its buffer, an answer that is
  handed to the caller matches the request, a well-formed request never leads to undefined behaviour,
  and the two places where old devices are served wrongly.
\<close>

section \<open>Well-formed requests and environments\<close>

text \<open>A packet the reader stores: a block at least as long as the length field says.\<close>

definition stored_ok :: "dataPacket \<Rightarrow> bool" where
  "stored_ok p \<longleftrightarrow> 0 \<le> dataLen p \<and> (\<exists>bs. data p = Some bs \<and> dataLen p \<le> int (length bs))"

definition wait_ok :: "waitEvent \<Rightarrow> bool" where
  "wait_ok w = (case w of PipeError e \<Rightarrow> True | Queued ps \<Rightarrow> list_all (\<lambda>(p, fromDev). stored_ok p) ps)"

definition env_ok :: "devWorld \<Rightarrow> bool" where
  "env_ok s \<longleftrightarrow> 0 < maxPacketSize s \<and> (\<forall>n. wait_ok (waitRes s n))"

text \<open>
  A request as \<open>readDataPacket\<close> and the daemon build it: a non-negative length, and at least that many bytes;
  labels are terminated, pin configurations complete.
\<close>

definition request_ok :: "dataPacket \<Rightarrow> bool" where
  "request_ok r \<longleftrightarrow> 0 \<le> dataLen r
     \<and> (0 < dataLen r \<longrightarrow> (\<exists>bs. data r = Some bs \<and> dataLen r \<le> int (length bs)))
     \<and> (code r = IG_DEV_SETID \<longrightarrow> (\<forall>bs. data r = Some bs \<longrightarrow> 0 \<in> set bs))
     \<and> (code r = IG_DEV_SETPINCONFIG \<longrightarrow> 8 \<le> dataLen r)"

text \<open>
  What no step of a transaction changes; the last conjunct says that notifications and received packets
  arrive together.
\<close>

definition lag :: "devWorld \<Rightarrow> int" where
  "lag s = int (readerPipe s) - int (length (recvList s))"

definition same_env :: "devWorld \<Rightarrow> devWorld \<Rightarrow> bool" where
  "same_env s t \<longleftrightarrow> maxPacketSize t = maxPacketSize s \<and> waitRes t = waitRes s \<and> version t = version s
     \<and> carrier t = carrier s \<and> channels t = channels s \<and> receiverCount t = receiverCount s
     \<and> sendRes t = sendRes s \<and> lag t = lag s \<and> flushTears t = flushTears s
     \<and> devId t = devId s \<and> userAlias t = userAlias s \<and> locAlias t = locAlias s"

lemma same_env_refl [simp]: "same_env s s"
  by (simp add: same_env_def)

lemma same_env_trans: "same_env s t \<Longrightarrow> same_env t u \<Longrightarrow> same_env s u"
  by (simp add: same_env_def)

text \<open>A sound environment in which the reader stores no response while the worker flushes old ones.\<close>

definition steady :: "devWorld \<Rightarrow> bool" where
  "steady s \<longleftrightarrow> env_ok s \<and> (\<forall>n. \<not> flushTears s n)"

lemma steady_same: "same_env s t \<Longrightarrow> steady s \<Longrightarrow> steady t"
  by (simp add: same_env_def steady_def env_ok_def)

lemma lag_updates [simp]:
  "lag (t\<lparr>errno := e\<rparr>) = lag t" "lag (t\<lparr>features := f\<rparr>) = lag t" "lag (t\<lparr>cycles := b\<rparr>) = lag t"
  "lag (t\<lparr>response := r\<rparr>) = lag t" "lag (t\<lparr>responsePipe := n\<rparr>) = lag t" "lag (t\<lparr>waits := n\<rparr>) = lag t"
  "lag (t\<lparr>sent := ss\<rparr>) = lag t" "lag (t\<lparr>willFail := w\<rparr>) = lag t" "lag (t\<lparr>firstTimeout := w\<rparr>) = lag t"
  "lag (t\<lparr>flushes := n\<rparr>) = lag t"
  by (simp_all add: lag_def)

lemma same_env_updates [simp]:
  "same_env s (t\<lparr>errno := e\<rparr>) = same_env s t" "same_env s (t\<lparr>features := f\<rparr>) = same_env s t"
  "same_env s (t\<lparr>cycles := b\<rparr>) = same_env s t" "same_env s (t\<lparr>response := r\<rparr>) = same_env s t"
  "same_env s (t\<lparr>responsePipe := n\<rparr>) = same_env s t" "same_env s (t\<lparr>waits := n\<rparr>) = same_env s t"
  "same_env s (t\<lparr>sent := ss\<rparr>) = same_env s t" "same_env s (t\<lparr>willFail := w\<rparr>) = same_env s t"
  "same_env s (t\<lparr>firstTimeout := w\<rparr>) = same_env s t" "same_env s (t\<lparr>flushes := n\<rparr>) = same_env s t"
  by (simp_all add: same_env_def)

section \<open>Frames of the steps\<close>

lemma flush_eq:
  "flushToDevResponsePackets s =
     (if flushTears s (flushes s) then s\<lparr>responsePipe := 1, response := None, flushes := flushes s + 1\<rparr>
      else if responsePipe s = 0 then s\<lparr>flushes := flushes s + 1\<rparr>
      else s\<lparr>responsePipe := 0, response := None, flushes := flushes s + 1\<rparr>)"
proof -
  have "flushLoop (Suc n) s = s\<lparr>responsePipe := 0, response := None\<rparr>" for n s
    by (induction n arbitrary: s) simp_all
  then show ?thesis by (cases "responsePipe s") (simp_all add: flushToDevResponsePackets_def Let_def)
qed

lemma interruptSend_frame:
  "interruptSend b s = (r, t) \<Longrightarrow> same_env s t \<and> responsePipe t = responsePipe s \<and> response t = response s"
  by (auto simp: interruptSend_def split: prod.splits)

lemma sendChunks_frame:
  "sendChunks cs s = (ok, t) \<Longrightarrow> same_env s t \<and> responsePipe t = responsePipe s \<and> response t = response s"
proof (induction cs arbitrary: s)
  case (Cons c cs)
  obtain r u where u: "interruptSend c s = (r, u)" by (cases "interruptSend c s")
  show ?case using Cons.prems Cons.IH [of u] interruptSend_frame [OF u] u
    by (auto split: if_splits intro: same_env_trans)
qed simp

lemma sendData_frame:
  "sendData s b add = Inr (ok, t) \<Longrightarrow> same_env s t \<and> responsePipe t = responsePipe s \<and> response t = response s"
  unfolding sendData_def Let_def
  by (auto split: prod.splits if_splits option.splits
      dest!: sendChunks_frame interruptSend_frame intro: same_env_trans)

lemma queue_frame: "same_env s (queueDataPacket s p f)"
  by (auto simp: queueDataPacket_def same_env_def lag_def)

text \<open>The response slot holds a good packet whenever a notification is pending.\<close>

definition slot_ok :: "devWorld \<Rightarrow> bool" where
  "slot_ok s \<longleftrightarrow> (0 < responsePipe s \<longrightarrow> (\<exists>p. response s = Some p \<and> stored_ok p))"

lemma fold_queue:
  assumes "list_all (\<lambda>(p, f). stored_ok p) ps" "slot_ok s"
  shows "same_env s (fold (\<lambda>(p, f) s. queueDataPacket s p f) ps s)
    \<and> slot_ok (fold (\<lambda>(p, f) s. queueDataPacket s p f) ps s)"
  using assms
proof (induction ps arbitrary: s)
  case (Cons q ps)
  obtain p f where q: "q = (p, f)" by (cases q)
  have "slot_ok (queueDataPacket s p f)"
    using Cons.prems q by (auto simp: queueDataPacket_def slot_ok_def)
  then show ?case
    using Cons.IH [of "queueDataPacket s p f"] Cons.prems q queue_frame [of s p f] same_env_trans by auto
qed simp

lemma notified_frame:
  assumes "notified s = (n, t)" "steady s" "slot_ok s"
  shows "same_env s t" "0 < n \<Longrightarrow> \<exists>p. response t = Some p \<and> stored_ok p"
proof -
  let ?s = "s\<lparr>waits := waits s + 1\<rparr>"
  have so: "slot_ok ?s" using assms(3) by (simp add: slot_ok_def)
  have "same_env s t \<and> (0 < n \<longrightarrow> (\<exists>p. response t = Some p \<and> stored_ok p))"
  proof (cases "waitRes s (waits s)")
    case (Queued ps)
    then have "list_all (\<lambda>(p, f). stored_ok p) ps"
      using assms(2) by (auto simp: steady_def env_ok_def wait_ok_def dest!: spec [of _ "waits s"])
    from fold_queue [OF this so] show ?thesis
      using assms(1) Queued by (auto simp: notified_def Let_def slot_ok_def same_env_def split: if_splits)
  next
    case (PipeError e)
    then show ?thesis using assms(1) by (auto simp: notified_def)
  qed
  then show "same_env s t" "0 < n \<Longrightarrow> \<exists>p. response t = Some p \<and> stored_ok p" by auto
qed

lemma awaitAck_safe:
  assumes "steady s" "slot_ok s"
  shows "\<exists>ok pos t. awaitAck type r s = Inr (ok, pos, t) \<and> same_env s t
    \<and> (ok \<longrightarrow> (\<exists>p. pos = Some p \<and> stored_ok p \<and> code p = code r
             \<and> payloadMatch (uchar (inData type)) (uchar (dataLen p)) \<and> response t = None))"
proof -
  obtain n t where t: "notified s = (n, t)" by (cases "notified s")
  note f = notified_frame [OF t assms]
  show ?thesis
  proof (cases "0 < n")
    case True
    then obtain p where "response t = Some p" "stored_ok p" using f(2) by blast
    then show ?thesis using t f(1) True by (auto simp: awaitAck_def Let_def stored_ok_def)
  next
    case False
    then show ?thesis using t f(1) by (auto simp: awaitAck_def)
  qed
qed

section \<open>Packing\<close>

text \<open>What packing needs of the feature check it is given.\<close>

definition check_ok :: "featureCheck \<Rightarrow> bool" where
  "check_ok f \<longleftrightarrow> (\<forall>s. steady s \<longrightarrow> (\<exists>ok t. f s = Inr (ok, t) \<and> same_env s t))"

lemma loopCycles_safe:
  "check_ok f \<Longrightarrow> steady s \<Longrightarrow> \<exists>n t. loopCycles f s = Inr (n, t) \<and> same_env s t"
  by (auto simp: loopCycles_def check_ok_def bind_res_def split: sum.splits)

lemma carrierBytes_safe:
  assumes "check_ok f" "steady s"
  shows "\<exists>ds t. carrierBytes f s = Inr (ds, t) \<and> same_env s t \<and> length ds \<le> 2"
  using loopCycles_safe [OF assms] by (auto simp: carrierBytes_def split: prod.splits)

lemma carrierBytes_length: "carrierBytes f s = Inr (ds, t) \<Longrightarrow> length ds \<le> 2"
  by (cases "loopCycles f s") (auto simp: carrierBytes_def split: if_splits prod.splits)

lemma deviceCode_safe:
  assumes "request_ok r"
  shows "\<exists>c r' t. deviceCode r s = Inr (c, r', t) \<and> request_ok (r'\<lparr>code := 0\<rparr>) \<and> same_env s t
    \<and> code r' = code r \<and> (code r \<noteq> IG_DEV_SETID \<longrightarrow> r' = r)"
proof (cases "code r = IG_DEV_SETID")
  case True
  show ?thesis
    using True assms by (auto simp: deviceCode_def cstr_def request_ok_def split: option.splits)
next
  case False
  then show ?thesis using assms by (auto simp: deviceCode_def request_ok_def)
qed

lemma addChecksum_safe:
  assumes "request_ok (r\<lparr>code := 0\<rparr>)"
  shows "\<exists>r'. addChecksum c r = Inr r' \<and> request_ok (r'\<lparr>code := 0\<rparr>) \<and> code r' = code r \<and> dataLen r' = dataLen r"
  using assms by (auto simp: addChecksum_def request_ok_def Let_def)

lemma packData_safe:
  assumes "request_ok (r\<lparr>code := 0\<rparr>)"
  shows "\<exists>n bs. packData r = Inr (n, bs) \<and> 0 \<le> n \<and> n \<le> 4 \<and> length bs = nat n"
  using assms by (auto simp: packData_def request_ok_def read_bytes_def Let_def)

lemma packData_length: "packData r = Inr (n, bs) \<Longrightarrow> length bs \<le> 4"
  by (auto simp: packData_def res_simps Let_def split: if_splits dest!: length_read_bytes)

lemma streamArgs_safe:
  assumes "check_ok f" "steady s" "request_ok (r\<lparr>code := 0\<rparr>)"
  shows "\<exists>as r' t. streamArgs f r s = Inr (as, r', t) \<and> request_ok (r'\<lparr>code := 0\<rparr>) \<and> same_env s t
    \<and> code r' = code r \<and> length as \<le> 4"
proof -
  obtain ds t where d: "carrierBytes f s = Inr (ds, t)" "same_env s t" "length ds \<le> 2"
    using carrierBytes_safe [OF assms(1,2)] by blast
  then show ?thesis using assms(3)
    by (auto simp: streamArgs_def request_ok_def Let_def min_def split: option.splits)
qed

lemma streamArgs_length: "streamArgs f r s = Inr (as, r', t) \<Longrightarrow> length as \<le> 4"
  by (auto simp: streamArgs_def res_simps Let_def split: if_splits prod.splits dest!: carrierBytes_length)

lemma packRequest_safe:
  assumes "check_ok f" "steady s" "request_ok r"
  shows "\<exists>msg n r' t. packRequest f r s = Inr (msg, n, r', t) \<and> request_ok (r'\<lparr>code := 0\<rparr>) \<and> 0 \<le> n
    \<and> same_env s t \<and> code r' = code r"
proof -
  obtain c r1 s1 where 1: "deviceCode r s = Inr (c, r1, s1)" "request_ok (r1\<lparr>code := 0\<rparr>)" "same_env s s1"
    "code r1 = code r"
    using deviceCode_safe [OF assms(3), of s] by blast
  let ?c = "snd (translateDevice c (version s1) True)"
  obtain r2 where 2: "addChecksum ?c r1 = Inr r2" "request_ok (r2\<lparr>code := 0\<rparr>)" "code r2 = code r1"
    using addChecksum_safe [OF 1(2), of ?c] by blast
  show ?thesis
  proof (cases "isStream (code r2)")
    case True
    obtain as r3 t where "streamArgs f r2 s1 = Inr (as, r3, t)" "request_ok (r3\<lparr>code := 0\<rparr>)" "same_env s1 t"
      "code r3 = code r2"
      using streamArgs_safe [OF assms(1) steady_same [OF 1(3) assms(2)] 2(2)] by blast
    then show ?thesis
      using 1 2 True same_env_trans [OF 1(3)] by (simp add: packRequest_def)
  next
    case False
    obtain n bs where "packData r2 = Inr (n, bs)" "0 \<le> n" using packData_safe [OF 2(2)] by blast
    then show ?thesis using 1 2 False by (simp add: packRequest_def)
  qed
qed

text \<open>
  C36.  The control packet of a transaction starts with the protocol's header and fits the eight bytes
  of its buffer, whatever the request is.
\<close>

theorem packRequest_fits:
  assumes "packRequest checkF request s = Inr (msg, n, request', s')"
  shows "4 \<le> length msg \<and> length msg \<le> MAX_PACKET_SIZE \<and> take 3 msg = [CTL_START, CTL_START, CTL_TODEV]"
  using assms unfolding packRequest_def
  by (auto simp: res_simps Let_def split: if_splits dest!: streamArgs_length packData_length)

theorem packRequest_fits_witness:
  "\<exists>msg n r s. packRequest (\<lambda>s. Inr (False, s)) (requestOf IG_DEV_GETVERSION) devWorld0 = Inr (msg, n, r, s)
     \<and> length msg \<le> 8"
  using packRequest_fits [of "\<lambda>s. Inr (False, s)" "requestOf IG_DEV_GETVERSION" devWorld0]
  by (simp add: packRequest_def deviceCode_def addChecksum_def isStream_def packData_def read_bytes_def
      translateDevice_def translateProtocol_def devWorld0_def)

section \<open>Transactions\<close>

lemma sendRequest_safe:
  assumes "steady s" "request_ok (r\<lparr>code := 0\<rparr>)" "0 \<le> n"
  shows "\<exists>ok t. sendRequest msg n r s = Inr (ok, t) \<and> same_env s t \<and> slot_ok t"
proof -
  define s1 where "s1 = flushToDevResponsePackets (injectToggleFix s)"
  have i: "same_env s (injectToggleFix s)"
    using interruptSend_frame [of _ s] by (simp add: injectToggleFix_def) (metis prod.collapse)
  then have s1: "same_env s s1" "responsePipe s1 = 0"
    using assms(1) by (simp_all add: s1_def flush_eq steady_def same_env_def)
  obtain q u where u: "interruptSend msg s1 = (q, u)" by (cases "interruptSend msg s1")
  have fu: "same_env s u" "responsePipe u = 0"
    using interruptSend_frame [OF u] s1 same_env_trans by auto
  show ?thesis
  proof (cases "q = int (length msg) \<and> n < dataLen r")
    case False
    then show ?thesis using fu u by (auto simp: sendRequest_def Let_def slot_ok_def simp flip: s1_def)
  next
    case True
    then obtain ds where "data r = Some ds" "0 \<le> dataLen r" "dataLen r \<le> int (length ds)"
      using assms(2,3) by (auto simp: request_ok_def)
    then obtain bs where "restOfData r n = Inr bs"
      by (simp add: restOfData_def read_bytes_Some)
    moreover obtain ok t where t: "sendData u bs (version u < 3 \<and> code r = IG_DEV_SEND) = Inr (ok, t)"
      using sendData_chunks [of u bs "version u < 3 \<and> code r = IG_DEV_SEND"] steady_same [OF fu(1) assms(1)]
      by (auto simp: steady_def env_ok_def)
    ultimately have "sendRequest msg n r s = Inr (ok, t)"
      using True u by (simp add: sendRequest_def Let_def flip: s1_def)
    then show ?thesis using sendData_frame [OF t] fu same_env_trans by (auto simp: slot_ok_def)
  qed
qed

lemma runTransaction_safe:
  assumes "check_ok f" "steady s" "request_ok r"
  shows "\<exists>ok t r' resp'. runTransaction f s r null resp = Inr (ok, t, r', resp') \<and> same_env s t \<and> code r' = code r
    \<and> request_ok (r'\<lparr>code := 0\<rparr>)
    \<and> (ok \<longrightarrow> (\<exists>type. checkIncomingProtocol (Some s) r null = Some type
          \<and> (ack type \<and> \<not> null \<longrightarrow> (\<exists>p. resp' = Some p \<and> stored_ok p \<and> code p = code r
               \<and> payloadMatch (uchar (inData type)) (uchar (dataLen p)) \<and> response t = None))))"
proof (cases "checkIncomingProtocol (Some s) r null")
  case None
  then show ?thesis using assms(3) by (auto simp: runTransaction_def request_ok_def)
next
  case (Some type)
  let ?s = "s\<lparr>errno := EINVAL\<rparr>"
  have e: "steady ?s" using assms(2) by (simp add: steady_def env_ok_def)
  obtain msg n r1 s1 where 1: "packRequest f r ?s = Inr (msg, n, r1, s1)" "request_ok (r1\<lparr>code := 0\<rparr>)" "0 \<le> n"
    "same_env ?s s1" "code r1 = code r"
    using packRequest_safe [OF assms(1) e assms(3)] by blast
  then have s1: "same_env s s1" by (simp add: same_env_def)
  obtain ok s2 where 2: "sendRequest msg n r1 s1 = Inr (ok, s2)" "same_env s1 s2" "slot_ok s2"
    using sendRequest_safe [OF steady_same [OF s1 assms(2)] 1(2,3)] by blast
  have s2: "same_env s s2" using same_env_trans s1 2(2) by blast
  obtain ok2 pos t where 3: "awaitAck type r1 s2 = Inr (ok2, pos, t)" "same_env s2 t"
    "ok2 \<longrightarrow> (\<exists>p. pos = Some p \<and> stored_ok p \<and> code p = code r1
       \<and> payloadMatch (uchar (inData type)) (uchar (dataLen p)) \<and> response t = None)"
    using awaitAck_safe [OF steady_same [OF s2 assms(2)] 2(3)] by blast
  have t: "same_env s t" using same_env_trans s2 3(2) by blast
  show ?thesis
    using Some 1(1,2,5) 2(1) 3(1,3) s2 t by (cases ok; cases "ack type"; cases ok2) (auto simp: runTransaction_def)
qed

lemma payload_exact:
  assumes "payloadMatch (uchar n) (uchar m)" "0 < n" "n < 255" "0 \<le> m"
  shows "n \<le> m"
proof -
  have u: "uint (uchar k) = k mod 256" for k by (simp add: uchar_def uint_word_of_int)
  have "uint (uchar n) = n" using assms(2,3) u by simp
  moreover have "uint (uchar ANY_PAYLOAD) = 0" "uint (uchar NO_PAYLOAD) = 255" by (simp_all add: u)
  ultimately have "uchar n = uchar m" using assms unfolding payloadMatch_def by force
  then have "n mod 256 = m mod 256" using u by metis
  moreover have "n mod 256 = n" using assms(2,3) by simp
  ultimately show ?thesis using zmod_le_nonneg_dividend [OF assms(4), of 256] by simp
qed

lemma checkIncomingProtocol_Some:
  "checkIncomingProtocol (Some s) r null = Some type \<Longrightarrow> findTypeEntry (code r) (version s) = Some type"
  by (auto simp: checkIncomingProtocol_def Let_def split: option.splits if_splits)

lemma request_ok_requestOf: "c \<noteq> IG_DEV_SETPINCONFIG \<Longrightarrow> request_ok (requestOf c)"
  by (simp add: request_ok_def)

lemma features_type:
  "findTypeEntry IG_DEV_GETFEATURES v = Some type \<Longrightarrow> ack type \<and> 0 < inData type \<and> inData type < 255"
  by (auto simp: findTypeEntry_def types_def vt_def split: if_splits)

lemma storeFeatures_safe:
  assumes "stored_ok p" "1 \<le> dataLen p"
  shows "\<exists>t. storeFeatures (Some p) s = Inr t \<and> same_env s t"
  using assms by (auto simp: storeFeatures_def stored_ok_def byte_at_def)

lemma checkFeatures_safe:
  assumes "steady s"
  shows "\<exists>ok t. checkFeatures s target = Inr (ok, t) \<and> same_env s t"
proof (cases "version s AND 0xFF = 0 \<or> version s AND 0xFF00 = 0 \<or> features s \<noteq> UNKNOWN_FEATURES")
  case True
  then show ?thesis by (auto simp: checkFeatures_def)
next
  case False
  let ?r = "requestOf IG_DEV_GETFEATURES"
  have cong: "runTransaction (\<lambda>_. Inl AssertFailed) s ?r False None = runTransaction (\<lambda>s. Inr (False, s)) s ?r False None"
    by (rule runTransaction_cong) (simp add: isStream_def)
  have c: "check_ok (\<lambda>s. Inr (False, s))" by (simp add: check_ok_def)
  have rq: "request_ok ?r" by (rule request_ok_requestOf) simp
  obtain ok t r' resp where 1: "runTransaction (\<lambda>s. Inr (False, s)) s ?r False None = Inr (ok, t, r', resp)"
    "same_env s t" "ok \<longrightarrow> (\<exists>type. checkIncomingProtocol (Some s) ?r False = Some type
        \<and> (ack type \<longrightarrow> (\<exists>p. resp = Some p \<and> stored_ok p \<and> payloadMatch (uchar (inData type)) (uchar (dataLen p)))))"
    using runTransaction_safe [OF c assms rq, of False None] by auto
  show ?thesis
  proof (cases ok)
    case False
    then show ?thesis using 1(1,2) \<open>\<not> (_ \<or> _)\<close> unfolding checkFeatures_def cong by auto
  next
    case True
    then obtain type p where p: "checkIncomingProtocol (Some s) ?r False = Some type" "ack type \<longrightarrow> resp = Some p
        \<and> stored_ok p \<and> payloadMatch (uchar (inData type)) (uchar (dataLen p))"
      using 1(3) by blast
    have ty: "ack type" "0 < inData type" "inData type < 255"
      using features_type checkIncomingProtocol_Some [OF p(1)] by auto
    then have "1 \<le> dataLen p" using p(2) payload_exact [of "inData type" "dataLen p"] by (auto simp: stored_ok_def)
    then obtain u where "storeFeatures (Some p) t = Inr u" "same_env t u"
      using storeFeatures_safe p(2) ty by blast
    then show ?thesis
      using 1(1) True \<open>\<not> (_ \<or> _)\<close> p(2) ty same_env_trans [OF 1(2)] unfolding checkFeatures_def cong by auto
  qed
qed

lemma check_ok_features: "check_ok (\<lambda>s. checkFeatures s target)"
  using checkFeatures_safe by (simp add: check_ok_def)

lemmas transaction_safe = runTransaction_safe [OF check_ok_features]

lemma config_type:
  "findTypeEntry IG_DEV_GETCONFIG0 v = Some type \<Longrightarrow> ack type \<and> inData type = 4"
  "findTypeEntry IG_DEV_GETCONFIG1 v = Some type \<Longrightarrow> ack type \<and> inData type = 4"
  by (auto simp: findTypeEntry_def types_def vt_def split: if_splits)

lemma oldPinStep_safe:
  assumes s: "steady s" "x < 2" and b: "8 \<le> length b"
    and c: "c = IG_DEV_SETPINCONFIG \<or> (c = IG_DEV_GETPINCONFIG \<and> request_ok (r\<lparr>code := 0\<rparr>))"
  shows "\<exists>ok b' t r' resp'. oldPinStep c x (Some b) s r False resp = Inr (ok, Some b', t, r', resp')
    \<and> same_env s t \<and> length b' = length b \<and> request_ok (r'\<lparr>code := 0\<rparr>)
    \<and> code r' = (if c = IG_DEV_SETPINCONFIG then IG_DEV_SETCONFIG0 else IG_DEV_GETCONFIG0) + word_of_nat x * 2"
proof -
  define r0 where "r0 = (if c = IG_DEV_SETPINCONFIG
             then r\<lparr>code := IG_DEV_SETCONFIG0 + word_of_nat x * 2, dataLen := 4, data := map_option (drop (x * 4)) (Some b)\<rparr>
             else r\<lparr>code := IG_DEV_GETCONFIG0 + word_of_nat x * 2\<rparr>)"
  have x: "x = 0 \<or> x = 1" using s(2) by auto
  have c0: "code r0 = (if c = IG_DEV_SETPINCONFIG then IG_DEV_SETCONFIG0 else IG_DEV_GETCONFIG0) + word_of_nat x * 2"
    by (simp add: r0_def)
  have rq: "request_ok r0" using x b c by (auto simp: r0_def request_ok_def)
  obtain ok t r' resp' where 1: "runTransaction (\<lambda>s. checkFeatures s UNKNOWN_FEATURES) s r0 False resp = Inr (ok, t, r', resp')"
    "same_env s t" "code r' = code r0 \<and> request_ok (r'\<lparr>code := 0\<rparr>)" "ok \<longrightarrow> (\<exists>type. checkIncomingProtocol (Some s) r0 False = Some type
        \<and> (ack type \<longrightarrow> (\<exists>p. resp' = Some p \<and> stored_ok p \<and> payloadMatch (uchar (inData type)) (uchar (dataLen p)))))"
    using transaction_safe [OF s(1) rq, of UNKNOWN_FEATURES False resp] by auto
  have step: "oldPinStep c x (Some b) s r False resp =
     (if \<not> ok then Inr (False, Some b, t, r', resp')
      else let (err, e) = packetIsError resp'; t = t\<lparr>errno := e\<rparr>
           in if err then Inr (False, Some b, t, r', resp')
              else if c = IG_DEV_GETPINCONFIG then
                bind_res (read_bytes (Option.bind resp' data) 4) (\<lambda>bs.
                  let block = Some (take (x * 4) b @ bs @ drop (x * 4 + 4) b)
                  in Inr (True, block, t, r', if x = 0 then None
                           else map_option (\<lambda>p. p\<lparr>code := c, dataLen := 8, data := block\<rparr>) resp'))
              else Inr (True, Some b, t, r', resp'))"
    unfolding oldPinStep_def Let_def r0_def [unfolded Let_def, symmetric]
    unfolding option.map(2) by (simp add: 1(1) split: prod.splits)
  show ?thesis
  proof (cases "ok \<and> c = IG_DEV_GETPINCONFIG")
    case False
    then show ?thesis unfolding step using 1(2,3) c0 by (auto simp: Let_def split: prod.splits)
  next
    case True
    then obtain type where ty: "checkIncomingProtocol (Some s) r0 False = Some type"
      "ack type \<longrightarrow> (\<exists>p. resp' = Some p \<and> stored_ok p \<and> payloadMatch (uchar (inData type)) (uchar (dataLen p)))"
      using 1(4) by blast
    have "code r0 = IG_DEV_GETCONFIG0 \<or> code r0 = IG_DEV_GETCONFIG1" using True x c0 by auto
    then have "ack type" "inData type = 4"
      using config_type checkIncomingProtocol_Some [OF ty(1)] by auto
    then obtain p bs where p: "resp' = Some p" "data p = Some bs" "4 \<le> int (length bs)"
      using ty(2) payload_exact [of 4] by (fastforce simp: stored_ok_def)
    then have "read_bytes (Option.bind resp' data) 4 = Inr (take 4 bs)" by (simp add: read_bytes_Some)
    then show ?thesis unfolding step using 1(2,3) c0 True x b p(3)
      by (auto simp: Let_def split: prod.splits)
  qed
qed

lemma oldPinConfig_safe:
  assumes s: "steady s" and r: "request_ok r" and c: "code r = IG_DEV_SETPINCONFIG \<or> code r = IG_DEV_GETPINCONFIG"
  shows "\<exists>ok t r' resp'. oldPinConfig s r False resp = Inr (ok, t, r', resp') \<and> same_env s t
    \<and> (ok \<longrightarrow> code r' = (if code r = IG_DEV_SETPINCONFIG then IG_DEV_SETCONFIG1 else IG_DEV_GETCONFIG1))"
proof -
  define b where "b = (if code r = IG_DEV_SETPINCONFIG then the (data r) else map (uninit s) [0..<8])"
  have blk: "(if code r = IG_DEV_SETPINCONFIG then data r else Some (map (uninit s) [0..<8])) = Some b"
    using r by (auto simp: b_def request_ok_def)
  have b: "8 \<le> length b" using r by (auto simp: b_def request_ok_def)
  have c1: "code r = IG_DEV_SETPINCONFIG \<or> (code r = IG_DEV_GETPINCONFIG \<and> request_ok (r\<lparr>code := 0\<rparr>))"
    using c r by (auto simp: request_ok_def)
  obtain ok b1 s1 r1 resp1 where 1: "oldPinStep (code r) 0 (Some b) s r False resp = Inr (ok, Some b1, s1, r1, resp1)"
    "same_env s s1" "length b1 = length b" "request_ok (r1\<lparr>code := 0\<rparr>)"
    using oldPinStep_safe [OF s _ b c1, of 0 resp] by auto
  obtain ok2 b2 s2 r2 resp2 where 2: "oldPinStep (code r) 1 (Some b1) s1 r1 False resp1 = Inr (ok2, Some b2, s2, r2, resp2)"
    "same_env s1 s2" "code r2 = (if code r = IG_DEV_SETPINCONFIG then IG_DEV_SETCONFIG0 else IG_DEV_GETCONFIG0) + 2"
  proof -
    have "8 \<le> length b1" using 1(3) b by simp
    moreover have "code r = IG_DEV_SETPINCONFIG \<or> (code r = IG_DEV_GETPINCONFIG \<and> request_ok (r1\<lparr>code := 0\<rparr>))"
      using c 1(4) by blast
    moreover have "1 < (2 :: nat)" by simp
    ultimately show ?thesis
      using oldPinStep_safe [OF steady_same [OF 1(2) s], of 1 b1 "code r" r1 resp1] that by auto
  qed
  have eq: "oldPinConfig s r False resp =
    (if \<not> ok then Inr (False, s1, if code r = IG_DEV_SETPINCONFIG then r1\<lparr>data := Some b\<rparr> else r1, resp1)
     else Inr (ok2, s2, if code r = IG_DEV_SETPINCONFIG then r2\<lparr>data := Some b\<rparr> else r2, resp2))"
    unfolding oldPinConfig_def Let_def blk using 1(1) 2(1) by simp
  have "same_env s s2" using 1(2) 2(2) by (rule same_env_trans)
  then show ?thesis unfolding eq using 1(2) 2(3) by auto
qed

text \<open>
  C6.  A transaction with a well-formed request ends in an ordinary result: no null pointer, no access
  outside a block, no division by zero, whatever the driver's send results are and whatever well-formed
  packets the reader queues, unsolicited ones included, provided that the reader stores no response in
  the moment in which the worker flushes old ones.  (It is the condition \<open>flushTears\<close>;
  \<open>torn_flush_crashes\<close> shows that it is needed.)  This is for callers that take the answer and for
  \<open>releaseClient\<close>, which passes NULL; pin configurations need the answer.  The device settings the clients
  control are left alone, and every packet taken from the device still has its notification.
\<close>

theorem deviceTransaction_safe:
  assumes "env_ok s" "request_ok r" "\<And>n. \<not> flushTears s n"
    and "null \<Longrightarrow> code r \<noteq> IG_DEV_SETPINCONFIG \<and> code r \<noteq> IG_DEV_GETPINCONFIG"
  shows "\<exists>ok t r' resp'. deviceTransaction s r null resp = Inr (ok, t, r', resp')
    \<and> maxPacketSize t = maxPacketSize s \<and> version t = version s \<and> carrier t = carrier s
    \<and> channels t = channels s \<and> receiverCount t = receiverCount s \<and> lag t = lag s"
proof -
  have s: "steady s" using assms(1,3) by (simp add: steady_def)
  show ?thesis
    using oldPinConfig_safe [OF s assms(2), of resp] transaction_safe [OF s assms(2), of UNKNOWN_FEATURES null resp] assms(4)
    unfolding deviceTransaction_def same_env_def by (cases null) auto
qed

theorem deviceTransaction_safe_witness:
  "(\<exists>ok t r' resp'. deviceTransaction devWorld0 (requestOf IG_DEV_GETVERSION) False None = Inr (ok, t, r', resp') \<and> carrier t = 38000)
   \<and> (\<exists>ok t r' resp'. deviceTransaction devWorld0 (requestOf IG_DEV_RECVOFF) True None = Inr (ok, t, r', resp') \<and> carrier t = 38000)"
proof -
  have e: "env_ok devWorld0" "\<And>n. \<not> flushTears devWorld0 n" by (simp_all add: env_ok_def wait_ok_def devWorld0_def)
  show ?thesis
    using deviceTransaction_safe [OF e(1) _ e(2), of "requestOf IG_DEV_GETVERSION" False None]
      deviceTransaction_safe [OF e(1) _ e(2), of "requestOf IG_DEV_RECVOFF" True None]
    by (auto simp: request_ok_def devWorld0_def)
qed

lemma awaitAck_answer:
  assumes "awaitAck type r s = Inr (True, pos, t)"
  shows "\<exists>p. pos = Some p \<and> code p = code r \<and> payloadMatch (uchar (inData type)) (uchar (dataLen p)) \<and> response t = None"
proof -
  obtain n u where u: "notified s = (n, u)" by (cases "notified s")
  then obtain q where q: "response u = Some q"
    using assms by (cases "response u") (auto simp: awaitAck_def split: if_splits)
  define p where "p = (if code r = IG_DEV_SETID \<and> code q = IG_DEV_WRITEBLOCK then q\<lparr>code := IG_DEV_SETID\<rparr> else q)"
  have "pos = Some p" "code p = code r" "payloadMatch (uchar (inData type)) (uchar (dataLen p))" "response t = None"
    using assms u q unfolding awaitAck_def p_def by (auto simp: Let_def split: if_splits)
  then show ?thesis by blast
qed

lemma streamArgs_code: "streamArgs f r s = Inr (as, r', t) \<Longrightarrow> code r' = code r"
  by (auto simp: streamArgs_def res_simps Let_def split: if_splits)

lemma packRequest_code:
  assumes "packRequest f r s = Inr (msg, n, r', t)"
  shows "code r' = code r"
proof -
  obtain c r1 s1 where 1: "deviceCode r s = Inr (c, r1, s1)"
    using assms by (cases "deviceCode r s") (auto simp: packRequest_def)
  obtain r2 where 2: "addChecksum (snd (translateDevice c (version s1) True)) r1 = Inr r2"
    using assms 1 by (auto simp: packRequest_def res_simps Let_def)
  have "code r' = code r2"
    using assms 1 2 streamArgs_code by (auto simp: packRequest_def res_simps Let_def split: if_splits)
  then show ?thesis using deviceCode_code [OF 1] addChecksum_code [OF 2] by simp
qed

text \<open>
  C7.  A successful transaction answers the request: for every code that is acknowledged, the packet
  handed back carries the request's code and a payload of the size the protocol table asks for, and the
  response slot is empty again.  (Pin configurations, which old devices get in two halves, apart.)
\<close>

theorem deviceTransaction_answers:
  assumes "env_ok s" "request_ok r"
    and "code r \<noteq> IG_DEV_SETPINCONFIG" "code r \<noteq> IG_DEV_GETPINCONFIG"
    and "deviceTransaction s r False resp = Inr (True, t, r', resp')"
  shows "\<exists>type. findTypeEntry (code r) (version s) = Some type \<and> direction type = CTL_TODEV
    \<and> payloadMatch (uchar (outData type)) (uchar (dataLen r))
    \<and> (ack type \<longrightarrow> (\<exists>p. resp' = Some p \<and> code p = code r
           \<and> payloadMatch (uchar (inData type)) (uchar (dataLen p)) \<and> response t = None))"
proof -
  let ?s = "s\<lparr>errno := EINVAL\<rparr>" and ?f = "\<lambda>s. checkFeatures s UNKNOWN_FEATURES"
  have run: "runTransaction ?f s r False resp = Inr (True, t, r', resp')"
    using assms(3-5) by (simp add: deviceTransaction_def)
  then obtain type where ty: "checkIncomingProtocol (Some s) r False = Some type"
    by (cases "checkIncomingProtocol (Some s) r False") (simp_all add: runTransaction_def)
  obtain msg n r1 s1 where 1: "packRequest ?f r ?s = Inr (msg, n, r1, s1)"
    using run ty by (cases "packRequest ?f r ?s") (auto simp: runTransaction_def)
  obtain ok s2 where 2: "sendRequest msg n r1 s1 = Inr (ok, s2)"
    using run ty 1 by (cases "sendRequest msg n r1 s1") (auto simp: runTransaction_def)
  have "awaitAck type r1 s2 = Inr (True, resp', t)" if "ack type"
    using run ty 1 2 that by (cases "awaitAck type r1 s2") (auto simp: runTransaction_def split: if_splits)
  then have "ack type \<longrightarrow> (\<exists>p. resp' = Some p \<and> code p = code r
           \<and> payloadMatch (uchar (inData type)) (uchar (dataLen p)) \<and> response t = None)"
    using awaitAck_answer packRequest_code [OF 1] by fastforce
  moreover have "findTypeEntry (code r) (version s) = Some type \<and> direction type = CTL_TODEV
    \<and> payloadMatch (uchar (outData type)) (uchar (dataLen r))"
    using ty by (auto simp: checkIncomingProtocol_def Let_def split: option.splits if_splits)
  ultimately show ?thesis by blast
qed

text \<open>A device that answers every wait with the given packets, and the rules that run a transaction on it.\<close>

definition answering :: "u16 \<Rightarrow> (nat \<Rightarrow> dataPacket) \<Rightarrow> devWorld" where
  "answering v answer = devWorld0\<lparr>version := v, waitRes := (\<lambda>n. Queued [(answer n, False)])\<rparr>"

lemma answering_env [simp]: "(\<And>n. stored_ok (answer n)) \<Longrightarrow> env_ok (answering v answer)"
  by (simp add: answering_def env_ok_def wait_ok_def devWorld0_def)

lemmas run_simps = deviceTransaction_def runTransaction_def checkIncomingProtocol_def packRequest_def
  deviceCode_def addChecksum_def isStream_def packData_def read_bytes_def sendRequest_def flush_eq
  injectToggleFix_def interruptSend_def awaitAck_def notified_def queueDataPacket_def answering_def
  devWorld0_def Let_def translateDevice_def findTypeEntry_def types_def vt_def payloadMatch_def uchar_def

theorem deviceTransaction_answers_witness:
  "\<exists>t r'. deviceTransaction (answering 0x308 (\<lambda>n. \<lparr>code = IG_DEV_GETVERSION, dataLen = 2, data = Some [8, 3]\<rparr>))
       (requestOf IG_DEV_GETVERSION) False None
       = Inr (True, t, r', Some \<lparr>code = IG_DEV_GETVERSION, dataLen = 2, data = Some [8, 3]\<rparr>)
     \<and> response t = None"
proof -
  let ?p = "\<lparr>code = IG_DEV_GETVERSION, dataLen = 2, data = Some [8, 3]\<rparr>"
  let ?s = "answering 0x308 (\<lambda>n. ?p)"
  obtain t r' where run: "deviceTransaction ?s (requestOf IG_DEV_GETVERSION) False None = Inr (True, t, r', Some ?p)"
    by (simp add: run_simps translateProtocol_def)
  have "env_ok ?s" by (simp add: stored_ok_def)
  moreover have "findTypeEntry IG_DEV_GETVERSION (version ?s)
      = Some \<lparr>pt_code = IG_DEV_GETVERSION, direction = CTL_TODEV, outData = NO_PAYLOAD, ack = True, inData = 2\<rparr>"
    by (simp add: findTypeEntry_def types_def vt_def)
  ultimately show ?thesis
    using deviceTransaction_answers [OF _ _ _ _ run] run by (simp add: request_ok_def)
qed

text \<open>
  The response that is torn by the flush makes the worker crash: its notification is taken for the answer
  of the request just sent, and there is no packet.
\<close>

theorem torn_flush_crashes:
  "deviceTransaction (devWorld0\<lparr>responsePipe := 1, response := Some \<lparr>code = IG_DEV_GETVERSION, dataLen = 2, data = Some [8, 3]\<rparr>,
     flushTears := (\<lambda>n. n = 0)\<rparr>) (requestOf IG_DEV_GETVERSION) False None = Inl NullDeref"
  by (simp add: run_simps translateProtocol_def)

section \<open>Old devices\<close>

text \<open>
  On firmware up to version 4 the translated code of SEND is 0x02, the current code of WRITEBLOCK:
  a transmission of exactly 68 bytes has its third and fourth byte replaced by a block checksum.
\<close>

theorem old_send_of_68_bytes_is_altered:
  assumes "version s \<le> 4" "length bs = 68"
  shows "\<exists>msg. packRequest checkF \<lparr>code = IG_DEV_SEND, dataLen = 68, data = Some bs\<rparr> s
    = Inr (msg, 0, \<lparr>code = IG_DEV_SEND, dataLen = 68,
         data = Some (bs[2 := ucast (drop_bit 8 (blockChecksum bs AND 0xFF00)), 3 := ucast (blockChecksum bs AND 0xFF)])\<rparr>, s)"
proof -
  have t: "snd (translateDevice IG_DEV_SEND (version s) True) = 2"
    using assms(1) by (simp add: translateDevice_def translateProtocol_def codeMaps_def codeMap0_def)
  have "version s AND 0xFF00 = 0"
  proof -
    have "unat (version s) \<le> 4" using assms(1) by (simp add: word_le_nat_alt)
    then have "unat (version s) = unat (0 :: u16) \<or> unat (version s) = unat (1 :: u16) \<or> unat (version s) = unat (2 :: u16)
        \<or> unat (version s) = unat (3 :: u16) \<or> unat (version s) = unat (4 :: u16)"
      by simp linarith
    then show ?thesis unfolding word_unat_eq_iff [symmetric] by (elim disjE) simp_all
  qed
  then show ?thesis
    using assms(2) t
    by (auto simp: packRequest_def deviceCode_def addChecksum_def isStream_def streamArgs_def carrierBytes_def Let_def)
qed

theorem old_send_of_68_bytes_is_altered_witness:
  "\<exists>msg. packRequest (\<lambda>s. Inr (False, s)) \<lparr>code = IG_DEV_SEND, dataLen = 68, data = Some (replicate 68 0x10)\<rparr>
        (devWorld0\<lparr>version := 3\<rparr>)
     = Inr (msg, 0, \<lparr>code = IG_DEV_SEND, dataLen = 68, data = Some ((replicate 68 0x10)[2 := 4, 3 := 0])\<rparr>,
          devWorld0\<lparr>version := 3\<rparr>)"
proof -
  have "blockChecksum (replicate 68 0x10) = 1024"
    by (simp add: blockChecksum_def sum_list_replicate)
  then show ?thesis
    using old_send_of_68_bytes_is_altered [of "devWorld0\<lparr>version := 3\<rparr>" "replicate 68 0x10" "\<lambda>s. Inr (False, s)"]
    by simp
qed

text \<open>
  A pin configuration request to a device of version 3 or less is served as two half requests, and
  the code of the second half stays in the request: the daemon answers its client with the code
  GETCONFIG1 or SETCONFIG1 instead of the code that was asked for.
\<close>

theorem old_pin_config_changes_code:
  assumes "steady s" "request_ok r" "version s \<le> 3"
    and "code r = IG_DEV_SETPINCONFIG \<or> code r = IG_DEV_GETPINCONFIG"
    and "deviceTransaction s r False resp = Inr (True, t, r', resp')"
  shows "code r' = (if code r = IG_DEV_SETPINCONFIG then IG_DEV_SETCONFIG1 else IG_DEV_GETCONFIG1)"
  using oldPinConfig_safe [OF assms(1,2,4), of resp] assms(3-5) by (auto simp: deviceTransaction_def)

definition halfAnswer :: "nat \<Rightarrow> dataPacket" where
  "halfAnswer n = (if n = 0 then \<lparr>code = IG_DEV_GETCONFIG0, dataLen = 4, data = Some [1, 2, 3, 4]\<rparr>
                   else \<lparr>code = IG_DEV_GETCONFIG1, dataLen = 4, data = Some [5, 6, 7, 8]\<rparr>)"

lemma half_run:
  "\<exists>t r' p. deviceTransaction (answering 3 halfAnswer) (requestOf IG_DEV_GETPINCONFIG) False None
     = Inr (True, t, r', Some p) \<and> data p = Some [1, 2, 3, 4, 5, 6, 7, 8]"
  by (simp add: run_simps oldPinConfig_def oldPinStep_def translateProtocol_def codeMaps_def codeMap0_def
      halfAnswer_def packetIsError_def requestOf_def DATA_PACKET_INIT_def)

theorem old_pin_config_changes_code_witness:
  "\<exists>t r' p. deviceTransaction (answering 3 halfAnswer) (requestOf IG_DEV_GETPINCONFIG) False None
     = Inr (True, t, r', Some p) \<and> code r' = IG_DEV_GETCONFIG1 \<and> data p = Some [1, 2, 3, 4, 5, 6, 7, 8]"
proof -
  obtain t r' p where run: "deviceTransaction (answering 3 halfAnswer) (requestOf IG_DEV_GETPINCONFIG) False None
     = Inr (True, t, r', Some p)" "data p = Some [1, 2, 3, 4, 5, 6, 7, 8]"
    using half_run by blast
  have "env_ok (answering 3 halfAnswer)" by (rule answering_env) (simp add: halfAnswer_def stored_ok_def)
  then have "steady (answering 3 halfAnswer)" by (simp add: steady_def answering_def devWorld0_def)
  then have "code r' = IG_DEV_GETCONFIG1"
    using old_pin_config_changes_code [OF _ _ _ _ run(1)] by (simp add: request_ok_def answering_def devWorld0_def)
  then show ?thesis using run by blast
qed

end
