(* ===== verification/Device_Reader.thy ===== *)
theory Device_Reader
  imports Device_Transactions
begin

text \<open>
  The reader thread: what it stores is well formed and announced, signals arrive in order, and the
  limits of its error handling.
\<close>

section \<open>What the reader stores\<close>

definition reader_ok :: "devWorld \<Rightarrow> bool" where
  "reader_ok s \<longleftrightarrow> list_all stored_ok (recvList s) \<and> slot_ok s"

lemma queue_reader_ok:
  "reader_ok s \<Longrightarrow> stored_ok p \<Longrightarrow> reader_ok (queueDataPacket s p f) \<and> lag (queueDataPacket s p f) = lag s"
  by (auto simp: reader_ok_def queueDataPacket_def slot_ok_def lag_def)

lemma storePacket_ok:
  assumes "storePacket buf toggle evs s = Inr (Some (len, toggle', evs', s'))" "reader_ok s"
  shows "reader_ok s' \<and> lag s' = lag s"
proof -
  obtain c payload where c: "classify (version s) buf = (c, payload)" by (cases "classify (version s) buf")
  show ?thesis
  proof (cases "\<exists>t. findTypeEntry c (version s) = Some t \<and> inData t \<noteq> NO_PAYLOAD \<and> int (length payload) < inData t")
    case False
    have "stored_ok \<lparr>code = c, dataLen = int (length payload), data = Some payload\<rparr>" by (simp add: stored_ok_def)
    then show ?thesis
      using assms False c queue_reader_ok by (auto simp: storePacket_def Let_def split: option.splits if_splits)
  next
    case True
    then obtain t got where t: "findTypeEntry c (version s) = Some t" "int (length payload) < inData t"
      "collect (fixToggle s) (maxPacketSize s) (nat (inData t)) payload (int (length buf)) toggle evs
         = Inr (Some (got, len, toggle', evs'))"
      "s' = queueDataPacket s \<lparr>code = c, dataLen = int (length got),
              data = Some (got @ map (uninit s) [length got..<nat (inData t)])\<rparr> (direction t \<noteq> CTL_TODEV)"
      using assms(1) c by (auto simp: storePacket_def res_simps)
    then show ?thesis using queue_reader_ok assms(2) by (simp add: stored_ok_def)
  qed
qed

lemma recvError_ok:
  "recvError e st prev toggle s = (len, toggle', brk, s') \<Longrightarrow> reader_ok s \<Longrightarrow> reader_ok s' \<and> lag s' = lag s"
  by (auto simp: recvError_def reader_ok_def slot_ok_def lag_def split: if_splits)

lemma small_steps_ok:
  "reader_ok (noteTraffic s) = reader_ok s" "lag (noteTraffic s) = lag s"
  "reader_ok (closeReader s) = reader_ok s" "lag (closeReader s) = lag s"
  by (auto simp: noteTraffic_def closeReader_def reader_ok_def slot_ok_def lag_def)

lemma storePacket_note:
  "storePacket buf toggle evs (noteTraffic s) = Inr (Some (len, toggle', evs', s')) \<Longrightarrow> reader_ok s \<Longrightarrow>
     reader_ok s' \<and> lag s' = lag s"
  using storePacket_ok small_steps_ok by metis

fun turn_state :: "turn \<Rightarrow> devWorld" where
  "turn_state (Leave s) = s"
| "turn_state (Waiting s) = s"
| "turn_state (Again len toggle evs s) = s"

lemma readerTurn_ok:
  "readerTurn ev prev toggle evs s = Inr t \<Longrightarrow> reader_ok s \<Longrightarrow> reader_ok (turn_state t) \<and> lag (turn_state t) = lag s"
  by (auto simp: readerTurn_def Let_def res_simps small_steps_ok dest: recvError_ok
      split: recvResult.splits prod.splits if_splits option.splits) (blast dest: storePacket_note)+

lemma readerLoop_ok:
  "readerLoop len prev toggle evs s = Inr (ended, s') \<Longrightarrow> reader_ok s \<Longrightarrow> reader_ok s' \<and> lag s' = lag s"
proof (induction len prev toggle evs s rule: readerLoop.induct)
  case (1 len prev toggle evs s)
  show ?case
  proof (cases "len < 0 \<or> evs = [] \<or> ev_quit (hd evs)")
    case True
    then show ?thesis using "1.prems" by (subst (asm) readerLoop.simps) (auto simp: small_steps_ok split: if_splits list.splits)
  next
    case False
    then obtain ev rest where e: "evs = ev # rest" "\<not> ev_quit ev" "\<not> len < 0" by (cases evs) auto
    obtain t where t: "readerTurn ev prev toggle rest s = Inr t"
      using "1.prems"(1) e by (subst (asm) readerLoop.simps) (auto split: sum.splits)
    show ?thesis
    proof (cases t)
      case (Again len' toggle' evs' s1)
      then have "readerLoop len' len' toggle' evs' s1 = Inr (ended, s')"
        using "1.prems"(1) e t by (subst (asm) readerLoop.simps) simp
      then show ?thesis using "1.IH" [OF e(3,1,2) t Again] readerTurn_ok [OF t "1.prems"(2)] Again by simp
    qed (use "1.prems" e t readerTurn_ok [OF t] in \<open>subst (asm) readerLoop.simps, auto simp: small_steps_ok\<close>)+
  qed
qed

text \<open>
  C9.  The reader keeps its promises to the worker thread: however reads end, every packet it stores has
  a block of at least its length, a pending response notification has a packet in the response slot, and
  received packets and their notifications stay in step.
\<close>

theorem handleIncomingPackets_invariant:
  assumes "handleIncomingPackets evs s = Inr (ended, s')" "reader_ok s"
  shows "reader_ok s' \<and> lag s' = lag s"
  using readerLoop_ok [of 0 0 True evs _ ended s'] assms
  by (auto simp: handleIncomingPackets_def reader_ok_def slot_ok_def split: if_splits)

definition got :: "byte list \<Rightarrow> recvEvent" where
  "got bs = \<lparr>ev_quit = False, ev_stopped = False, ev_result = Received bs\<rparr>"

definition failed :: "int \<Rightarrow> recvEvent" where
  "failed e = \<lparr>ev_quit = False, ev_stopped = False, ev_result = RecvFailed e\<rparr>"

lemmas reader_simps = handleIncomingPackets_def readerLoop.simps readerTurn_def storePacket_def classify_def
  got_def failed_def collect.simps noteTraffic_def queueDataPacket_def closeReader_def recvError_def Let_def

theorem handleIncomingPackets_invariant_witness:
  "\<exists>s'. handleIncomingPackets [got [0, 0, 0xDC, 0x01, 8, 3], failed ETIMEDOUT] devWorld0 = Inr (False, s')
     \<and> reader_ok s' \<and> lag s' = 0"
proof -
  obtain s' where s': "handleIncomingPackets [got [0, 0, 0xDC, 0x01, 8, 3], failed ETIMEDOUT] devWorld0 = Inr (False, s')"
    by (simp add: reader_simps devWorld0_def findTypeEntry_def types_def vt_def translateDevice_def translateProtocol_def)
  have "reader_ok devWorld0" "lag devWorld0 = 0" by (simp_all add: reader_ok_def slot_ok_def lag_def devWorld0_def)
  then show ?thesis using handleIncomingPackets_invariant [OF s'] s' by simp
qed

section \<open>Signals arrive in order\<close>

text \<open>A packet without the control header of a device response.\<close>

definition is_signal :: "byte list \<Rightarrow> bool" where
  "is_signal bs \<longleftrightarrow> bs \<noteq> [] \<and> take 3 bs \<noteq> [CTL_START, CTL_START, CTL_FROMDEV]"

definition signal_packet :: "byte list \<Rightarrow> dataPacket" where
  "signal_packet bs = \<lparr>code = IG_DEV_RECV, dataLen = int (length bs) - 1, data = Some (butlast bs)\<rparr>"

lemma classify_signal: "is_signal bs \<Longrightarrow> classify v bs = (IG_DEV_RECV, butlast bs)"
proof -
  assume s: "is_signal bs"
  have "\<not> (4 \<le> length bs \<and> bs ! 0 = 0 \<and> bs ! 1 = 0 \<and> bs ! 2 = 0xDC)"
  proof
    assume a: "4 \<le> length bs \<and> bs ! 0 = 0 \<and> bs ! 1 = 0 \<and> bs ! 2 = 0xDC"
    then have "take 3 bs = [bs ! 0, bs ! 1, bs ! 2]"
      by (cases bs; cases "tl bs"; cases "tl (tl bs)") (auto simp: numeral_3_eq_3)
    then show False using a s by (simp add: is_signal_def)
  qed
  then show ?thesis by (auto simp: classify_def butlast_conv_take)
qed

lemma recv_type: "findTypeEntry IG_DEV_RECV v = Some \<lparr>pt_code = IG_DEV_RECV, direction = CTL_FROMDEV,
    outData = NO_PAYLOAD, ack = False, inData = ANY_PAYLOAD\<rparr>"
  by (simp add: findTypeEntry_def types_def vt_def)

lemma signal_turn:
  assumes "is_signal bs" "\<not> fixToggle s"
  shows "readerTurn (got bs) prev toggle evs s
    = Inr (Again (int (length bs)) toggle evs (queueDataPacket s (signal_packet bs) True))"
proof -
  have "bs \<noteq> []" using assms(1) by (simp add: is_signal_def)
  then have "int (length (butlast bs)) = int (length bs) - 1" by (simp add: of_nat_diff Suc_leI)
  then show ?thesis using assms(2) classify_signal [OF assms(1)] recv_type \<open>bs \<noteq> []\<close>
    by (simp add: readerTurn_def got_def noteTraffic_def storePacket_def signal_packet_def)
qed

lemma signals_loop:
  assumes "list_all is_signal bss" "\<not> fixToggle s" "0 \<le> len"
  shows "readerLoop len prev toggle (map got bss) s
    = Inr (False, s\<lparr>recvList := recvList s @ map signal_packet bss, readerPipe := readerPipe s + length bss\<rparr>)"
  using assms
proof (induction bss arbitrary: len prev s)
  case Nil
  then show ?case by (simp add: readerLoop.simps)
next
  case (Cons bs bss)
  let ?s = "queueDataPacket s (signal_packet bs) True"
  have "readerLoop len prev toggle (map got (bs # bss)) s = readerLoop (int (length bs)) (int (length bs)) toggle (map got bss) ?s"
    using Cons.prems signal_turn [of bs s prev toggle "map got bss"] by (subst readerLoop.simps) (simp add: got_def)
  also have "\<dots> = Inr (False, ?s\<lparr>recvList := recvList ?s @ map signal_packet bss, readerPipe := readerPipe ?s + length bss\<rparr>)"
    using Cons.prems by (intro Cons.IH) (simp_all add: queueDataPacket_def)
  finally show ?case by (simp add: queueDataPacket_def)
qed

text \<open>
  C21.  Signal packets reach the receive list one for one, in the order they came in, without their last
  byte (the fill level of the device's buffer), and each with one notification.
\<close>

theorem handleIncomingPackets_signals:
  assumes "list_all is_signal bss" "\<not> fixToggle s"
  shows "handleIncomingPackets (map got bss) s
    = Inr (False, s\<lparr>recvList := recvList s @ map signal_packet bss, readerPipe := readerPipe s + length bss\<rparr>)"
  using signals_loop [OF assms] assms(2) by (simp add: handleIncomingPackets_def)

theorem handleIncomingPackets_signals_witness:
  "\<exists>s'. handleIncomingPackets (map got [[1, 2, 7], [0x83, 6]]) devWorld0 = Inr (False, s')
     \<and> map data (recvList s') = [Some [1, 2], Some [0x83]] \<and> readerPipe s' = 2"
  using handleIncomingPackets_signals [of "[[1, 2, 7], [0x83, 6]]" devWorld0]
  by (simp add: is_signal_def signal_packet_def devWorld0_def)

section \<open>Errors\<close>

lemma epipe_loop:
  assumes "\<not> disconnectOnEPipe s"
  shows "readerLoop 0 0 toggle (replicate n (failed EPIPE)) s = Inr (False, s)"
  using assms by (induction n) (simp_all add: readerLoop.simps readerTurn_def failed_def recvError_def)

text \<open>
  A device whose reads fail with EPIPE is never given up in the default configuration, however
  often they fail: the check for a second failure in a row looks at the length the code has just reset.
\<close>

theorem repeated_epipe_never_disconnects:
  assumes "\<not> disconnectOnEPipe s" "\<not> fixToggle s"
  shows "handleIncomingPackets (replicate n (failed EPIPE)) s = Inr (False, s)"
  using epipe_loop [OF assms(1)] assms(2) by (simp add: handleIncomingPackets_def)

theorem repeated_epipe_never_disconnects_witness:
  "handleIncomingPackets (replicate 1000 (failed EPIPE)) devWorld0 = Inr (False, devWorld0)"
  by (rule repeated_epipe_never_disconnects) (simp_all add: devWorld0_def)

lemma collect_full_packets:
  assumes "list_all (\<lambda>p. length p = m) ps" "0 < m" "n \<le> length stored + m * length ps" "length stored + m * length ps < n + m"
    and "length stored \<le> n"
  shows "if n = length stored + m * length ps
    then \<exists>len' toggle'. collect fix m n stored len toggle (map got ps) = Inr (Some (stored @ concat ps, len', toggle', [])) \<and> (0 \<le> len \<longrightarrow> 0 \<le> len')
    else collect fix m n stored len toggle (map got ps) = Inl OutOfBounds"
  using assms
proof (induction ps arbitrary: stored len toggle)
  case Nil
  then show ?case by (simp add: collect.simps)
next
  case (Cons q ps)
  let ?tg = "if fix then \<not> toggle else toggle"
  have q: "length q = m" "list_all (\<lambda>p. length p = m) ps" using Cons.prems(1) by simp_all
  have l: "length stored < n" using Cons.prems(4) by (simp add: mult_Suc_right)
  have step: "collect fix m n stored len toggle (map got (q # ps)) =
      (if n < length stored + m then Inl OutOfBounds else collect fix m n (stored @ q) (int m) ?tg (map got ps))"
    using q(1) l Cons.prems(2) by (subst collect.simps) (simp add: got_def Let_def)
  show ?case
  proof (cases "n < length stored + m")
    case True
    then show ?thesis using step by simp
  next
    case False
    have ih: "if n = length (stored @ q) + m * length ps
      then \<exists>len' toggle'. collect fix m n (stored @ q) (int m) ?tg (map got ps)
             = Inr (Some ((stored @ q) @ concat ps, len', toggle', [])) \<and> (0 \<le> int m \<longrightarrow> 0 \<le> len')
      else collect fix m n (stored @ q) (int m) ?tg (map got ps) = Inl OutOfBounds"
      by (rule Cons.IH) (use Cons.prems q False in \<open>simp_all add: mult_Suc_right\<close>)
    have "length (stored @ q) + m * length ps = length stored + m * length (q # ps)" using q(1) by simp
    with ih show ?thesis using step False by (simp only: append_assoc concat.simps if_False) auto
  qed
qed

text \<open>
  C40.  The block for a long payload has the size the protocol table gives, but every packet of the rest is
  copied whole.  For a device that fills its packets, with any code whose payload continues behind the
  control packet: with as many packets as the payload needs, the reader writes past the end of the block
  just when the rest of the payload is not a multiple of the packet size; otherwise the payload is stored
  whole.  The witness is GETPINCONFIG on the 8-byte endpoint, whose rest is 4 bytes.
\<close>

theorem long_payload_overflows:
  assumes "buf \<noteq> []" "classify (version s) buf = (c, payload)" "findTypeEntry c (version s) = Some t" "inData t \<noteq> NO_PAYLOAD"
    and "int (length payload) < inData t" "0 < maxPacketSize s" "list_all (\<lambda>p. length p = maxPacketSize s) ps"
    and "nat (inData t) \<le> length payload + maxPacketSize s * length ps"
    and "length payload + maxPacketSize s * length ps < nat (inData t) + maxPacketSize s"
  shows "if maxPacketSize s dvd (nat (inData t) - length payload)
    then \<exists>s' p. handleIncomingPackets (map got (buf # ps)) s = Inr (False, s') \<and> data p = Some (payload @ concat ps)
           \<and> (response s' = Some p \<or> recvList s' = recvList s @ [p])
    else handleIncomingPackets (map got (buf # ps)) s = Inl OutOfBounds"
proof -
  let ?m = "maxPacketSize s" and ?n = "nat (inData t)"
  define s0 where "s0 = (if fixToggle s then s\<lparr>willFail := False, firstTimeout := True\<rparr> else s)"
  define toggle where "toggle = (\<not> fixToggle s)"
  have s0: "noteTraffic s0 = s0" "version s0 = version s" "maxPacketSize s0 = ?m" "fixToggle s0 = fixToggle s"
    "recvList s0 = recvList s" by (simp_all add: s0_def noteTraffic_def)
  have run: "handleIncomingPackets (map got (buf # ps)) s =
      (case storePacket buf toggle (map got ps) s0 of
         Inl f \<Rightarrow> Inl f
       | Inr None \<Rightarrow> Inr (False, s0)
       | Inr (Some (len, tg, evs, s')) \<Rightarrow> readerLoop len len tg evs s')"
    using assms(1) s0(1,4)
    by (simp add: handleIncomingPackets_def flip: s0_def)
       (subst readerLoop.simps, simp add: readerTurn_def got_def toggle_def Let_def split: sum.split option.split)
  have store: "storePacket buf toggle (map got ps) s0 =
      bind_res (collect (fixToggle s) ?m ?n payload (int (length buf)) toggle (map got ps))
        (\<lambda>r. Inr (map_option (\<lambda>(stored, len, toggle, evs). (len, toggle, evs,
           queueDataPacket s0 \<lparr>code = c, dataLen = int (length stored),
             data = Some (stored @ map (uninit s0) [length stored..<?n])\<rparr> (direction t \<noteq> CTL_TODEV))) r))"
    using assms(2-5) s0 by (simp add: storePacket_def Let_def)
  have "length payload \<le> ?n" using assms(5) by auto
  note full = collect_full_packets [OF assms(7,6,8,9) this, of "fixToggle s" "int (length buf)" toggle]
  have k: "?n - length payload = ?m * length ps \<longleftrightarrow> ?n = length payload + ?m * length ps" using assms(5) by auto
  have d: "?m dvd (?n - length payload) \<longleftrightarrow> ?n = length payload + ?m * length ps"
  proof
    assume "?m dvd (?n - length payload)"
    then obtain q where q: "?n - length payload = ?m * q" by (auto elim: dvdE)
    have "?m * q \<le> ?m * length ps" using q assms(8) by linarith
    moreover have "?m * length ps < ?m * (q + 1)" using q assms(5,9) by (simp only: distrib_left mult_1_right)
    ultimately have "q \<le> length ps \<and> length ps < q + 1" using assms(6) by (metis nat_mult_le_cancel1 nat_mult_less_cancel1)
    then have "q = length ps" by linarith
    then show "?n = length payload + ?m * length ps" using q k by simp
  qed (use k in auto)
  show ?thesis
  proof (cases "?n = length payload + ?m * length ps")
    case True
    obtain len' tg where c: "collect (fixToggle s) ?m ?n payload (int (length buf)) toggle (map got ps)
        = Inr (Some (payload @ concat ps, len', tg, []))" "0 \<le> len'" using full True by auto
    have l: "length (payload @ concat ps) = ?n"
      using assms(7) True by (simp add: length_concat list_all_iff cong: map_cong) (simp add: sum_list_triv mult.commute)
    let ?p = "\<lparr>code = c, dataLen = int (length (payload @ concat ps)), data = Some (payload @ concat ps)\<rparr>"
    let ?s = "queueDataPacket s0 ?p (direction t \<noteq> CTL_TODEV)"
    have "storePacket buf toggle (map got ps) s0 = Inr (Some (len', tg, [], ?s))"
    proof -
      have "map (uninit s0) [length (payload @ concat ps)..<?n] = []" using l by simp
      then show ?thesis by (simp only: store c(1) bind_res_simps option.map prod.case append_Nil2)
    qed
    then have "handleIncomingPackets (map got (buf # ps)) s = Inr (False, ?s)"
      using run c(2) by (simp add: readerLoop.simps)
    moreover have "response ?s = Some ?p \<or> recvList ?s = recvList s @ [?p]" using s0(5) by (simp add: queueDataPacket_def)
    ultimately show ?thesis using d True by (auto intro!: exI [of _ ?s] exI [of _ ?p])
  next
    case False
    then show ?thesis using d run store full False by simp
  qed
qed

theorem long_payload_overflows_witness:
  "handleIncomingPackets (map got [[0, 0, 0xDC, 0x1A, 1, 2, 3, 4], [5, 6, 7, 8, 9, 10, 11, 12]]) devWorld0 = Inl OutOfBounds"
proof -
  let ?t = "\<lparr>pt_code = IG_DEV_GETPINCONFIG, direction = CTL_TODEV, outData = NO_PAYLOAD, ack = True, inData = 8\<rparr>"
  have c: "classify (version devWorld0) [0, 0, 0xDC, 0x1A, 1, 2, 3, 4] = (IG_DEV_GETPINCONFIG, [1, 2, 3, 4])"
    by (simp add: classify_def devWorld0_def translateDevice_def translateProtocol_def)
  have t: "findTypeEntry IG_DEV_GETPINCONFIG (version devWorld0) = Some ?t"
    by (simp add: findTypeEntry_def types_def vt_def devWorld0_def)
  show ?thesis
    using long_payload_overflows [OF _ c t, of "[[5, 6, 7, 8, 9, 10, 11, 12]]"] by (simp add: devWorld0_def)
qed

text \<open>
  A timeout is tolerated between packets but not inside of a payload: there the reader stores what
  it has and then ends, which shuts the device down.
\<close>

theorem timeout_inside_payload_ends_reader:
  "\<exists>s'. handleIncomingPackets [failed ETIMEDOUT, got [0, 0, 0xDC, 0x20, 1, 2, 3, 4], failed ETIMEDOUT, got [1, 2]] devWorld0
     = Inr (True, s') \<and> \<not> readerOpen s' \<and> response s' \<noteq> None"
  by (simp add: reader_simps devWorld0_def findTypeEntry_def types_def vt_def translateDevice_def translateProtocol_def)

end
