(* ===== verification/Item_List.thy ===== *)
theory Item_List
  imports Prelude
begin

text \<open>
  \<open>list.c\<close>: the intrusive doubly linked list every queue of the daemon and the client is kept in
  (received packets, clients, devices, tasks).  The model is the pointer code on an explicit store: a
  store maps item addresses to headers and list addresses to list headers, and every assignment of
  the source is an update of the store.  \<open>lrep h l xs\<close> says that the list at \<open>l\<close> holds the items \<open>xs\<close> in
  order; the operations are shown to be the obvious functions on \<open>xs\<close>, and \<open>fifo\<close> is the queue
  contract the other components rely on.
\<close>

section \<open>The store and the operations\<close>

type_synonym addr = nat
type_synonym laddr = nat

record itemHeader =
  i_prev :: "addr option"
  i_next :: "addr option"
  i_list :: "laddr option"

record listHeader =
  l_head :: "addr option"
  l_tail :: "addr option"
  l_count :: u32

record heap =
  items :: "addr \<Rightarrow> itemHeader"
  lists :: "laddr \<Rightarrow> listHeader"

definition set_item :: "addr \<Rightarrow> (itemHeader \<Rightarrow> itemHeader) \<Rightarrow> heap \<Rightarrow> heap" where
  "set_item a f h = h\<lparr>items := (items h)(a := f (items h a))\<rparr>"

definition set_list :: "laddr \<Rightarrow> (listHeader \<Rightarrow> listHeader) \<Rightarrow> heap \<Rightarrow> heap" where
  "set_list l f h = h\<lparr>lists := (lists h)(l := f (lists h l))\<rparr>"

definition initializeList :: "heap \<Rightarrow> laddr \<Rightarrow> heap" where
  "initializeList h l = set_list l (\<lambda>_. \<lparr>l_head = None, l_tail = None, l_count = 0\<rparr>) h"

definition insertItem :: "heap \<Rightarrow> laddr \<Rightarrow> addr option \<Rightarrow> addr \<Rightarrow> heap" where
  "insertItem h l pos item =
     (let h = set_item item (i_next_update (\<lambda>_. pos)) h;
          before = (case pos of None \<Rightarrow> l_tail (lists h l) | Some p \<Rightarrow> i_prev (items h p));
          h = set_item item (i_prev_update (\<lambda>_. before)) h;
          h = (case before of
                 None \<Rightarrow> set_list l (l_head_update (\<lambda>_. Some item)) h
               | Some b \<Rightarrow> set_item b (i_next_update (\<lambda>_. Some item)) h);
          h = (case pos of
                 None \<Rightarrow> set_list l (l_tail_update (\<lambda>_. Some item)) h
               | Some p \<Rightarrow> set_item p (i_prev_update (\<lambda>_. Some item)) h);
          h = set_list l (l_count_update (\<lambda>n. n + 1)) h
      in set_item item (i_list_update (\<lambda>_. Some l)) h)"

definition firstItem :: "heap \<Rightarrow> laddr \<Rightarrow> addr option" where
  "firstItem h l = l_head (lists h l)"

definition removeObject :: "heap \<Rightarrow> laddr \<Rightarrow> addr option \<Rightarrow> addr option \<Rightarrow> heap" where
  "removeObject h l before after =
     (let h = (case before of
                 None \<Rightarrow> set_list l (l_head_update (\<lambda>_. after)) h
               | Some b \<Rightarrow> set_item b (i_next_update (\<lambda>_. after)) h);
          h = (case after of
                 None \<Rightarrow> set_list l (l_tail_update (\<lambda>_. before)) h
               | Some a \<Rightarrow> set_item a (i_prev_update (\<lambda>_. before)) h)
      in set_list l (l_count_update (\<lambda>n. n - 1)) h)"

text \<open>\<open>removeItem\<close> of an item that is in no list writes through its NULL list pointer.\<close>

definition removeItem :: "heap \<Rightarrow> addr option \<Rightarrow> (addr option \<times> heap) res" where
  "removeItem h pos =
     (case pos of
        None \<Rightarrow> Inr (None, h)
      | Some p \<Rightarrow>
          (case i_list (items h p) of
             None \<Rightarrow> Inl NullDeref
           | Some l \<Rightarrow>
               Inr (pos, set_item p (\<lambda>_. \<lparr>i_prev = None, i_next = None, i_list = None\<rparr>)
                           (removeObject h l (i_prev (items h p)) (i_next (items h p))))))"

definition removeFirstItem :: "heap \<Rightarrow> laddr \<Rightarrow> (addr option \<times> heap) res" where
  "removeFirstItem h l = removeItem h (l_head (lists h l))"

text \<open>
  The loop of \<open>forEach\<close>.  The action works on its user data; it says whether to keep the item.  An
  ill-formed store can make the loop run forever, so its result is optional.
\<close>

partial_function (option) forEachLoop ::
    "('s \<Rightarrow> addr \<Rightarrow> bool \<times> 's) \<Rightarrow> laddr \<Rightarrow> heap \<Rightarrow> addr option \<Rightarrow> addr option \<Rightarrow> 's \<Rightarrow> (heap \<times> 's) option" where
  "forEachLoop action l h before pos s =
     (case pos of
        None \<Rightarrow> Some (h, s)
      | Some p \<Rightarrow>
          (let after = i_next (items h p); r = action s p
           in if fst r then forEachLoop action l h (Some p) after (snd r)
              else forEachLoop action l (removeObject h l before after) before after (snd r)))"

definition forEach :: "('s \<Rightarrow> addr \<Rightarrow> bool \<times> 's) \<Rightarrow> heap \<Rightarrow> laddr \<Rightarrow> 's \<Rightarrow> (heap \<times> 's) option" where
  "forEach action h l s = forEachLoop action l h None (l_head (lists h l)) s"

section \<open>Abstraction\<close>

definition hd_opt :: "'a option \<Rightarrow> 'a list \<Rightarrow> 'a option" where
  "hd_opt e xs = (case xs of [] \<Rightarrow> e | x # _ \<Rightarrow> Some x)"

definition last_opt :: "'a option \<Rightarrow> 'a list \<Rightarrow> 'a option" where
  "last_opt e xs = (if xs = [] then e else Some (last xs))"

text \<open>A doubly linked segment: \<open>pv\<close> is what precedes it and \<open>nx\<close> what follows it.\<close>

fun dseg :: "(addr \<Rightarrow> itemHeader) \<Rightarrow> addr option \<Rightarrow> addr list \<Rightarrow> addr option \<Rightarrow> bool" where
  "dseg it pv [] nx = True"
| "dseg it pv (x # xs) nx =
     (i_prev (it x) = pv \<and> i_next (it x) = hd_opt nx xs \<and> dseg it (Some x) xs nx)"

definition lrep :: "heap \<Rightarrow> laddr \<Rightarrow> addr list \<Rightarrow> bool" where
  "lrep h l xs \<longleftrightarrow>
     distinct xs \<and> l_head (lists h l) = hd_opt None xs \<and> l_tail (lists h l) = last_opt None xs
     \<and> l_count (lists h l) = word_of_nat (length xs)
     \<and> dseg (items h) None xs None \<and> (\<forall>x \<in> set xs. i_list (items h x) = Some l)"

text \<open>What the loop of \<open>forEach\<close> computes on the represented list.\<close>

fun visit :: "('s \<Rightarrow> 'a \<Rightarrow> bool \<times> 's) \<Rightarrow> 's \<Rightarrow> 'a list \<Rightarrow> 'a list \<times> 's" where
  "visit action s [] = ([], s)"
| "visit action s (x # xs) =
     (let r = action s x; t = visit action (snd r) xs
      in (if fst r then x # fst t else fst t, snd t))"

section \<open>Segments\<close>

lemma opt_simps [simp]:
  "hd_opt e [] = e" "hd_opt e (x # xs) = Some x"
  "last_opt e [] = e" "last_opt e (xs @ [x]) = Some x" "last_opt e [x] = Some x"
  "last_opt e (xs @ y # ys) = last_opt (Some y) ys" "last_opt (Some y) ys = Some (last (y # ys))"
  "last_opt e (x # y # ys) = last_opt e (y # ys)"
  by (simp_all add: hd_opt_def last_opt_def)

lemma hd_opt_append: "hd_opt e (xs @ ys) = hd_opt (hd_opt e ys) xs"
  by (simp add: hd_opt_def split: list.split)

lemma dseg_append: "dseg it pv (as @ bs) nx \<longleftrightarrow> dseg it pv as (hd_opt nx bs) \<and> dseg it (last_opt pv as) bs nx"
proof (induction as arbitrary: pv)
  case (Cons a as)
  have "last_opt pv (a # as) = last_opt (Some a) as" by (simp add: last_opt_def)
  with Cons show ?case by (simp add: hd_opt_append)
qed simp

lemma dseg_upd_other [simp]: "a \<notin> set xs \<Longrightarrow> dseg (it(a := v)) pv xs nx = dseg it pv xs nx"
  by (induction xs arbitrary: pv) auto

lemma dseg_cong: "(\<And>x. x \<in> set xs \<Longrightarrow> i_prev (it x) = i_prev (it' x) \<and> i_next (it x) = i_next (it' x)) \<Longrightarrow>
    dseg it pv xs nx = dseg it' pv xs nx"
  by (induction xs arbitrary: pv) auto

lemma dseg_set_next_last:
  assumes "dseg it pv as nx" "distinct as" "as \<noteq> []"
  shows "dseg (it(last as := (it (last as))\<lparr>i_next := nx'\<rparr>)) pv as nx'"
  using assms
proof (induction as arbitrary: pv)
  case (Cons a as)
  then show ?case
    by (cases as) (auto simp: last_in_set split: if_splits)
qed simp

lemma dseg_set_prev_hd:
  assumes "dseg it pv (b # bs) nx" "b \<notin> set bs"
  shows "dseg (it(b := (it b)\<lparr>i_prev := pv'\<rparr>)) pv' (b # bs) nx"
  using assms by simp

lemma dseg_hd_any: "dseg it pv xs nx \<Longrightarrow> xs \<noteq> [] \<Longrightarrow> i_prev (it (hd xs)) = pv"
  by (cases xs) auto

lemma last_opt_other: "y \<in> set bs \<Longrightarrow> set as \<inter> set bs = {} \<Longrightarrow> Some y \<noteq> last_opt None as"
  by (metis disjoint_iff last_in_set last_opt_def option.distinct(1) option.inject)

section \<open>Insertion\<close>

lemmas store_defs = set_item_def set_list_def

lemma dseg_insert:
  assumes seg: "dseg it None (as @ bs) None" and d: "distinct (as @ bs)" and x: "x \<notin> set (as @ bs)"
    and it': "it' x = \<lparr>i_prev = last_opt None as, i_next = hd_opt None bs, i_list = o'\<rparr>"
    and same: "\<And>y. y \<in> set (as @ bs) \<Longrightarrow>
        i_next (it' y) = (if Some y = last_opt None as then Some x else i_next (it y)) \<and>
        i_prev (it' y) = (if Some y = hd_opt None bs then Some x else i_prev (it y))"
  shows "dseg it' None (as @ x # bs) None"
proof -
  have sa: "dseg it None as (hd_opt None bs)" and sb: "dseg it (last_opt None as) bs None"
    using seg by (simp_all add: dseg_append)
  have a: "dseg it' None as (Some x)"
  proof (cases "as = []")
    case False
    let ?f = "it(last as := (it (last as))\<lparr>i_next := Some x\<rparr>)"
    have "dseg ?f None as (Some x)"
      using dseg_set_next_last [OF sa _ False] d by simp
    moreover have "dseg ?f None as (Some x) = dseg it' None as (Some x)"
    proof (rule dseg_cong)
      fix y assume y: "y \<in> set as"
      then have "Some y \<noteq> hd_opt None bs" using d by (cases bs) auto
      with y same [of y] False show "i_prev (?f y) = i_prev (it' y) \<and> i_next (?f y) = i_next (it' y)"
        by (auto simp: last_opt_def)
    qed
    ultimately show ?thesis by simp
  qed simp
  have b: "dseg it' (Some x) bs None"
  proof (cases bs)
    case (Cons c cs)
    let ?f = "it(c := (it c)\<lparr>i_prev := Some x\<rparr>)"
    have "dseg ?f (Some x) bs None"
      using dseg_set_prev_hd [of it _ c cs None "Some x"] sb d Cons by simp
    moreover have "dseg ?f (Some x) bs None = dseg it' (Some x) bs None"
    proof (rule dseg_cong)
      fix y assume y: "y \<in> set bs"
      then have "Some y \<noteq> last_opt None as" using d by (intro last_opt_other) auto
      with y same [of y] Cons show "i_prev (?f y) = i_prev (it' y) \<and> i_next (?f y) = i_next (it' y)"
        by auto
    qed
    ultimately show ?thesis by simp
  qed simp
  show ?thesis using a b it' by (simp add: dseg_append)
qed

lemma lrep_at:
  assumes "lrep h l (as @ b # bs)"
  shows "i_prev (items h b) = last_opt None as" "i_next (items h b) = hd_opt None bs" "i_list (items h b) = Some l"
  using assms by (auto simp: lrep_def dseg_append)

lemma insertItem_lrep:
  assumes r: "lrep h l (as @ bs)" and x: "x \<notin> set (as @ bs)"
  shows "lrep (insertItem h l (hd_opt None bs) x) l (as @ x # bs)"
proof -
  let ?h = "insertItem h l (hd_opt None bs) x"
  have d: "distinct (as @ bs)" and seg: "dseg (items h) None (as @ bs) None" using r by (simp_all add: lrep_def)
  have before: "(case hd_opt None bs of None \<Rightarrow> l_tail (lists h l) | Some p \<Rightarrow> i_prev (items h p)) = last_opt None as"
    using r by (cases bs) (auto simp: lrep_def dseg_append)
  have itx: "items ?h x = \<lparr>i_prev = last_opt None as, i_next = hd_opt None bs, i_list = Some l\<rparr>"
    using before x d
    by (cases bs; cases "as = []") (auto simp: insertItem_def store_defs Let_def last_opt_def)
  have same: "i_next (items ?h y) = (if Some y = last_opt None as then Some x else i_next (items h y)) \<and>
        i_prev (items ?h y) = (if Some y = hd_opt None bs then Some x else i_prev (items h y)) \<and>
        i_list (items ?h y) = i_list (items h y)" if "y \<in> set (as @ bs)" for y
    using before x d that
    by (cases bs; cases "as = []") (auto simp: insertItem_def store_defs Let_def last_opt_def)
  have "dseg (items ?h) None (as @ x # bs) None"
    using seg d x itx same by (rule_tac dseg_insert [where it = "items h" and o' = "Some l"]) auto
  moreover have "lists ?h l = \<lparr>l_head = hd_opt None (as @ x # bs), l_tail = last_opt None (as @ x # bs),
      l_count = word_of_nat (length (as @ x # bs))\<rparr>"
    using r before by (cases bs; cases as)
      (auto simp: insertItem_def store_defs Let_def last_opt_def lrep_def hd_opt_append split: if_splits)
  ultimately show ?thesis
    using d x itx same r by (auto simp: lrep_def)
qed

lemma insertItem_frame:
  assumes r: "lrep h l (as @ bs)" and o: "lrep h l' ys" and "l' \<noteq> l" "x \<notin> set ys" "x \<notin> set (as @ bs)"
  shows "lrep (insertItem h l (hd_opt None bs) x) l' ys"
proof -
  let ?h = "insertItem h l (hd_opt None bs) x"
  have before: "(case hd_opt None bs of None \<Rightarrow> l_tail (lists h l) | Some p \<Rightarrow> i_prev (items h p)) = last_opt None as"
    using r by (cases bs) (auto simp: lrep_def dseg_append)
  have disj: "set ys \<inter> set (as @ bs) = {}"
    using r o \<open>l' \<noteq> l\<close> by (force simp: lrep_def)
  have "items ?h y = items h y" if "y \<in> set ys" for y
  proof -
    have "y \<noteq> x" "y \<notin> set as" "y \<notin> set bs" using that disj assms by auto
    then show ?thesis using before assms
      by (cases bs; cases "as = []") (auto simp: insertItem_def store_defs Let_def last_opt_def)
  qed
  moreover have "lists ?h l' = lists h l'"
    using \<open>l' \<noteq> l\<close> by (auto simp: insertItem_def store_defs Let_def split: option.split)
  ultimately show ?thesis using o dseg_cong [of ys "items ?h" "items h" None None] by (simp add: lrep_def)
qed

section \<open>Removal\<close>

lemma removeObject_lrep:
  assumes r: "lrep h l (as @ x # bs)"
  shows "lrep (removeObject h l (last_opt None as) (hd_opt None bs)) l (as @ bs)"
    and "i_list (items (removeObject h l (last_opt None as) (hd_opt None bs)) y) = i_list (items h y)"
    and "y \<notin> set (as @ bs) \<Longrightarrow> items (removeObject h l (last_opt None as) (hd_opt None bs)) y = items h y"
proof -
  let ?h = "removeObject h l (last_opt None as) (hd_opt None bs)"
  have d: "distinct (as @ x # bs)" and seg: "dseg (items h) None (as @ x # bs) None" using r by (simp_all add: lrep_def)
  then have sa: "dseg (items h) None as (Some x)" and sb: "dseg (items h) (Some x) bs None"
    by (simp_all add: dseg_append)
  have it: "items ?h y = (items h y)
      \<lparr>i_next := (if Some y = last_opt None as then hd_opt None bs else i_next (items h y)),
       i_prev := (if Some y = hd_opt None bs then last_opt None as else i_prev (items h y))\<rparr>" for y
    using d by (cases bs; cases "as = []") (auto simp: removeObject_def store_defs Let_def last_opt_def)
  show "i_list (items ?h y) = i_list (items h y)" by (simp add: it)
  show "items ?h y = items h y" if "y \<notin> set (as @ bs)"
    using that by (cases bs; cases "as = []") (auto simp: removeObject_def store_defs Let_def last_opt_def)
  have a: "dseg (items ?h) None as (hd_opt None bs)"
  proof (cases "as = []")
    case False
    let ?f = "(items h)(last as := (items h (last as))\<lparr>i_next := hd_opt None bs\<rparr>)"
    have "dseg ?f None as (hd_opt None bs)"
      using dseg_set_next_last [OF sa _ False] d by simp
    moreover have "dseg ?f None as (hd_opt None bs) = dseg (items ?h) None as (hd_opt None bs)"
    proof (rule dseg_cong)
      fix y assume y: "y \<in> set as"
      then have "Some y \<noteq> hd_opt None bs" using d by (cases bs) auto
      with y False show "i_prev (?f y) = i_prev (items ?h y) \<and> i_next (?f y) = i_next (items ?h y)"
        unfolding it by (auto simp: last_opt_def)
    qed
    ultimately show ?thesis by simp
  qed simp
  have b: "dseg (items ?h) (last_opt None as) bs None"
  proof (cases bs)
    case (Cons c cs)
    let ?f = "(items h)(c := (items h c)\<lparr>i_prev := last_opt None as\<rparr>)"
    have "dseg ?f (last_opt None as) bs None"
      using dseg_set_prev_hd [of "items h" _ c cs None] sb d Cons by simp
    moreover have "dseg ?f (last_opt None as) bs None = dseg (items ?h) (last_opt None as) bs None"
    proof (rule dseg_cong)
      fix y assume y: "y \<in> set bs"
      then have "Some y \<noteq> last_opt None as" using d by (intro last_opt_other) auto
      then show "i_prev (?f y) = i_prev (items ?h y) \<and> i_next (?f y) = i_next (items ?h y)"
        unfolding it using y Cons by auto
    qed
    ultimately show ?thesis by simp
  qed simp
  have "lists ?h l = \<lparr>l_head = hd_opt None (as @ bs), l_tail = last_opt None (as @ bs),
      l_count = word_of_nat (length (as @ bs))\<rparr>"
    using r by (cases bs; cases as)
      (auto simp: removeObject_def store_defs Let_def last_opt_def lrep_def hd_opt_append split: if_splits)
  then show "lrep ?h l (as @ bs)"
    using a b d r by (auto simp: lrep_def dseg_append it)
qed

lemma removeObject_frame:
  assumes r: "lrep h l (as @ x # bs)" and o: "lrep h l' ys" and "l' \<noteq> l"
  shows "lrep (removeObject h l (last_opt None as) (hd_opt None bs)) l' ys"
proof -
  let ?h = "removeObject h l (last_opt None as) (hd_opt None bs)"
  have "set ys \<inter> set (as @ x # bs) = {}"
    using r o \<open>l' \<noteq> l\<close> by (force simp: lrep_def)
  then have "items ?h y = items h y" if "y \<in> set ys" for y
    using removeObject_lrep(3) [OF r, of y] that by auto
  moreover have "lists ?h l' = lists h l'"
    using \<open>l' \<noteq> l\<close> by (auto simp: removeObject_def store_defs Let_def split: option.split)
  ultimately show ?thesis using o dseg_cong [of ys "items ?h" "items h" None None] by (simp add: lrep_def)
qed

lemma lrep_set_item_other:
  "lrep h l xs \<Longrightarrow> y \<notin> set xs \<Longrightarrow> lrep (set_item y f h) l xs"
  by (auto simp: lrep_def set_item_def)

lemma removeItem_lrep:
  assumes r: "lrep h l (as @ x # bs)"
  obtains h' where "removeItem h (Some x) = Inr (Some x, h')" "lrep h' l (as @ bs)"
    and "items h' x = \<lparr>i_prev = None, i_next = None, i_list = None\<rparr>"
    and "\<And>l' ys. lrep h l' ys \<Longrightarrow> l' \<noteq> l \<Longrightarrow> lrep h' l' ys"
proof -
  let ?h = "removeObject h l (last_opt None as) (hd_opt None bs)"
  let ?f = "\<lambda>_. \<lparr>i_prev = None, i_next = None, i_list = None\<rparr> :: itemHeader"
  have e: "removeItem h (Some x) = Inr (Some x, set_item x ?f ?h)"
    using lrep_at [OF r] by (simp add: removeItem_def)
  have x: "x \<notin> set (as @ bs)" using r by (auto simp: lrep_def)
  have frame: "lrep (set_item x ?f ?h) l' ys" if o: "lrep h l' ys" "l' \<noteq> l" for l' ys
  proof -
    have "x \<notin> set ys" using r o by (force simp: lrep_def)
    then show ?thesis using removeObject_frame [OF r o] by (rule lrep_set_item_other [rotated])
  qed
  show ?thesis
  proof (rule that [OF e])
    show "lrep (set_item x ?f ?h) l (as @ bs)"
      using removeObject_lrep(1) [OF r] x by (rule lrep_set_item_other)
    show "items (set_item x ?f ?h) x = \<lparr>i_prev = None, i_next = None, i_list = None\<rparr>"
      by (simp add: set_item_def)
  qed (rule frame)
qed

lemma removeFirstItem_empty: "lrep h l [] \<Longrightarrow> removeFirstItem h l = Inr (None, h)"
  by (simp add: removeFirstItem_def removeItem_def lrep_def)

lemma removeFirstItem_lrep:
  assumes "lrep h l (x # xs)"
  obtains h' where "removeFirstItem h l = Inr (Some x, h')" "lrep h' l xs"
proof -
  have "l_head (lists h l) = Some x" using assms by (simp add: lrep_def)
  moreover obtain h' where "removeItem h (Some x) = Inr (Some x, h')" "lrep h' l xs"
    using removeItem_lrep [of h l "[]" x xs] assms by (metis append_Nil)
  ultimately show ?thesis using that by (simp add: removeFirstItem_def)
qed

section \<open>Traversal\<close>

lemma forEachLoop_visit:
  assumes "lrep h l (as @ bs)"
  shows "\<exists>h'. forEachLoop action l h (last_opt None as) (hd_opt None bs) s = Some (h', snd (visit action s bs))
           \<and> lrep h' l (as @ fst (visit action s bs))"
  using assms
proof (induction bs arbitrary: as h s)
  case Nil
  then show ?case by (subst forEachLoop.simps) simp
next
  case (Cons b bs)
  note at = lrep_at [OF Cons.prems]
  show ?case
  proof (cases "fst (action s b)")
    case True
    have "lrep h l ((as @ [b]) @ bs)" using Cons.prems by simp
    from Cons.IH [OF this, of "snd (action s b)"] show ?thesis
      using True at(2) by (subst forEachLoop.simps) (simp add: Let_def)
  next
    case False
    from Cons.IH [OF removeObject_lrep(1) [OF Cons.prems], of "snd (action s b)"] show ?thesis
      using False at(2) by (subst forEachLoop.simps) (simp add: Let_def)
  qed
qed

lemma forEach_visit:
  assumes "lrep h l xs"
  shows "\<exists>h'. forEach action h l s = Some (h', snd (visit action s xs)) \<and> lrep h' l (fst (visit action s xs))"
  using forEachLoop_visit [of h l "[]" xs action s] assms by (simp add: forEach_def lrep_def)

lemma visit_keep_all:
  "(\<And>s x. fst (action s x)) \<Longrightarrow> visit action s xs = (xs, fold (\<lambda>x s. snd (action s x)) xs s)"
  by (induction xs arbitrary: s) (simp_all add: Let_def)

section \<open>The queue contract\<close>

text \<open>
  What the daemon's queues need of the list: items appended at the end leave at the front in the same
  order.  The contract is stated over an abstract representation predicate.
\<close>

text \<open>
  Popping until the queue is empty, with at most \<open>n\<close> attempts, as the loops over \<open>removeFirstItem\<close> do.
\<close>

fun drain :: "('h \<Rightarrow> ('a option \<times> 'h) res) \<Rightarrow> nat \<Rightarrow> 'h \<Rightarrow> ('a list \<times> 'h) res" where
  "drain pop 0 h = Inr ([], h)"
| "drain pop (Suc n) h = bind_res (pop h) (\<lambda>r. case fst r of
     None \<Rightarrow> Inr ([], snd r)
   | Some x \<Rightarrow> bind_res (drain pop n (snd r)) (\<lambda>t. Inr (x # fst t, snd t)))"

locale fifo =
  fixes rep :: "'h \<Rightarrow> 'a list \<Rightarrow> bool"
    and append_item :: "'h \<Rightarrow> 'a \<Rightarrow> 'h"
    and pop_first :: "'h \<Rightarrow> ('a option \<times> 'h) res"
  assumes rep_append: "rep h xs \<Longrightarrow> x \<notin> set xs \<Longrightarrow> rep (append_item h x) (xs @ [x])"
    and pop_empty: "rep h [] \<Longrightarrow> pop_first h = Inr (None, h)"
    and pop_cons: "rep h (x # xs) \<Longrightarrow> \<exists>h'. pop_first h = Inr (Some x, h') \<and> rep h' xs"
begin

lemma rep_append_all:
  "rep h xs \<Longrightarrow> distinct (xs @ ys) \<Longrightarrow> rep (foldl append_item h ys) (xs @ ys)"
proof (induction ys arbitrary: h xs)
  case (Cons y ys)
  then have "rep (append_item h y) (xs @ [y])" by (intro rep_append) auto
  from Cons.IH [OF this] Cons.prems show ?case by simp
qed simp

lemma drain_all: "rep h xs \<Longrightarrow> length xs \<le> n \<Longrightarrow> \<exists>h'. drain pop_first n h = Inr (xs, h') \<and> rep h' []"
proof (induction n arbitrary: h xs)
  case (Suc n)
  show ?case
  proof (cases xs)
    case Nil
    with Suc.prems show ?thesis by (auto simp: pop_empty)
  next
    case (Cons x ys)
    with Suc.prems obtain h1 where "pop_first h = Inr (Some x, h1)" "rep h1 ys"
      using pop_cons by blast
    with Suc.IH [of h1 ys] Suc.prems Cons show ?thesis by auto
  qed
qed auto

lemma fifo_order:
  "rep h [] \<Longrightarrow> distinct xs \<Longrightarrow> \<exists>h'. drain pop_first (length xs) (foldl append_item h xs) = Inr (xs, h') \<and> rep h' []"
  using rep_append_all [of h "[]" xs] drain_all by simp

end

interpretation item_fifo: fifo "\<lambda>h. lrep h l" "\<lambda>h x. insertItem h l None x" "\<lambda>h. removeFirstItem h l"
  for l :: laddr
proof
  show "lrep (insertItem h l None x) l (xs @ [x])" if "lrep h l xs" "x \<notin> set xs" for h xs x
    using insertItem_lrep [of h l xs "[]" x] that by simp
  show "removeFirstItem h l = Inr (None, h)" if "lrep h l []" for h
    using that by (rule removeFirstItem_empty)
  show "\<exists>h'. removeFirstItem h l = Inr (Some x, h') \<and> lrep h' l xs" if "lrep h l (x # xs)" for h x xs
    using removeFirstItem_lrep [OF that] by blast
qed

section \<open>Properties\<close>

text \<open>
  C8.  Inserting an item before a position of a well-formed list (at the end for a NULL position) gives
  the list with the item at that place, its count and both end pointers correct, and leaves every
  other list of the store as it was.
\<close>

theorem insertItem_refines:
  assumes "lrep h l (as @ bs)" and "x \<notin> set (as @ bs)"
  shows "lrep (insertItem h l (hd_opt None bs) x) l (as @ x # bs)
       \<and> (\<forall>l' ys. lrep h l' ys \<longrightarrow> l' \<noteq> l \<longrightarrow> x \<notin> set ys \<longrightarrow> lrep (insertItem h l (hd_opt None bs) x) l' ys)"
  using insertItem_lrep [OF assms] insertItem_frame [OF assms(1) _ _ _ assms(2)] by blast

theorem insertItem_refines_witness:
  "lrep (insertItem (initializeList \<lparr>items = \<lambda>_. \<lparr>i_prev = None, i_next = None, i_list = None\<rparr>,
       lists = \<lambda>_. \<lparr>l_head = None, l_tail = None, l_count = 7\<rparr>\<rparr> 0) 0 None 5) 0 [5]"
proof -
  let ?h = "initializeList \<lparr>items = \<lambda>_. \<lparr>i_prev = None, i_next = None, i_list = None\<rparr>,
       lists = \<lambda>_. \<lparr>l_head = None, l_tail = None, l_count = 7\<rparr>\<rparr> 0"
  have "lrep ?h 0 ([] @ [])" by (simp add: lrep_def initializeList_def set_list_def)
  from insertItem_refines [OF this, of 5] show ?thesis by simp
qed

text \<open>
  C19.  Removing an item of a well-formed list returns it with its links cleared, leaves the rest of the
  list in order with the count decreased, and leaves every other list as it was.
\<close>

theorem removeItem_refines:
  assumes "lrep h l (as @ x # bs)"
  shows "\<exists>h'. removeItem h (Some x) = Inr (Some x, h') \<and> lrep h' l (as @ bs)
       \<and> items h' x = \<lparr>i_prev = None, i_next = None, i_list = None\<rparr>
       \<and> (\<forall>l' ys. lrep h l' ys \<longrightarrow> l' \<noteq> l \<longrightarrow> lrep h' l' ys)"
  using removeItem_lrep [OF assms] by metis

theorem removeItem_refines_witness:
  "\<exists>h'. removeItem \<lparr>items = \<lambda>_. \<lparr>i_prev = None, i_next = None, i_list = Some 0\<rparr>,
       lists = \<lambda>_. \<lparr>l_head = Some 3, l_tail = Some 3, l_count = 1\<rparr>\<rparr> (Some 3) = Inr (Some 3, h') \<and> lrep h' 0 []"
proof -
  have "lrep \<lparr>items = \<lambda>_. \<lparr>i_prev = None, i_next = None, i_list = Some 0\<rparr>,
       lists = \<lambda>_. \<lparr>l_head = Some 3, l_tail = Some 3, l_count = 1\<rparr>\<rparr> 0 ([] @ 3 # [])"
    by (simp add: lrep_def)
  from removeItem_refines [OF this] show ?thesis by auto
qed

text \<open>
  C20.  \<open>forEach\<close> on a well-formed list ends; it passes every item to the action exactly once in list
  order, threading the user data, and afterwards the list holds exactly the items for which the action
  returned true.
\<close>

theorem forEach_total:
  assumes "lrep h l xs"
  shows "\<exists>h'. forEach action h l s = Some (h', snd (visit action s xs)) \<and> lrep h' l (fst (visit action s xs))"
  using assms by (rule forEach_visit)

theorem forEach_total_witness:
  "\<exists>h'. forEach (\<lambda>s a. (False, s + a)) \<lparr>items = \<lambda>_. \<lparr>i_prev = None, i_next = None, i_list = Some 0\<rparr>,
       lists = \<lambda>_. \<lparr>l_head = Some 3, l_tail = Some 3, l_count = 1\<rparr>\<rparr> 0 4 = Some (h', 7) \<and> lrep h' 0 []"
proof -
  have "lrep \<lparr>items = \<lambda>_. \<lparr>i_prev = None, i_next = None, i_list = Some 0\<rparr>,
       lists = \<lambda>_. \<lparr>l_head = Some 3, l_tail = Some 3, l_count = 1\<rparr>\<rparr> 0 [3]"
    by (simp add: lrep_def)
  from forEach_total [OF this, of "\<lambda>s a. (False, s + a)" 4] show ?thesis by simp
qed

text \<open>
  The list is a FIFO queue: after appending distinct items to an empty list, repeatedly taking the
  first item returns them in the order of insertion and empties the list.
\<close>

theorem list_is_fifo:
  assumes "lrep h l []" and "distinct xs"
  shows "\<exists>h'. drain (\<lambda>h. removeFirstItem h l) (length xs) (foldl (\<lambda>h x. insertItem h l None x) h xs) = Inr (xs, h')
       \<and> lrep h' l []"
  using assms by (rule item_fifo.fifo_order)

theorem list_is_fifo_witness:
  "\<exists>h'. drain (\<lambda>h. removeFirstItem h 0) (length [4, 2, 9])
       (foldl (\<lambda>h x. insertItem h 0 None x)
          (initializeList \<lparr>items = \<lambda>_. \<lparr>i_prev = None, i_next = None, i_list = None\<rparr>,
             lists = \<lambda>_. \<lparr>l_head = None, l_tail = None, l_count = 7\<rparr>\<rparr> 0) [4, 2, 9]) = Inr ([4, 2, 9], h')
     \<and> lrep h' 0 []"
proof -
  let ?h = "initializeList \<lparr>items = \<lambda>_. \<lparr>i_prev = None, i_next = None, i_list = None\<rparr>,
       lists = \<lambda>_. \<lparr>l_head = None, l_tail = None, l_count = 7\<rparr>\<rparr> 0"
  have "lrep ?h 0 []" by (simp add: lrep_def initializeList_def set_list_def)
  from list_is_fifo [OF this, of "[4, 2, 9]"] show ?thesis by simp
qed

end
