(* ===== verification/Client_Interface.thy ===== *)
theory Client_Interface
  imports Server Send_Format Device_Reader Item_List
begin

text \<open>
  \<open>client-interface.c\<close>: the requests of the clients of one listener, the delivery of received signals to
  them, and the life of a connection.  A listener serves a device (\<open>idev\<close> is that device) or the control
  socket (\<open>idev\<close> is \<open>None\<close>).  What the environment decides is part of the state: the results of the
  driver (\<open>devWorld\<close>), the location the driver reports, whether a hard reset works.  Packets written to
  clients are logged with the connection they went to.
\<close>

section \<open>State\<close>

record client =
  fd :: nat
  receiving :: byte
  c_version :: u16

record listener =
  idev :: "devWorld option"
  clientList :: "client list"
  readLabels :: bool
  devs :: "iguanaDev list"
  location :: "byte \<times> byte"
  resetWorks :: bool
  links_to :: links
  taken_names :: "cstring set"
  ctlErrno :: int
  delivered :: "(nat \<times> dataPacket) list"
  pipeTakes :: "nat \<Rightarrow> nat \<Rightarrow> bool"   \<comment> \<open>does the packet offered to a receiver as the n-th go out whole on a descriptor\<close>
  pipeTries :: nat                        \<comment> \<open>how many packets were offered to receivers\<close>

definition theErrno :: "listener \<Rightarrow> int" where
  "theErrno L = (case idev L of None \<Rightarrow> ctlErrno L | Some d \<Rightarrow> errno d)"

definition setErrno :: "int \<Rightarrow> listener \<Rightarrow> listener" where
  "setErrno e L = (case idev L of None \<Rightarrow> L\<lparr>ctlErrno := e\<rparr> | Some d \<Rightarrow> L\<lparr>idev := Some (d\<lparr>errno := e\<rparr>)\<rparr>)"

text \<open>Every access through \<open>target->idev\<close>.\<close>

definition withDev :: "listener \<Rightarrow> (devWorld \<Rightarrow> 'a res) \<Rightarrow> 'a res" where
  "withDev L f = (case idev L of None \<Rightarrow> Inl NullDeref | Some d \<Rightarrow> f d)"

definition setDev :: "devWorld \<Rightarrow> listener \<Rightarrow> listener" where
  "setDev d L = L\<lparr>idev := Some d\<rparr>"

text \<open>The result of a branch of the request switch: \<open>retval\<close>, the request, the client and the state.\<close>

type_synonym branch = "(bool \<times> dataPacket \<times> client \<times> listener) res"

definition answer :: "byte list \<Rightarrow> dataPacket \<Rightarrow> dataPacket" where
  "answer bs r = r\<lparr>data := Some bs, dataLen := int (length bs)\<rparr>"

text \<open>A string result, with its terminator, or NULL.\<close>

definition answerString :: "cstring option \<Rightarrow> dataPacket \<Rightarrow> dataPacket" where
  "answerString s r =
     (case s of None \<Rightarrow> r\<lparr>data := None, dataLen := 0\<rparr> | Some t \<Rightarrow> answer (t @ [0]) r)"

section \<open>The branches of the request switch\<close>

definition exchVersions :: "dataPacket \<Rightarrow> client \<Rightarrow> listener \<Rightarrow> branch" where
  "exchVersions r c L =
     bind_res (read_bytes (data r) 2) (\<lambda>v.
       Inr (True, r\<lparr>data := map_option (\<lambda>bs. le_bytes 2 (unat IG_PROTOCOL_VERSION) @ drop 2 bs) (data r)\<rparr>,
            c\<lparr>c_version := word_of_nat (le_nat v)\<rparr>, L))"

definition ctlListDevs :: "dataPacket \<Rightarrow> client \<Rightarrow> listener \<Rightarrow> branch" where
  "ctlListDevs r c L = bind_res (deviceSummary (devs L)) (\<lambda>s. Inr (True, answerString s r, c, L))"

text \<open>The alias is copied and terminated, so it ends at the first NUL or after the data.\<close>

definition ctlDevAddr :: "dataPacket \<Rightarrow> client \<Rightarrow> listener \<Rightarrow> branch" where
  "ctlDevAddr r c L =
     bind_res (read_bytes (data r) (dataLen r)) (\<lambda>bs.
     bind_res (cstr (bs @ [0])) (\<lambda>alias.
     bind_res (deviceAddress (devs L) (Some alias)) (\<lambda>s. Inr (True, answerString s r, c, L))))"

definition getFeatures :: "dataPacket \<Rightarrow> client \<Rightarrow> listener \<Rightarrow> branch" where
  "getFeatures r c L =
     withDev L (\<lambda>d. bind_res (checkFeatures d UNKNOWN_FEATURES) (\<lambda>(ok, d).
       if ok then Inr (True, answer [features d] r, c, setDev d L) else Inr (False, r, c, setDev d L)))"

definition recvOn :: "dataPacket \<Rightarrow> client \<Rightarrow> listener \<Rightarrow> branch" where
  "recvOn r c L = withDev L (\<lambda>d. Inr (0 < receiverCount d, r\<lparr>code := IG_DEV_RECVON\<rparr>, c, L))"

definition recvOff :: "dataPacket \<Rightarrow> client \<Rightarrow> listener \<Rightarrow> branch" where
  "recvOff r c L =
     withDev L (\<lambda>d.
       let c = c\<lparr>receiving := 0\<rparr>
       in if 0 < receiverCount d
          then let d = d\<lparr>receiverCount := receiverCount d - 1\<rparr> in Inr (0 < receiverCount d, r, c, setDev d L)
          else Inr (False, r, c, L))"

definition getChannels :: "dataPacket \<Rightarrow> client \<Rightarrow> listener \<Rightarrow> branch" where
  "getChannels r c L =
     withDev L (\<lambda>d. bind_res (checkFeatures d IG_SLOT_DEV) (\<lambda>(slot, d).
       Inr (True, answer [drop_bit (if slot then 2 else 4) (channels d)] r, c, setDev d L)))"

definition setChannels :: "dataPacket \<Rightarrow> client \<Rightarrow> listener \<Rightarrow> branch" where
  "setChannels r c L =
     withDev L (\<lambda>d. bind_res (checkFeatures d IG_SLOT_DEV) (\<lambda>(slot, d).
       bind_res (byte_at (data r) 0) (\<lambda>b.
         Inr (True, r, c, setDev (d\<lparr>channels := push_bit (if slot then 2 else 4) b\<rparr>) L))))"

definition getCarrier :: "dataPacket \<Rightarrow> client \<Rightarrow> listener \<Rightarrow> branch" where
  "getCarrier r c L = withDev L (\<lambda>d. Inr (True, answer (be_bytes 4 (unat (carrier d))) r, c, L))"

definition clampCarrier :: "u32 \<Rightarrow> u32" where
  "clampCarrier v = (if 150000 < v then 150000 else if v < 25000 then 25000 else v)"

definition setCarrier :: "dataPacket \<Rightarrow> client \<Rightarrow> listener \<Rightarrow> branch" where
  "setCarrier r c L =
     withDev L (\<lambda>d. bind_res (read_bytes (data r) 4) (\<lambda>bs.
       let v = clampCarrier (word_of_nat (be_nat bs))
       in Inr (True, r\<lparr>data := map_option (\<lambda>old. be_bytes 4 (unat v) @ drop 4 old) (data r)\<rparr>, c,
               setDev (d\<lparr>carrier := v\<rparr>) L)))"

definition getLocation :: "dataPacket \<Rightarrow> client \<Rightarrow> listener \<Rightarrow> branch" where
  "getLocation r c L = withDev L (\<lambda>d. Inr (True, answer [fst (location L), snd (location L)] r, c, L))"

text \<open>The pulses of a request: the data as 32-bit words of the host.\<close>

definition requestPulses :: "dataPacket \<Rightarrow> u32 list res" where
  "requestPulses r =
     (let n = s32 (dataLen r div 4)
      in if n \<le> 0 then Inr [] else bind_res (read_bytes (data r) (4 * n)) (\<lambda>bs. Inr (words32 bs)))"

definition compressionOf :: "listener \<Rightarrow> compressVersion" where
  "compressionOf L =
     (case idev L of None \<Rightarrow> COMPRESS_VER0
      | Some d \<Rightarrow> if 8 \<le> version d AND 0xFF then COMPRESS_VER1 else COMPRESS_VER0)"

definition sendPulses :: "dataPacket \<Rightarrow> client \<Rightarrow> listener \<Rightarrow> branch" where
  "sendPulses r c L =
     withDev L (\<lambda>d. bind_res (requestPulses r) (\<lambda>ps.
       let (n, codes) = pulsesToIguanaSend (unat (carrier d)) ps True (compressionOf L)
       in Inr (False, r\<lparr>dataLen := int n, data := codes\<rparr>, c, L)))"

definition sendSize :: "dataPacket \<Rightarrow> client \<Rightarrow> listener \<Rightarrow> branch" where
  "sendSize r c L =
     withDev L (\<lambda>d. bind_res (requestPulses r) (\<lambda>ps.
       let (n, _) = pulsesToIguanaSend (unat (carrier d)) ps False (compressionOf L)
       in Inr (True, answer (le_bytes 2 n) r, c, L)))"

definition listAliases :: "dataPacket \<Rightarrow> client \<Rightarrow> listener \<Rightarrow> branch" where
  "listAliases r c L = withDev L (\<lambda>d. bind_res (aliasSummary d) (\<lambda>s. Inr (True, answerString (Some s) r, c, L)))"

definition getAddress :: "dataPacket \<Rightarrow> client \<Rightarrow> listener \<Rightarrow> branch" where
  "getAddress r c L =
     withDev L (\<lambda>d. case addrStr d of None \<Rightarrow> Inl NullDeref | Some a \<Rightarrow> Inr (True, answerString (Some a) r, c, L))"

definition requestSwitch :: "dataPacket \<Rightarrow> client \<Rightarrow> listener \<Rightarrow> branch" where
  "requestSwitch r c L =
     (if code r = IG_EXCH_VERSIONS then exchVersions r c L
      else if code r = IG_CTL_LISTDEVS then ctlListDevs r c L
      else if code r = IG_CTL_DEVADDR then ctlDevAddr r c L
      else if code r = IG_DEV_GETFEATURES then getFeatures r c L
      else if code r = IG_DEV_RECVON \<or> code r = IG_DEV_RAWRECVON then recvOn r c L
      else if code r = IG_DEV_RECVOFF then recvOff r c L
      else if code r = IG_DEV_GETCHANNELS then getChannels r c L
      else if code r = IG_DEV_SETCHANNELS then setChannels r c L
      else if code r = IG_DEV_GETCARRIER then getCarrier r c L
      else if code r = IG_DEV_SETCARRIER then setCarrier r c L
      else if code r = IG_DEV_IDSOFF then Inr (True, r, c, L\<lparr>readLabels := False\<rparr>)
      else if code r = IG_DEV_IDSON then Inr (True, r, c, L\<lparr>readLabels := True\<rparr>)
      else if code r = IG_DEV_GETLOCATION then getLocation r c L
      else if code r = IG_DEV_IDSTATE then Inr (True, answer [if readLabels L then 1 else 0] r, c, L)
      else if code r = IG_DEV_SEND then sendPulses r c L
      else if code r = IG_DEV_SENDSIZE then sendSize r c L
      else if code r = IG_DEV_LISTALIASES then listAliases r c L
      else if code r = IG_DEV_GETADDRESS then getAddress r c L
      else Inr (False, r, c, L))"

section \<open>Handling a request\<close>

text \<open>
  What follows the switch: requests it did not answer go to the device, with the hard reset as a last
  resort for RESET; the third result is the device's response.
\<close>

definition passToDevice :: "bool \<Rightarrow> dataPacket \<Rightarrow> listener \<Rightarrow> (bool \<times> dataPacket \<times> dataPacket option \<times> listener) res" where
  "passToDevice retval r L =
     (if retval then Inr (True, r, None, L)
      else case idev L of
        None \<Rightarrow> Inr (False, r, None, L)
      | Some d \<Rightarrow>
          bind_res (deviceTransaction d r False None) (\<lambda>(ok, d, r, resp).
            let L = setDev d L
            in if ok then Inr (True, r, resp, L)
               else if code r = IG_DEV_RESET then Inr (resetWorks L, r, resp, L)
               else Inr (False, r, resp, L)))"

definition noteReceiver :: "dataPacket \<Rightarrow> client \<Rightarrow> listener \<Rightarrow> (client \<times> listener) res" where
  "noteReceiver r c L =
     (if code r = IG_DEV_RECVON
      then withDev L (\<lambda>d. Inr (c\<lparr>receiving := IG_DEV_RECVON\<rparr>, setDev (d\<lparr>receiverCount := receiverCount d + 1\<rparr>) L))
      else Inr (c, L))"

definition takeResponse :: "dataPacket option \<Rightarrow> dataPacket \<Rightarrow> dataPacket" where
  "takeResponse resp r =
     (case resp of None \<Rightarrow> r | Some p \<Rightarrow> r\<lparr>data := data p, dataLen := dataLen p\<rparr>)"

definition handleClientRequest :: "dataPacket \<Rightarrow> client \<Rightarrow> listener \<Rightarrow> branch" where
  "handleClientRequest r c L =
     (let (ok, cd) = translateProtocol (code r) (c_version c) False; r = r\<lparr>code := cd\<rparr>
      in if \<not> ok then Inr (False, r, c, L)
         else let type = checkIncomingProtocol (idev L) r False; L = setErrno EINVAL L
         in if type = None then Inr (False, r, c, L)
         else bind_res (requestSwitch r c L) (\<lambda>(retval, r, c, L).
              bind_res (passToDevice retval r L) (\<lambda>(retval, r, resp, L).
              bind_res (if retval then noteReceiver r c L else Inr (c, L)) (\<lambda>(c, L).
                let r = (if retval then takeResponse resp r else r);
                    (ok, cd) = translateProtocol (code r) (c_version c) True
                in Inr (retval \<and> ok, r\<lparr>code := cd\<rparr>, c, L)))))"

section \<open>Connections\<close>

definition clientConnected :: "nat option \<Rightarrow> listener \<Rightarrow> listener" where
  "clientConnected clientFd L =
     (case clientFd of None \<Rightarrow> L
      | Some n \<Rightarrow> L\<lparr>clientList := clientList L @ [\<lparr>fd = n, receiving = 0, c_version = 0\<rparr>]\<rparr>)"

definition removeAt :: "nat \<Rightarrow> 'a list \<Rightarrow> 'a list" where
  "removeAt i xs = take i xs @ drop (Suc i) xs"

text \<open>The client at position \<open>i\<close> of the list goes; a receiver takes its share of \<open>receiverCount\<close> with it.\<close>

definition releaseClient :: "nat \<Rightarrow> listener \<Rightarrow> listener res" where
  "releaseClient i L =
     bind_res
       (if receiving (clientList L ! i) = 0 then Inr L
        else withDev L (\<lambda>d.
          let d = d\<lparr>receiverCount := receiverCount d - 1\<rparr>
          in if receiverCount d = 0
             then bind_res (deviceTransaction d (requestOf IG_DEV_RECVOFF) True None)
                    (\<lambda>(ok, d, r, resp). Inr (setDev d L))
             else Inr (setDev d L)))
       (\<lambda>L. Inr (L\<lparr>clientList := removeAt i (clientList L)\<rparr>))"

definition locationAlias :: "listener \<Rightarrow> cstring" where
  "locationAlias L = dec (unat (fst (location L))) @ str ''-'' @ dec (unat (snd (location L)))"

text \<open>\<open>strncpy(buf, data, 12)\<close> into a cleared buffer of 13 bytes.\<close>

definition labelOf :: "byte list option \<Rightarrow> cstring res" where
  "labelOf p =
     (case p of None \<Rightarrow> Inl NullDeref
      | Some bs \<Rightarrow> if 0 \<in> set (take 12 bs) \<or> 12 \<le> length bs then Inr (takeWhile (\<lambda>b. b \<noteq> 0) (take 12 bs))
                   else Inl OutOfBounds)"

definition hasNoId :: "u16 \<Rightarrow> bool" where
  "hasNoId v \<longleftrightarrow> v = 0x00FF \<or> v AND 0x00FF = 0"

text \<open>The user's alias: the dummy request early firmware needs, then the real one.\<close>

definition readLabel :: "cstring \<Rightarrow> listener \<Rightarrow> listener res" where
  "readLabel idxStr L =
     withDev L (\<lambda>d.
     bind_res (if version d AND 0xFF00 \<noteq> 0 \<and> version d AND 0x00FF < 5
               then bind_res (deviceTransaction d (requestOf IG_DEV_GETID) False None)
                      (\<lambda>(ok, d, r, resp). Inr (d, r, resp))
               else Inr (d, requestOf IG_DEV_GETID, None)) (\<lambda>(d, r, resp).
     bind_res (deviceTransaction (d\<lparr>userAlias := None\<rparr>) r False resp) (\<lambda>(ok, d, r, resp).
       if \<not> ok then Inr (setDev d L)
       else case resp of None \<Rightarrow> Inl NullDeref
            | Some p \<Rightarrow>
                bind_res (labelOf (data p)) (\<lambda>label.
                  Inr (setDev (d\<lparr>userAlias := Some label\<rparr>)
                    (L\<lparr>links_to := setAlias (taken_names L) idxStr False (Some label) (links_to L)\<rparr>))))))"

definition getID :: "listener \<Rightarrow> listener res" where
  "getID L =
     withDev L (\<lambda>d.
     bind_res (sprintfInt 4 (devId d)) (\<lambda>idxStr.
       let alias = locationAlias L;
           L = setDev (d\<lparr>locAlias := Some alias\<rparr>)
                 (L\<lparr>links_to := setAlias (taken_names L) idxStr True (Some alias) (links_to L)\<rparr>)
       in if \<not> readLabels L \<or> hasNoId (version d) then Inr L else readLabel idxStr L))"

text \<open>
  One request of the client at position \<open>i\<close>: what \<open>readDataPacket\<close> returned (\<open>None\<close> when it failed) and
  whether the answer can be written.
\<close>

definition errorAnswer :: "listener \<Rightarrow> dataPacket \<Rightarrow> dataPacket" where
  "errorAnswer L r = r\<lparr>code := IG_DEV_ERROR, dataLen := s32 (- theErrno L)\<rparr>"

definition handleClient :: "nat \<Rightarrow> dataPacket option \<Rightarrow> bool \<Rightarrow> listener \<Rightarrow> (bool \<times> listener) res" where
  "handleClient i request writeOk L =
     (case request of
        None \<Rightarrow> bind_res (releaseClient i L) (\<lambda>L. Inr (False, L))
      | Some r \<Rightarrow>
          bind_res (handleClientRequest r (clientList L ! i) L) (\<lambda>(ok, r, c, L).
            let r = (if ok then r else errorAnswer L r);
                L = L\<lparr>clientList := (clientList L)[i := c]\<rparr>
            in if writeOk
               then let L = L\<lparr>delivered := delivered L @ [(fd c, r)]\<rparr>
                    in bind_res (if code r = IG_DEV_SETID then getID L else Inr L) (\<lambda>L. Inr (True, L))
               else bind_res (releaseClient i L) (\<lambda>L.
                      if code r = IG_DEV_SETID then Inl UseAfterFree else Inr (False, L))))"

section \<open>Received signals\<close>

text \<open>
  A packet is offered to a receiver with a timeout of 100 ms; when it does not go out it is lost, the
  failure is logged and the client stays.  The state carried along is the number of packets offered so
  far and those that arrived.
\<close>

definition tellReceivers :: "bool \<Rightarrow> dataPacket \<Rightarrow> (nat \<Rightarrow> nat \<Rightarrow> bool) \<Rightarrow> nat \<times> (nat \<times> dataPacket) list \<Rightarrow> client
    \<Rightarrow> bool \<times> nat \<times> (nat \<times> dataPacket) list" where
  "tellReceivers translated packet takes tried me =
     (let (n, out) = tried
      in if (receiving me = IG_DEV_RECVON \<and> translated) \<or> (receiving me = IG_DEV_RAWRECVON \<and> \<not> translated)
         then let (ok, cd) = translateProtocol (code packet) (c_version me) True
              in if \<not> ok then (False, n, out)
                 else (True, n + 1, if takes n (fd me) then out @ [(fd me, packet\<lparr>code := cd\<rparr>)] else out)
         else (True, n, out))"

definition tellAll :: "bool \<Rightarrow> dataPacket \<Rightarrow> listener \<Rightarrow> listener" where
  "tellAll translated packet L =
     (let (kept, n, out) = visit (tellReceivers translated packet (pipeTakes L)) (pipeTries L, delivered L) (clientList L)
      in L\<lparr>clientList := kept, delivered := out, pipeTries := n\<rparr>)"

definition deliver :: "dataPacket \<Rightarrow> listener \<Rightarrow> listener res" where
  "deliver packet L =
     (if code packet = IG_DEV_RECV then
        (case data packet of None \<Rightarrow> Inl NullDeref
         | Some bs \<Rightarrow>
             let L = tellAll False packet L
             in bind_res (iguanaDevToPulses bs (dataLen packet)) (\<lambda>ps.
                  Inr (tellAll True (answer (pulseBytes ps) packet) L)))
      else if code packet = IG_DEV_OVERRECV then Inr (tellAll False packet L)
      else Inr L)"

text \<open>
  The worker calls \<open>handleReader\<close> when the reader pipe is readable: a notification is waiting, or the
  reader thread has closed its end.
\<close>

definition handleReader :: "listener \<Rightarrow> (bool \<times> listener) res" where
  "handleReader L =
     withDev L (\<lambda>d.
       if readerPipe d = 0 then Inr (False, L)
       else let (packet, d) = removeNextPacket (d\<lparr>readerPipe := readerPipe d - 1\<rparr>)
            in case packet of None \<Rightarrow> Inl NullDeref
               | Some p \<Rightarrow> bind_res (deliver p (setDev d L)) (\<lambda>L. Inr (True, L)))"

section \<open>Workers\<close>

text \<open>The device record a worker starts with: cleared memory but for three fields.\<close>

definition startWorker :: "nat \<Rightarrow> nat \<Rightarrow> devWorld \<Rightarrow> devWorld" where
  "startWorker n packetSize env =
     env\<lparr>devId := n, stopped := False, maxPacketSize := packetSize, quitRequested := False, readerPipe := 0,
         readerOpen := True, responsePipe := 0, recvList := [], response := None, receiverCount := 0,
         version := 0, features := UNKNOWN_FEATURES, cycles := 0, channels := 0, carrier := 38000,
         addrStr := None, locAlias := None, userAlias := None, willFail := False, firstTimeout := False\<rparr>"

text \<open>
  Waiting for the workers at shutdown: what the reads of the command pipe give.  The results are the
  return value and the number of workers that were joined.
\<close>

datatype reapRead = ReapTimeout | ReapShort | ReapWord commWord

fun reapAllChildren :: "nat \<Rightarrow> nat \<Rightarrow> reapRead list \<Rightarrow> (bool \<times> nat) option" where
  "reapAllChildren 0 n reads = Some (True, n)"
| "reapAllChildren (Suc x) n [] = None"
| "reapAllChildren (Suc x) n (ReapTimeout # reads) = Some (True, n)"
| "reapAllChildren (Suc x) n (ReapShort # reads) = Some (False, n)"
| "reapAllChildren (Suc x) n (ReapWord (ThreadId t) # reads) = reapAllChildren x (Suc n) reads"
| "reapAllChildren (Suc x) n (ReapWord InvalidId # reads) = reapAllChildren (Suc x) n (drop 1 reads)"

section \<open>The loop of a listener (daemon.c)\<close>

text \<open>
  What \<open>select\<close> reports, one descriptor at a time in the order the loop handles them: the reader, a new
  connection, a client with its request; or a failure of \<open>select\<close> or an error on the reader or the
  listening socket, which end the loop.
\<close>

datatype listenEvent =
    ReaderReady
  | ListenFailed
  | Accepted "nat option"
  | ClientReady nat "dataPacket option" bool

fun releaseAll :: "nat \<Rightarrow> listener \<Rightarrow> listener res" where
  "releaseAll 0 L = Inr L"
| "releaseAll (Suc n) L = bind_res (releaseClient 0 L) (releaseAll n)"

definition closeListener :: "listener \<Rightarrow> listener res" where
  "closeListener L =
     bind_res
       (case idev L of None \<Rightarrow> Inr L
        | Some d \<Rightarrow> bind_res (sprintfInt 4 (devId d)) (\<lambda>idxStr.
            Inr (L\<lparr>links_to := setAlias (taken_names L) idxStr True None (links_to L)\<rparr>)))
       (\<lambda>L. releaseAll (length (clientList L)) L)"

fun listenLoop :: "listenEvent list \<Rightarrow> listener \<Rightarrow> (bool \<times> listener) res" where
  "listenLoop [] L = Inr (False, L)"
| "listenLoop (ReaderReady # evs) L =
     (if idev L = None then bind_res (closeListener L) (\<lambda>L. Inr (True, L))
      else bind_res (handleReader L) (\<lambda>(ok, L).
             if ok then listenLoop evs L else bind_res (closeListener L) (\<lambda>L. Inr (True, L))))"
| "listenLoop (ListenFailed # evs) L = bind_res (closeListener L) (\<lambda>L. Inr (True, L))"
| "listenLoop (Accepted f # evs) L = listenLoop evs (clientConnected f L)"
| "listenLoop (ClientReady i request writeOk # evs) L =
     (if i < length (clientList L)
      then bind_res (handleClient i request writeOk L) (\<lambda>(ok, L). listenLoop evs L)
      else listenLoop evs L)"

text \<open>The address is that of the listening socket, \<open>None\<close> when it could not be created.\<close>

definition listenToClients :: "cstring option \<Rightarrow> listenEvent list \<Rightarrow> listener \<Rightarrow> (bool \<times> listener) res" where
  "listenToClients addr evs L =
     (case addr of None \<Rightarrow> Inr (True, L)
      | Some a \<Rightarrow>
          bind_res (case idev L of None \<Rightarrow> Inr L | Some d \<Rightarrow> getID (setDev (d\<lparr>addrStr := Some a\<rparr>) L))
            (listenLoop evs))"

definition joinWithReader :: "listener \<Rightarrow> listener res" where
  "joinWithReader L = withDev L (\<lambda>d. Inr (setDev (d\<lparr>quitRequested := True\<rparr>) L))"

text \<open>
  The life of a worker: the device is in the list of devices while its listener runs.  The flag of the
  result says that the worker has ended; otherwise it is still waiting for events.
\<close>

definition workLoop :: "cstring option \<Rightarrow> listenEvent list \<Rightarrow> listener \<Rightarrow> (bool \<times> listener) res" where
  "workLoop addr evs L =
     withDev L (\<lambda>d. bind_res (checkVersion d) (\<lambda>(ok, d).
       if \<not> ok then bind_res (joinWithReader (setDev d L)) (\<lambda>L. Inr (True, L))
       else bind_res (sprintfInt 4 (devId d)) (\<lambda>name.
            bind_res (listenToClients addr evs (setDev d (L\<lparr>devs := devs L @ [iguanaDev.truncate d]\<rparr>))) (\<lambda>(ended, L).
              if ended
              then bind_res (joinWithReader (L\<lparr>devs := filter (\<lambda>e. devId e \<noteq> devId d) (devs L)\<rparr>)) (\<lambda>L. Inr (True, L))
              else Inr (False, L)))))"

end
