(* ===== verification/Client_Properties.thy ===== *)
theory Client_Properties
  imports Client_Interface
begin

text \<open>
  What the clients of a listener can rely on: the settings they exchange, who is told about received
  signals, how the receiver is switched, and the requests that bring the daemon down.
\<close>

section \<open>What a transaction leaves alone, faults and failures included\<close>

lemma notified_same_env: "notified s = (n, t) \<Longrightarrow> same_env s t"
proof -
  assume n: "notified s = (n, t)"
  have "same_env s (fold (\<lambda>(p, f) s. queueDataPacket s p f) ps s)" for ps and s :: devWorld
  proof (induction ps arbitrary: s)
    case (Cons q ps)
    show ?case using same_env_trans [OF queue_frame Cons.IH] by (cases q) simp
  qed simp
  from this [of "s\<lparr>waits := waits s + 1\<rparr>"] show ?thesis
    using n by (auto simp: notified_def Let_def same_env_def split: waitEvent.splits if_splits)
qed

lemma awaitAck_same_env: "awaitAck type r s = Inr (ok, pos, t) \<Longrightarrow> same_env s t"
  by (auto simp: awaitAck_def Let_def dest!: notified_same_env split: prod.splits if_splits option.splits)

lemma injectToggleFix_same_env: "same_env s (injectToggleFix s)"
  using interruptSend_frame [of _ s] by (simp add: injectToggleFix_def) (metis prod.collapse)

lemma sendRequest_same_env:
  assumes "sendRequest msg n r s = Inr (ok, t)"
  shows "same_env s t"
proof -
  let ?s = "flushToDevResponsePackets (injectToggleFix s)"
  obtain q u where u: "interruptSend msg ?s = (q, u)" by (cases "interruptSend msg ?s")
  have "same_env s ?s" using injectToggleFix_same_env by (simp add: flush_eq)
  then have su: "same_env s u" using interruptSend_frame [OF u] same_env_trans by blast
  have "u = t \<or> (\<exists>bs add. sendData u bs add = Inr (ok, t))"
    using assms u by (auto simp: sendRequest_def Let_def res_simps split: if_splits)
  then show ?thesis using su sendData_frame same_env_trans by blast
qed

definition frames :: "featureCheck \<Rightarrow> bool" where
  "frames f \<longleftrightarrow> (\<forall>s ok t. f s = Inr (ok, t) \<longrightarrow> same_env s t)"

lemma carrierBytes_same_env:
  assumes "frames f" "carrierBytes f s = Inr (ds, t)"
  shows "same_env s t"
proof -
  have "same_env s u" if "loopCycles f s = Inr (n, u)" for n u
    using that assms(1) by (auto simp: loopCycles_def frames_def res_simps split: if_splits)
  then show ?thesis using assms(2)
    by (cases "loopCycles f s") (auto simp: carrierBytes_def split: if_splits prod.splits)
qed

lemma streamArgs_same_env:
  "frames f \<Longrightarrow> streamArgs f r s = Inr (as, r', t) \<Longrightarrow> same_env s t"
  by (auto simp: streamArgs_def res_simps Let_def dest: carrierBytes_same_env split: if_splits)

lemma deviceCode_same_env: "deviceCode r s = Inr (c, r', t) \<Longrightarrow> same_env s t"
  by (auto simp: deviceCode_def res_simps split: if_splits)

lemma packRequest_same_env:
  assumes "frames f" "packRequest f r s = Inr (msg, n, r', t)"
  shows "same_env s t"
proof -
  obtain c r1 s1 where 1: "deviceCode r s = Inr (c, r1, s1)"
    using assms(2) by (cases "deviceCode r s") (auto simp: packRequest_def)
  have "s1 = t \<or> (\<exists>r2 as. streamArgs f r2 s1 = Inr (as, r', t))"
    using assms(2) 1 by (auto simp: packRequest_def res_simps Let_def split: if_splits)
  then show ?thesis
    using deviceCode_same_env [OF 1] streamArgs_same_env [OF assms(1)] same_env_trans by blast
qed

lemma runTransaction_same_env:
  assumes "frames f" "runTransaction f s r null resp = Inr (ok, t, r', resp')"
  shows "same_env s t"
proof -
  let ?s = "s\<lparr>errno := EINVAL\<rparr>"
  show ?thesis
  proof (cases "checkIncomingProtocol (Some s) r null")
    case None
    then show ?thesis using assms(2) by (auto simp: runTransaction_def)
  next
    case (Some type)
    obtain msg n r1 s1 where 1: "packRequest f r ?s = Inr (msg, n, r1, s1)"
      using assms(2) Some by (cases "packRequest f r ?s") (auto simp: runTransaction_def)
    obtain ok1 s2 where 2: "sendRequest msg n r1 s1 = Inr (ok1, s2)"
      using assms(2) Some 1 by (cases "sendRequest msg n r1 s1") (auto simp: runTransaction_def)
    have "same_env ?s s2"
      using packRequest_same_env [OF assms(1) 1] sendRequest_same_env [OF 2] by (rule same_env_trans)
    then have s2: "same_env s s2" by (simp add: same_env_def)
    have "s2 = t \<or> (\<exists>ok2 pos. awaitAck type r1 s2 = Inr (ok2, pos, t))"
      using assms(2) Some 1 2 by (cases "awaitAck type r1 s2") (auto simp: runTransaction_def split: if_splits)
    then show ?thesis using s2 awaitAck_same_env same_env_trans by blast
  qed
qed

lemma storeFeatures_same_env:
  assumes "storeFeatures resp u = Inr t"
  shows "same_env u t"
proof -
  obtain p where p: "resp = Some p" using assms by (cases resp) (simp_all add: storeFeatures_def)
  obtain f where f: "byte_at (data p) 0 = Inr f"
    using assms p by (cases "byte_at (data p) 0") (simp_all add: storeFeatures_def)
  have "t = u\<lparr>features := f\<rparr> \<or> (\<exists>c. t = u\<lparr>features := f, cycles := c\<rparr>)"
    using assms p f by (cases "byte_at (data p) 1") (auto simp: storeFeatures_def split: if_splits)
  then show ?thesis by (elim disjE exE) simp_all
qed

lemma checkFeatures_same_env:
  assumes "checkFeatures s target = Inr (ok, t)"
  shows "same_env s t"
proof -
  have f: "frames (\<lambda>_. Inl AssertFailed)" by (simp add: frames_def)
  show ?thesis
  proof (cases "version s AND 0xFF = 0 \<or> version s AND 0xFF00 = 0 \<or> features s \<noteq> UNKNOWN_FEATURES")
    case True
    then have "t = s" using assms by (auto simp: checkFeatures_def split: if_splits)
    then show ?thesis by simp
  next
    case False
    let ?run = "runTransaction (\<lambda>_. Inl AssertFailed) s (requestOf IG_DEV_GETFEATURES) False None"
    obtain ok1 u r1 resp1 where u: "?run = Inr (ok1, u, r1, resp1)"
      using assms False by (cases ?run) (auto simp: checkFeatures_def)
    have "(if ok1 then storeFeatures resp1 u else Inr u) = Inr t"
      using assms False u by (cases "if ok1 then storeFeatures resp1 u else Inr u") (auto simp: checkFeatures_def)
    then have "same_env u t" using storeFeatures_same_env by (auto split: if_splits)
    with runTransaction_same_env [OF f u] show ?thesis by (rule same_env_trans)
  qed
qed

lemma frames_checkFeatures: "frames (\<lambda>s. checkFeatures s target)"
  using checkFeatures_same_env by (auto simp: frames_def)

lemma oldPinStep_same_env:
  assumes "oldPinStep c x block s r null resp = Inr (ok, block', t, r', resp')"
  shows "same_env s t"
proof -
  define r0 where "r0 = (if c = IG_DEV_SETPINCONFIG
             then r\<lparr>code := IG_DEV_SETCONFIG0 + word_of_nat x * 2, dataLen := 4, data := map_option (drop (x * 4)) block\<rparr>
             else r\<lparr>code := IG_DEV_GETCONFIG0 + word_of_nat x * 2\<rparr>)"
  obtain ok1 u r1 resp1 where u: "runTransaction (\<lambda>s. checkFeatures s UNKNOWN_FEATURES) s r0 null resp = Inr (ok1, u, r1, resp1)"
    using assms by (cases "runTransaction (\<lambda>s. checkFeatures s UNKNOWN_FEATURES) s r0 null resp")
      (auto simp: oldPinStep_def Let_def simp flip: r0_def)
  have "\<exists>e. t = u \<or> t = u\<lparr>errno := e\<rparr>"
    using assms u by (auto simp: oldPinStep_def Let_def res_simps simp flip: r0_def split: if_splits prod.splits)
  then show ?thesis using runTransaction_same_env [OF frames_checkFeatures u] by auto
qed

lemma deviceTransaction_same_env:
  assumes "deviceTransaction s r null resp = Inr (ok, t, r', resp')"
  shows "same_env s t"
proof (cases "version s \<le> 3 \<and> (code r = IG_DEV_SETPINCONFIG \<or> code r = IG_DEV_GETPINCONFIG)")
  case False
  then show ?thesis using assms runTransaction_same_env [OF frames_checkFeatures] by (auto simp: deviceTransaction_def)
next
  case True
  then have "oldPinConfig s r null resp = Inr (ok, t, r', resp')" using assms by (simp add: deviceTransaction_def)
  then show ?thesis
    by (auto simp: oldPinConfig_def Let_def res_simps dest!: oldPinStep_same_env split: if_splits intro: same_env_trans)
qed

section \<open>What the branches leave alone\<close>

definition carrier_ok :: "devWorld \<Rightarrow> bool" where
  "carrier_ok d \<longleftrightarrow> 25000 \<le> carrier d \<and> carrier d \<le> 150000"

text \<open>A device before and after a request; \<open>n\<close> receivers more.\<close>

definition dev_kept :: "u32 \<Rightarrow> devWorld \<Rightarrow> devWorld \<Rightarrow> bool" where
  "dev_kept n d d' \<longleftrightarrow> maxPacketSize d' = maxPacketSize d \<and> version d' = version d \<and> lag d' = lag d
     \<and> (carrier_ok d \<longrightarrow> carrier_ok d') \<and> receiverCount d' = receiverCount d + n \<and> devId d' = devId d
     \<and> userAlias d' = userAlias d \<and> locAlias d' = locAlias d"

definition kept :: "u32 \<Rightarrow> listener \<Rightarrow> listener \<Rightarrow> bool" where
  "kept n L L' \<longleftrightarrow> clientList L' = clientList L \<and> delivered L' = delivered L
     \<and> (case idev L of None \<Rightarrow> idev L' = None \<and> n = 0 | Some d \<Rightarrow> \<exists>d'. idev L' = Some d' \<and> dev_kept n d d')"

definition branch_kept :: "byte \<Rightarrow> byte \<Rightarrow> u32 \<Rightarrow> client \<Rightarrow> listener \<Rightarrow> branch \<Rightarrow> bool" where
  "branch_kept cd rcv n c L b \<longleftrightarrow>
     (\<forall>v r' c' L'. b = Inr (v, r', c', L') \<longrightarrow> kept n L L' \<and> fd c' = fd c \<and> receiving c' = rcv \<and> code r' = cd)"

lemma branch_keptD:
  "branch_kept cd rcv n c L b \<Longrightarrow> b = Inr (v, r', c', L') \<Longrightarrow> kept n L L' \<and> fd c' = fd c \<and> receiving c' = rcv \<and> code r' = cd"
  unfolding branch_kept_def by blast

lemma dev_kept_same_env: "same_env d d' \<Longrightarrow> dev_kept 0 d d'"
  by (simp add: same_env_def dev_kept_def carrier_ok_def)

lemma dev_kept_trans: "dev_kept m a b \<Longrightarrow> dev_kept n b c \<Longrightarrow> dev_kept (m + n) a c"
  by (auto simp: dev_kept_def)

lemma kept_trans: "kept m a b \<Longrightarrow> kept n b c \<Longrightarrow> kept (m + n) a c"
  by (auto simp: kept_def split: option.splits dest: dev_kept_trans)

lemma kept_refl [simp]: "kept 0 L L"
  by (auto simp: kept_def dev_kept_def split: option.splits)

lemma kept_setDev: "idev L = Some d \<Longrightarrow> dev_kept n d d' \<Longrightarrow> kept n L (setDev d' L)"
  by (simp add: kept_def setDev_def)

lemma kept_setErrno: "kept 0 L (setErrno e L)"
  by (auto simp: kept_def setErrno_def dev_kept_def carrier_ok_def split: option.splits)

lemma dev_kept_channels [simp]: "dev_kept n d (d'\<lparr>channels := b\<rparr>) = dev_kept n d d'"
  by (simp add: dev_kept_def carrier_ok_def lag_def)

lemma clampCarrier_ok: "25000 \<le> clampCarrier v \<and> clampCarrier v \<le> 150000"
  by (auto simp: clampCarrier_def not_less)

lemma code_answer [simp]: "code (answer bs r) = code r" "code (answerString st r) = code r"
  by (simp_all add: answer_def answerString_def split: option.split)

lemma Inl_kept [simp]: "branch_kept cd rcv n c L (Inl e)"
  by (simp add: branch_kept_def)

lemma withDev_keptI:
  "(\<And>d. idev L = Some d \<Longrightarrow> branch_kept cd rcv n c L (f d)) \<Longrightarrow> branch_kept cd rcv n c L (withDev L f)"
  by (cases "idev L") (simp_all add: withDev_def)

lemma bind_keptI:
  "(\<And>x. m = Inr x \<Longrightarrow> branch_kept cd rcv n c L (f x)) \<Longrightarrow> branch_kept cd rcv n c L (bind_res m f)"
  by (cases m) simp_all

lemma feature_keptI:
  assumes "idev L = Some d"
    and "\<And>ok d'. dev_kept 0 d d' \<Longrightarrow> branch_kept cd rcv n c L (f (ok, d'))"
  shows "branch_kept cd rcv n c L (bind_res (checkFeatures d t) f)"
  using assms checkFeatures_same_env dev_kept_same_env by (intro bind_keptI) (metis prod.collapse)

lemma Inr_keptI [intro!]:
  "kept n L L' \<Longrightarrow> fd c' = fd c \<Longrightarrow> receiving c' = rcv \<Longrightarrow> code r' = cd \<Longrightarrow> branch_kept cd rcv n c L (Inr (v, r', c', L'))"
  by (simp add: branch_kept_def)

lemmas keptIs = withDev_keptI bind_keptI Inr_keptI kept_setDev kept_refl

lemma plain_branches_kept:
  "branch_kept (code r) (receiving c) 0 c L (exchVersions r c L)"
  "branch_kept (code r) (receiving c) 0 c L (ctlListDevs r c L)"
  "branch_kept (code r) (receiving c) 0 c L (ctlDevAddr r c L)"
  "branch_kept IG_DEV_RECVON (receiving c) 0 c L (recvOn r c L)"
  "branch_kept (code r) (receiving c) 0 c L (getCarrier r c L)"
  "branch_kept (code r) (receiving c) 0 c L (getLocation r c L)"
  "branch_kept (code r) (receiving c) 0 c L (sendPulses r c L)"
  "branch_kept (code r) (receiving c) 0 c L (sendSize r c L)"
  "branch_kept (code r) (receiving c) 0 c L (listAliases r c L)"
  unfolding exchVersions_def ctlListDevs_def ctlDevAddr_def recvOn_def getCarrier_def getLocation_def
    sendPulses_def sendSize_def listAliases_def Let_def
  by (intro keptIs; (split prod.split, intro allI impI keptIs)?; simp?)+

lemma address_kept: "branch_kept (code r) (receiving c) 0 c L (getAddress r c L)"
  unfolding getAddress_def by (intro withDev_keptI, split option.split) (simp add: Inr_keptI)

lemma carrier_kept: "branch_kept (code r) (receiving c) 0 c L (setCarrier r c L)"
  unfolding setCarrier_def Let_def
  by (intro keptIs) (simp_all add: dev_kept_def carrier_ok_def clampCarrier_ok lag_def)

lemma feature_branches_kept:
  "branch_kept (code r) (receiving c) 0 c L (getFeatures r c L)"
  "branch_kept (code r) (receiving c) 0 c L (getChannels r c L)"
  "branch_kept (code r) (receiving c) 0 c L (setChannels r c L)"
proof -
  show "branch_kept (code r) (receiving c) 0 c L (getFeatures r c L)" "branch_kept (code r) (receiving c) 0 c L (getChannels r c L)"
    unfolding getFeatures_def getChannels_def
    by (intro withDev_keptI feature_keptI; auto intro: kept_setDev)+
  show "branch_kept (code r) (receiving c) 0 c L (setChannels r c L)"
    unfolding setChannels_def
  proof (intro withDev_keptI feature_keptI)
    fix d ok d' assume "idev L = Some d" "dev_kept 0 d d'"
    then show "branch_kept (code r) (receiving c) 0 c L (case (ok, d') of (slot, d) \<Rightarrow>
        bind_res (byte_at (data r) 0) (\<lambda>b. Inr (True, r, c, setDev (d\<lparr>channels := push_bit (if slot then 2 else 4) b\<rparr>) L)))"
      by (simp only: prod.case) (intro bind_keptI Inr_keptI kept_setDev; simp)
  qed
qed

section \<open>The code of a request\<close>

lemma runTransaction_code:
  assumes "runTransaction f s r null resp = Inr (ok, t, r', resp')"
  shows "code r' = code r"
proof (cases "checkIncomingProtocol (Some s) r null")
  case None
  then show ?thesis using assms by (auto simp: runTransaction_def)
next
  case (Some type)
  obtain msg n r1 s1 where 1: "packRequest f r (s\<lparr>errno := EINVAL\<rparr>) = Inr (msg, n, r1, s1)"
    using assms Some by (cases "packRequest f r (s\<lparr>errno := EINVAL\<rparr>)") (auto simp: runTransaction_def)
  have "r' = r1" using assms Some 1 by (auto simp: runTransaction_def res_simps split: if_splits)
  then show ?thesis using packRequest_code [OF 1] by simp
qed

definition configCodes :: "byte set" where
  "configCodes = {IG_DEV_SETCONFIG0, IG_DEV_SETCONFIG1, IG_DEV_GETCONFIG0, IG_DEV_GETCONFIG1}"

lemma oldPinStep_run:
  assumes "oldPinStep c x block s r null resp = Inr (ok, block', t, r', resp')" "x < 2"
  shows "\<exists>r0 ok1 u resp1. runTransaction (\<lambda>s. checkFeatures s UNKNOWN_FEATURES) s r0 null resp = Inr (ok1, u, r', resp1)
    \<and> code r0 \<in> configCodes"
proof -
  define r0 where "r0 = (if c = IG_DEV_SETPINCONFIG
             then r\<lparr>code := IG_DEV_SETCONFIG0 + word_of_nat x * 2, dataLen := 4, data := map_option (drop (x * 4)) block\<rparr>
             else r\<lparr>code := IG_DEV_GETCONFIG0 + word_of_nat x * 2\<rparr>)"
  obtain ok1 u r1 resp1 where u: "runTransaction (\<lambda>s. checkFeatures s UNKNOWN_FEATURES) s r0 null resp = Inr (ok1, u, r1, resp1)"
    using assms by (cases "runTransaction (\<lambda>s. checkFeatures s UNKNOWN_FEATURES) s r0 null resp")
      (auto simp: oldPinStep_def Let_def simp flip: r0_def)
  have "r' = r1"
    using assms u by (auto simp: oldPinStep_def Let_def res_simps simp flip: r0_def split: if_splits prod.splits)
  moreover have "code r0 \<in> configCodes"
    using \<open>x < 2\<close> by (auto simp: r0_def configCodes_def less_2_cases_iff)
  ultimately show ?thesis using u by blast
qed

lemma oldPinStep_code: "oldPinStep c x block s r null resp = Inr (ok, block', t, r', resp') \<Longrightarrow> x < 2 \<Longrightarrow> code r' \<in> configCodes"
  by (drule (1) oldPinStep_run) (metis runTransaction_code)

lemma deviceTransaction_RECVON:
  assumes "deviceTransaction s r null resp = Inr (ok, t, r', resp')"
  shows "code r' = IG_DEV_RECVON \<longleftrightarrow> code r = IG_DEV_RECVON"
proof (cases "version s \<le> 3 \<and> (code r = IG_DEV_SETPINCONFIG \<or> code r = IG_DEV_GETPINCONFIG)")
  case False
  then show ?thesis using assms runTransaction_code by (auto simp: deviceTransaction_def)
next
  case True
  then have o: "oldPinConfig s r null resp = Inr (ok, t, r', resp')" using assms by (simp add: deviceTransaction_def)
  have "code r' \<in> configCodes"
    using o by (auto simp: oldPinConfig_def Let_def res_simps split: if_splits dest: oldPinStep_code)
  then show ?thesis using True by (auto simp: configCodes_def)
qed

lemma recvOff_kept:
  "idev L = Some d \<Longrightarrow> branch_kept (code r) 0 (if 0 < receiverCount d then - 1 else 0) c L (recvOff r c L)"
  unfolding recvOff_def withDev_def Let_def
  by (auto intro!: Inr_keptI kept_setDev simp: dev_kept_def carrier_ok_def lag_def)

lemma recvOff_fault [simp]: "idev L = None \<Longrightarrow> recvOff r c L = Inl NullDeref"
  by (simp add: recvOff_def withDev_def)

lemma kept_readLabels [simp]: "kept 0 L (L\<lparr>readLabels := b\<rparr>)"
  by (auto simp: kept_def dev_kept_def split: option.splits)

lemma if_keptI:
  "branch_kept cd rcv n c L x \<Longrightarrow> branch_kept cd rcv n c L y \<Longrightarrow> branch_kept cd rcv n c L (if b then x else y)"
  by simp

lemma requestSwitch_kept:
  assumes "code r \<noteq> IG_DEV_RECVOFF"
  shows "branch_kept (if code r = IG_DEV_RECVON \<or> code r = IG_DEV_RAWRECVON then IG_DEV_RECVON else code r)
           (receiving c) 0 c L (requestSwitch r c L)"
proof (cases "code r = IG_DEV_RECVON \<or> code r = IG_DEV_RAWRECVON")
  case True
  then have "requestSwitch r c L = recvOn r c L" by (auto simp: requestSwitch_def)
  then show ?thesis using plain_branches_kept(4) True by simp
next
  case False
  then have "branch_kept (code r) (receiving c) 0 c L (requestSwitch r c L)"
    unfolding requestSwitch_def using assms
    by (simp only: if_False)
       (intro if_keptI plain_branches_kept feature_branches_kept address_kept carrier_kept Inr_keptI kept_refl
          kept_readLabels refl; simp)
  then show ?thesis using False by simp
qed

lemma passToDevice_kept:
  assumes "passToDevice v r L = Inr (v', r', resp, L')"
  shows "kept 0 L L'" "code r' = IG_DEV_RECVON \<longleftrightarrow> code r = IG_DEV_RECVON"
proof -
  consider "L' = L" "r' = r" | d ok t where "idev L = Some d"
      "deviceTransaction d r False None = Inr (ok, t, r', resp)" "L' = setDev t L"
  proof (cases "v \<or> idev L = None")
    case True
    then show ?thesis using assms that(1) by (auto simp: passToDevice_def split: if_splits)
  next
    case False
    then obtain d where d: "idev L = Some d" by blast
    obtain x where x: "deviceTransaction d r False None = Inr x"
      using assms False d by (cases "deviceTransaction d r False None") (simp_all add: passToDevice_def)
    obtain ok t r1 resp1 where "x = (ok, t, r1, resp1)" by (cases x)
    then show ?thesis using that(2) assms False d x by (simp add: passToDevice_def Let_def split: if_splits)
  qed
  then have "kept 0 L L' \<and> (code r' = IG_DEV_RECVON \<longleftrightarrow> code r = IG_DEV_RECVON)"
  proof cases
    case (2 d ok t)
    then show ?thesis
      using kept_setDev [OF 2(1) dev_kept_same_env [OF deviceTransaction_same_env [OF 2(2)]]]
        deviceTransaction_RECVON [OF 2(2)] by simp
  qed simp
  then show "kept 0 L L'" "code r' = IG_DEV_RECVON \<longleftrightarrow> code r = IG_DEV_RECVON" by auto
qed

text \<open>The change of a client's receiving state and of the receiver count that a request with code \<open>cd\<close> can make.\<close>

definition receiver_change :: "byte \<Rightarrow> byte \<Rightarrow> u32 \<Rightarrow> byte \<Rightarrow> u32 \<Rightarrow> bool" where
  "receiver_change cd rcv cnt rcv' n \<longleftrightarrow>
     (rcv' = rcv \<and> n = 0)
     \<or> ((cd = IG_DEV_RECVON \<or> cd = IG_DEV_RAWRECVON) \<and> rcv' = IG_DEV_RECVON \<and> n = 1)
     \<or> (cd = IG_DEV_RECVOFF \<and> rcv' = 0 \<and> n = (if 0 < cnt then - 1 else 0))"

definition countOf :: "listener \<Rightarrow> u32" where
  "countOf L = (case idev L of None \<Rightarrow> 0 | Some d \<Rightarrow> receiverCount d)"

lemma noteReceiver_kept:
  assumes "noteReceiver r c L = Inr (c', L')"
  shows "kept (if code r = IG_DEV_RECVON then 1 else 0) L L' \<and> fd c' = fd c
    \<and> receiving c' = (if code r = IG_DEV_RECVON then IG_DEV_RECVON else receiving c)"
  using assms
  by (auto simp: noteReceiver_def withDev_def split: if_splits option.splits
      intro!: kept_setDev simp: dev_kept_def carrier_ok_def lag_def)

lemma requestSwitch_after:
  assumes "requestSwitch r c L = Inr (v, r', c', L')"
  shows "kept (if code r = IG_DEV_RECVOFF \<and> 0 < countOf L then - 1 else 0) L L' \<and> fd c' = fd c
    \<and> receiving c' = (if code r = IG_DEV_RECVOFF then 0 else receiving c)
    \<and> (code r' = IG_DEV_RECVON \<longleftrightarrow> code r = IG_DEV_RECVON \<or> code r = IG_DEV_RAWRECVON)"
proof (cases "code r = IG_DEV_RECVOFF")
  case True
  then have off: "requestSwitch r c L = recvOff r c L" by (simp add: requestSwitch_def)
  then obtain d where d: "idev L = Some d" using assms by (cases "idev L") simp_all
  then show ?thesis using branch_keptD [OF recvOff_kept [OF d, of r c], of v r' c' L'] assms off True by (simp add: countOf_def)
next
  case False
  then show ?thesis using branch_keptD [OF requestSwitch_kept [OF False, of c L] assms] by simp
qed

text \<open>The device, the clients and the receiver count after a request.\<close>

lemma handleClientRequest_effect:
  assumes "handleClientRequest r c L = Inr (ok, r', c', L')"
  shows "\<exists>n. kept n L L' \<and> fd c' = fd c
    \<and> receiver_change (snd (translateProtocol (code r) (c_version c) False)) (receiving c) (countOf L) (receiving c') n"
proof -
  obtain t cd where tr: "translateProtocol (code r) (c_version c) False = (t, cd)"
    by (cases "translateProtocol (code r) (c_version c) False")
  let ?r = "r\<lparr>code := cd\<rparr>" and ?L = "setErrno EINVAL L"
  have cnt: "countOf ?L = countOf L" by (simp add: countOf_def setErrno_def split: option.split)
  show ?thesis
  proof (cases "t \<and> checkIncomingProtocol (idev L) ?r False \<noteq> None")
    case False
    then have "c' = c \<and> (L' = L \<or> L' = ?L)"
      using assms tr by (auto simp: handleClientRequest_def Let_def split: if_splits)
    then show ?thesis using kept_setErrno [of L EINVAL] by (intro exI [of _ 0]) (auto simp: receiver_change_def)
  next
    case True
    then have run: "bind_res (requestSwitch ?r c ?L) (\<lambda>(retval, r, c, L).
              bind_res (passToDevice retval r L) (\<lambda>(retval, r, resp, L).
              bind_res (if retval then noteReceiver r c L else Inr (c, L)) (\<lambda>(c, L).
                let r = (if retval then takeResponse resp r else r);
                    (ok, cd) = translateProtocol (code r) (c_version c) True
                in Inr (retval \<and> ok, r\<lparr>code := cd\<rparr>, c, L)))) = Inr (ok, r', c', L')"
      using assms tr by (auto simp: handleClientRequest_def Let_def)
    then obtain v r1 c1 L1 where 1: "requestSwitch ?r c ?L = Inr (v, r1, c1, L1)"
      by (cases "requestSwitch ?r c ?L") auto
    then obtain v2 r2 resp L2 where 2: "passToDevice v r1 L1 = Inr (v2, r2, resp, L2)"
      using run by (cases "passToDevice v r1 L1") auto
    have 3: "(if v2 then noteReceiver r2 c1 L2 else Inr (c1, L2)) = Inr (c', L')"
      using run 1 2 by (cases "if v2 then noteReceiver r2 c1 L2 else Inr (c1, L2)") (auto simp: Let_def split: prod.splits)
    define on where "on = (cd = IG_DEV_RECVON \<or> cd = IG_DEV_RAWRECVON)"
    define off :: u32 where "off = (if cd = IG_DEV_RECVOFF \<and> 0 < countOf L then - 1 else 0)"
    have s1: "kept off ?L L1" "fd c1 = fd c" "receiving c1 = (if cd = IG_DEV_RECVOFF then 0 else receiving c)"
      "code r1 = IG_DEV_RECVON \<longleftrightarrow> on"
      using requestSwitch_after [OF 1] by (simp_all add: on_def off_def cnt)
    have s3: "fd c' = fd c1" "kept (if v2 \<and> on then 1 else 0) L2 L'"
      "receiving c' = (if v2 \<and> on then IG_DEV_RECVON else receiving c1)"
      using 3 noteReceiver_kept [of r2 c1 L2 c' L'] passToDevice_kept(2) [OF 2] s1(4) by (auto split: if_splits)
    have "kept (0 + off + 0 + (if v2 \<and> on then 1 else 0)) L L'"
      using kept_trans [OF kept_trans [OF kept_trans [OF kept_setErrno s1(1)] passToDevice_kept(1) [OF 2]] s3(2)] .
    then show ?thesis
      using s1(2,3) s3(1,3)
      by (intro exI [of _ "0 + off + 0 + (if v2 \<and> on then 1 else 0)"] conjI)
         (simp_all add: receiver_change_def tr on_def off_def)
  qed
qed

section \<open>The receivers of a listener\<close>

definition receivers :: "listener \<Rightarrow> nat" where
  "receivers L = length (filter (\<lambda>c. receiving c \<noteq> 0) (clientList L))"

text \<open>
  The invariant: the device's receiver count is the number of receiving clients, a client receives
  decoded signals or nothing, and the carrier is in the range of the hardware.
\<close>

definition modes_ok :: "client list \<Rightarrow> bool" where
  "modes_ok cs \<longleftrightarrow> set (map receiving cs) \<subseteq> {0, IG_DEV_RECVON}"

definition device_ok :: "listener \<Rightarrow> bool" where
  "device_ok L \<longleftrightarrow> (case idev L of None \<Rightarrow> True | Some d \<Rightarrow> carrier_ok d)"

definition listener_ok :: "listener \<Rightarrow> bool" where
  "listener_ok L \<longleftrightarrow> countOf L = word_of_nat (receivers L) \<and> length (clientList L) < 2 ^ 32
     \<and> modes_ok (clientList L) \<and> device_ok L"

lemma modes_ok_nth: "modes_ok cs \<Longrightarrow> i < length cs \<Longrightarrow> receiving (cs ! i) = 0 \<or> receiving (cs ! i) = IG_DEV_RECVON"
  using subsetD [of "set (map receiving cs)" "{0, IG_DEV_RECVON}" "map receiving cs ! i"] nth_mem [of i "map receiving cs"]
  by (simp add: modes_ok_def)

lemma modes_ok_update: "modes_ok cs \<Longrightarrow> receiving c = 0 \<or> receiving c = IG_DEV_RECVON \<Longrightarrow> modes_ok (cs[i := c])"
  unfolding modes_ok_def map_update by (rule set_update_subsetI) auto

lemma filter_update:
  "i < length xs \<Longrightarrow> length (filter P (xs[i := x])) + (if P (xs ! i) then 1 else 0)
     = length (filter P xs) + (if P x then 1 else 0)"
  by (simp add: upd_conv_take_nth_drop id_take_nth_drop [of i xs, THEN arg_cong [of _ _ "\<lambda>ys. length (filter P ys)"]])

lemma filter_removeAt:
  "i < length xs \<Longrightarrow> length (filter P (removeAt i xs)) + (if P (xs ! i) then 1 else 0) = length (filter P xs)"
  by (simp add: removeAt_def id_take_nth_drop [of i xs, THEN arg_cong [of _ _ "\<lambda>ys. length (filter P ys)"]])

lemma set_removeAt: "set (removeAt i xs) \<subseteq> set xs"
  using set_take_subset [of i xs] set_drop_subset [of "Suc i" xs] by (auto simp: removeAt_def)

lemma modes_ok_removeAt: "modes_ok cs \<Longrightarrow> modes_ok (removeAt i cs)"
  unfolding modes_ok_def set_map using image_mono [OF set_removeAt [of i cs], of receiving] by (rule order_trans)

lemma length_removeAt [simp]: "i < length xs \<Longrightarrow> length (removeAt i xs) = length xs - 1"
  by (simp add: removeAt_def)

lemma receivers_le: "receivers L \<le> length (clientList L)"
  by (simp add: receivers_def)

lemma receivers_pos: "i < length (clientList L) \<Longrightarrow> receiving (clientList L ! i) \<noteq> 0 \<Longrightarrow> 0 < receivers L"
  unfolding receivers_def by (metis (mono_tags, lifting) filter_empty_conv length_greater_0_conv nth_mem)

lemma kept_countOf: "kept n L L' \<Longrightarrow> countOf L' = countOf L + n"
  by (auto simp: kept_def countOf_def dev_kept_def split: option.splits)

lemma kept_carrier: "kept n L L' \<Longrightarrow> device_ok L \<Longrightarrow> device_ok L'"
  by (cases "idev L") (auto simp: kept_def dev_kept_def device_ok_def)

lemma kept_clients: "kept n L L' \<Longrightarrow> clientList L' = clientList L \<and> delivered L' = delivered L"
  by (simp add: kept_def)

lemma countOf_pos:
  "listener_ok L \<Longrightarrow> 0 < countOf L \<longleftrightarrow> 0 < receivers L"
  using receivers_le [of L] by (auto simp: listener_ok_def word_less_nat_alt unat_of_nat)

text \<open>A client that takes its own turns: it asks for signals when it has none and stops what it started.\<close>

definition polite :: "dataPacket \<Rightarrow> client \<Rightarrow> bool" where
  "polite r c \<longleftrightarrow>
     (let cd = snd (translateProtocol (code r) (c_version c) False)
      in (cd = IG_DEV_RECVON \<or> cd = IG_DEV_RAWRECVON \<longrightarrow> receiving c = 0) \<and> (cd = IG_DEV_RECVOFF \<longrightarrow> receiving c \<noteq> 0))"

lemma receiver_change_polite:
  assumes "listener_ok L" "i < length (clientList L)" "c = clientList L ! i" "polite r c"
    and "receiver_change (snd (translateProtocol (code r) (c_version c) False)) (receiving c) (countOf L) (receiving c') n"
  shows "(receiving c' = 0 \<or> receiving c' = IG_DEV_RECVON)
    \<and> word_of_nat (length (filter (\<lambda>c. receiving c \<noteq> 0) ((clientList L)[i := c']))) = countOf L + n"
proof -
  let ?m = "length (filter (\<lambda>c. receiving c \<noteq> 0) ((clientList L)[i := c']))"
  have c: "receiving c = 0 \<or> receiving c = IG_DEV_RECVON" using assms(1-3) modes_ok_nth unfolding listener_ok_def by blast
  have m: "?m + (if receiving c \<noteq> 0 then 1 else 0) = receivers L + (if receiving c' \<noteq> 0 then 1 else 0)"
    using filter_update [OF assms(2), of "\<lambda>c. receiving c \<noteq> 0" c'] assms(3) by (simp add: receivers_def)
  have cnt: "countOf L = word_of_nat (receivers L)" using assms(1) by (simp add: listener_ok_def)
  consider "receiving c' = receiving c" "n = 0" | "receiving c' = IG_DEV_RECVON" "n = 1" "receiving c = 0"
    | "receiving c' = 0" "n = - 1" "receiving c \<noteq> 0"
    using assms(4,5) countOf_pos [OF assms(1)] receivers_pos [OF assms(2)] assms(3)
    by (auto simp: receiver_change_def polite_def)
  then show ?thesis
  proof cases
    case 1
    then show ?thesis using m c cnt by simp
  next
    case 2
    then have "?m = Suc (receivers L)" using m by simp
    then show ?thesis using 2 cnt by simp
  next
    case 3
    then have "receivers L = Suc ?m" using m by simp
    then show ?thesis using 3 cnt by simp
  qed
qed

lemma request_keeps_ok:
  assumes "listener_ok L" "i < length (clientList L)" "polite r (clientList L ! i)"
    and "handleClientRequest r (clientList L ! i) L = Inr (ok, r', c', L')"
  shows "listener_ok (L'\<lparr>clientList := (clientList L')[i := c']\<rparr>)" "length (clientList L') = length (clientList L)"
proof -
  obtain n where n: "kept n L L'"
    "receiver_change (snd (translateProtocol (code r) (c_version (clientList L ! i)) False))
       (receiving (clientList L ! i)) (countOf L) (receiving c') n"
    using handleClientRequest_effect [OF assms(4)] by blast
  note r = receiver_change_polite [OF assms(1,2) refl assms(3) n(2)]
  show len: "length (clientList L') = length (clientList L)" using kept_clients [OF n(1)] by simp
  have "modes_ok ((clientList L)[i := c'])"
    using r assms(1) modes_ok_update unfolding listener_ok_def by blast
  then show "listener_ok (L'\<lparr>clientList := (clientList L')[i := c']\<rparr>)"
    using r kept_clients [OF n(1)] kept_countOf [OF n(1)] kept_carrier [OF n(1)] assms(1)
    by (simp add: listener_ok_def receivers_def countOf_def device_ok_def)
qed

lemma releaseClient_ok:
  assumes "listener_ok L" "i < length (clientList L)" "releaseClient i L = Inr L'"
  shows "listener_ok L'" "clientList L' = removeAt i (clientList L)" "delivered L' = delivered L"
proof -
  let ?n = "if receiving (clientList L ! i) = 0 then 0 else - 1 :: u32"
  obtain M where M: "kept ?n L M" "L' = M\<lparr>clientList := removeAt i (clientList M)\<rparr>"
  proof (cases "receiving (clientList L ! i) = 0")
    case True
    then show ?thesis using assms(3) that [of L] by (simp add: releaseClient_def)
  next
    case False
    then obtain d where d: "idev L = Some d" using assms(3) by (cases "idev L") (simp_all add: releaseClient_def withDev_def)
    let ?d = "d\<lparr>receiverCount := receiverCount d - 1\<rparr>"
    have k: "dev_kept (- 1) d ?d" by (simp add: dev_kept_def carrier_ok_def lag_def)
    show ?thesis
    proof (cases "receiverCount ?d = 0")
      case True
      then obtain ok t r resp where t: "deviceTransaction ?d (requestOf IG_DEV_RECVOFF) True None = Inr (ok, t, r, resp)"
        using assms(3) False d
        by (cases "deviceTransaction ?d (requestOf IG_DEV_RECVOFF) True None") (auto simp: releaseClient_def withDev_def)
      have "dev_kept (- 1 + 0) d t"
        using dev_kept_trans [OF k dev_kept_same_env [OF deviceTransaction_same_env [OF t]]] .
      then show ?thesis
        using that [of "setDev t L"] False True d t assms(3) kept_setDev [OF d] by (simp add: releaseClient_def withDev_def)
    next
      case nz: False
      then show ?thesis
        using that [of "setDev ?d L"] False d assms(3) kept_setDev [OF d k] by (simp add: releaseClient_def withDev_def)
    qed
  qed
  show cl: "clientList L' = removeAt i (clientList L)" "delivered L' = delivered L"
    using M kept_clients by auto
  have "word_of_nat (receivers L') = (word_of_nat (receivers L) + ?n :: u32)"
    using filter_removeAt [OF assms(2), of "\<lambda>c. receiving c \<noteq> 0", symmetric] cl(1)
    by (simp add: receivers_def)
  then show "listener_ok L'"
    using cl kept_countOf [OF M(1)] kept_carrier [OF M(1)] assms(1,2) modes_ok_removeAt [of "clientList L" i] M(2)
    by (simp add: listener_ok_def countOf_def device_ok_def less_imp_diff_less)
qed

lemma kept_ok: "kept 0 L L' \<Longrightarrow> listener_ok L \<Longrightarrow> listener_ok L'"
  using kept_countOf [of 0 L L'] kept_carrier [of 0 L L'] kept_clients [of 0 L L']
  by (simp add: listener_ok_def receivers_def)

text \<open>\<open>getID\<close> changes the aliases of the device and otherwise keeps what a request keeps.\<close>

definition relabelled :: "cstring option \<Rightarrow> cstring option \<Rightarrow> listener \<Rightarrow> listener" where
  "relabelled u l L = L\<lparr>idev := map_option (\<lambda>d. d\<lparr>userAlias := u, locAlias := l\<rparr>) (idev L)\<rparr>"

lemma relabelled_ok [simp]:
  "listener_ok (relabelled u l L) = listener_ok L" "clientList (relabelled u l L) = clientList L"
  by (cases "idev L"; simp add: relabelled_def listener_ok_def countOf_def receivers_def device_ok_def carrier_ok_def)+

lemma readLabel_kept:
  assumes "readLabel idx L = Inr L'" "idev L = Some d"
  shows "\<exists>u. kept 0 (relabelled u (locAlias d) L) L'"
proof -
  note d = assms(2)
  define first where "first = (if version d AND 0xFF00 \<noteq> 0 \<and> version d AND 0x00FF < 5
               then bind_res (deviceTransaction d (requestOf IG_DEV_GETID) False None)
                      (\<lambda>(ok, d, r, resp). Inr (d, r, resp))
               else Inr (d, requestOf IG_DEV_GETID, None))"
  obtain e r resp where e: "first = Inr (e, r, resp)"
    using assms d by (cases first) (auto simp: readLabel_def withDev_def simp flip: first_def)
  have de: "dev_kept 0 d e"
    using e deviceTransaction_same_env by (auto simp: first_def res_simps intro!: dev_kept_same_env split: if_splits)
  obtain ok t r1 resp1 where t: "deviceTransaction (e\<lparr>userAlias := None\<rparr>) r False resp = Inr (ok, t, r1, resp1)"
    using assms d e by (cases "deviceTransaction (e\<lparr>userAlias := None\<rparr>) r False resp")
      (auto simp: readLabel_def withDev_def simp flip: first_def)
  have dt: "dev_kept 0 (d\<lparr>userAlias := x, locAlias := locAlias d\<rparr>) (t\<lparr>userAlias := x\<rparr>)" for x
    using de deviceTransaction_same_env [OF t] by (simp add: dev_kept_def same_env_def carrier_ok_def lag_def)
  have "userAlias t = None" using deviceTransaction_same_env [OF t] by (simp add: same_env_def)
  then have t': "t\<lparr>userAlias := None\<rparr> = t" by simp
  have "L' = setDev t L \<or> (\<exists>x ls. L' = setDev (t\<lparr>userAlias := x\<rparr>) (L\<lparr>links_to := ls\<rparr>))"
    using assms d e t by (cases resp1) (auto simp: readLabel_def withDev_def res_simps simp flip: first_def split: if_splits)
  then obtain x ls where "L' = setDev (t\<lparr>userAlias := x\<rparr>) (L\<lparr>links_to := ls\<rparr>)"
  proof
    assume "L' = setDev t L"
    then have "L' = setDev (t\<lparr>userAlias := None\<rparr>) (L\<lparr>links_to := links_to L\<rparr>)" using t' by simp
    then show thesis by (rule that)
  qed (use that in blast)
  then show ?thesis using dt d by (auto simp: kept_def setDev_def relabelled_def)
qed

lemma getID_kept:
  assumes "getID L = Inr L'" "idev L = Some d"
  shows "\<exists>u. kept 0 (relabelled u (Some (locationAlias L)) L) L' \<and> (\<not> readLabels L \<or> hasNoId (version d) \<longrightarrow> u = userAlias d)"
proof -
  note d = assms(2)
  obtain idx where i: "sprintfInt 4 (devId d) = Inr idx"
    using assms d by (cases "sprintfInt 4 (devId d)") (simp_all add: getID_def withDev_def)
  define M where "M = setDev (d\<lparr>locAlias := Some (locationAlias L)\<rparr>)
    (L\<lparr>links_to := setAlias (taken_names L) idx True (Some (locationAlias L)) (links_to L)\<rparr>)"
  have M: "kept 0 (relabelled u l M) L' \<longleftrightarrow> kept 0 (relabelled u l L) L'" "idev M = Some (d\<lparr>locAlias := Some (locationAlias L)\<rparr>)" for u l
    using d by (simp_all add: M_def kept_def setDev_def relabelled_def dev_kept_def carrier_ok_def lag_def)
  consider "L' = M" "\<not> readLabels L \<or> hasNoId (version d)" | "readLabel idx M = Inr L'" "\<not> (\<not> readLabels L \<or> hasNoId (version d))"
  proof -
    have "getID L = (if \<not> readLabels M \<or> hasNoId (version d) then Inr M else readLabel idx M)"
      using d i unfolding M_def getID_def withDev_def Let_def by simp
    moreover have "readLabels M = readLabels L" by (simp add: M_def setDev_def)
    ultimately show ?thesis using assms(1) that by (simp split: if_splits)
  qed
  then show ?thesis
  proof cases
    case 1
    have "relabelled (userAlias d) (Some (locationAlias L)) M = M" using M(2) by (simp add: relabelled_def)
    then show ?thesis using 1 M(1) kept_refl by metis
  next
    case 2
    obtain u where "kept 0 (relabelled u (Some (locationAlias L)) M) L'" using readLabel_kept [OF 2(1) M(2)] by auto
    then show ?thesis using 2(2) M(1) by blast
  qed
qed

lemma getID_kept_ok:
  assumes "getID L = Inr L'"
  shows "listener_ok L \<Longrightarrow> listener_ok L'" and "clientList L' = clientList L"
proof -
  obtain d where "idev L = Some d" using assms by (cases "idev L") (simp_all add: getID_def withDev_def)
  from getID_kept [OF assms this] show "listener_ok L \<Longrightarrow> listener_ok L'" and "clientList L' = clientList L"
    using kept_ok kept_clients relabelled_ok by metis+
qed

lemma handleClient_ok:
  assumes "listener_ok L" "i < length (clientList L)" "\<And>r. request = Some r \<Longrightarrow> polite r (clientList L ! i)"
    and "handleClient i request writeOk L = Inr (ok, L')"
  shows "listener_ok L'"
proof (cases request)
  case None
  then show ?thesis using assms(4) releaseClient_ok(1) [OF assms(1,2)] by (auto simp: handleClient_def res_simps)
next
  case (Some r)
  obtain v r' c' M where M: "handleClientRequest r (clientList L ! i) L = Inr (v, r', c', M)"
    using assms(4) Some by (cases "handleClientRequest r (clientList L ! i) L") (auto simp: handleClient_def)
  let ?M = "M\<lparr>clientList := (clientList M)[i := c']\<rparr>"
  have ok: "listener_ok ?M" "i < length (clientList ?M)"
    using request_keeps_ok [OF assms(1,2) assms(3) [OF Some] M] assms(2) by simp_all
  define r2 where "r2 = (if v then r' else errorAnswer M r')"
  let ?N = "?M\<lparr>delivered := delivered M @ [(fd c', r2)]\<rparr>"
  have run: "(if writeOk then bind_res (if code r2 = IG_DEV_SETID then getID ?N else Inr ?N) (\<lambda>L. Inr (True, L))
      else bind_res (releaseClient i ?M) (\<lambda>L. if code r2 = IG_DEV_SETID then Inl UseAfterFree else Inr (False, L)))
    = Inr (ok, L')"
    using assms(4) Some M unfolding r2_def by (simp add: handleClient_def Let_def split del: if_split cong: if_cong)
  show ?thesis
  proof (cases writeOk)
    case True
    have "listener_ok ?N" using ok(1) by (simp add: listener_ok_def countOf_def receivers_def device_ok_def)
    moreover have "L' = ?N \<or> getID ?N = Inr L'"
      using run True by (cases "getID ?N") (simp_all split: if_splits)
    ultimately show ?thesis using getID_kept_ok(1) by blast
  next
    case False
    then have "releaseClient i ?M = Inr L'"
      using run by (cases "releaseClient i ?M") (simp_all split: if_splits)
    then show ?thesis using releaseClient_ok(1) [OF ok] by simp
  qed
qed

end
