(* ===== verification/Listener_Properties.thy ===== *)
theory Listener_Properties
  imports Client_Properties
begin

text \<open>
  What a listener does over its life: the invariant of its loop, the delivery of received signals, and
  the requests and packets that take it down.
\<close>

section \<open>Telling the receivers\<close>

definition known :: "client \<Rightarrow> bool" where
  "known c \<longleftrightarrow> c_version c \<le> 1"

definition recvWire :: "u16 \<Rightarrow> byte" where
  "recvWire v = (if v = 0 then 0x10 else IG_DEV_RECV)"

lemma translate_recv: "v \<le> 1 \<Longrightarrow> translateProtocol IG_DEV_RECV v True = (True, recvWire v)"
  by (cases v rule: version_cases) (simp_all add: translateProtocol_v0 codeMap0_def recvWire_def)

lemma visit_same: "(\<And>x. x \<in> set xs \<Longrightarrow> action s x = (True, s)) \<Longrightarrow> visit action s xs = (xs, s)"
  by (induction xs) simp_all

lemma tellReceivers_raw:
  "receiving c = 0 \<or> receiving c = IG_DEV_RECVON \<Longrightarrow> tellReceivers False p w st c = (True, st)"
  by (auto simp: tellReceivers_def split: prod.splits)

lemma tellAll_raw:
  assumes "modes_ok (clientList L)"
  shows "tellAll False p L = L"
proof -
  have "tellReceivers False p w st c = (True, st)" if "c \<in> set (clientList L)" for w st c
    using that assms modes_ok_nth tellReceivers_raw by (metis in_set_conv_nth)
  then have "visit (tellReceivers False p w) st (clientList L) = (clientList L, st)" for w st
    by (rule visit_same)
  then show ?thesis by (simp add: tellAll_def)
qed

text \<open>What is offered to the receivers of a list of clients, and what of it goes out.\<close>

definition told :: "dataPacket \<Rightarrow> client list \<Rightarrow> (nat \<times> dataPacket) list" where
  "told p cs = map (\<lambda>c. (fd c, p\<lparr>code := recvWire (c_version c)\<rparr>)) (filter (\<lambda>c. receiving c = IG_DEV_RECVON) cs)"

fun goneOut :: "(nat \<Rightarrow> nat \<Rightarrow> bool) \<Rightarrow> nat \<Rightarrow> (nat \<times> dataPacket) list \<Rightarrow> (nat \<times> dataPacket) list" where
  "goneOut takes n [] = []"
| "goneOut takes n ((f, p) # ps) = (if takes n f then (f, p) # goneOut takes (n + 1) ps else goneOut takes (n + 1) ps)"

lemma goneOut_append: "goneOut w n (ps @ qs) = goneOut w n ps @ goneOut w (n + length ps) qs"
  by (induction w n ps rule: goneOut.induct) simp_all

lemma goneOut_all: "(\<And>k f. w k f) \<Longrightarrow> goneOut w n ps = ps"
  by (induction w n ps rule: goneOut.induct) simp_all

lemma visit_told:
  assumes "code p = IG_DEV_RECV" "\<And>c. c \<in> set cs \<Longrightarrow> receiving c \<noteq> 0 \<longrightarrow> known c"
  shows "visit (tellReceivers True p w) (n, out) cs = (cs, n + length (told p cs), out @ goneOut w n (told p cs))"
  using assms(2)
proof (induction cs arbitrary: n out)
  case (Cons c cs)
  have "tellReceivers True p w (n, out) c = (True, n + length (told p [c]), out @ goneOut w n (told p [c]))"
    using Cons.prems [of c] assms(1) translate_recv [of "c_version c"] by (simp add: tellReceivers_def told_def known_def)
  moreover have "told p (c # cs) = told p [c] @ told p cs" by (simp add: told_def)
  ultimately show ?case using Cons.IH Cons.prems by (simp add: goneOut_append add.assoc)
qed (simp add: told_def)

lemma tellAll_told:
  assumes "code p = IG_DEV_RECV" "\<And>c. c \<in> set (clientList L) \<Longrightarrow> receiving c \<noteq> 0 \<longrightarrow> known c"
  shows "tellAll True p L = L\<lparr>delivered := delivered L @ goneOut (pipeTakes L) (pipeTries L) (told p (clientList L)),
    pipeTries := pipeTries L + length (told p (clientList L))\<rparr>"
  using visit_told [OF assms] by (simp add: tellAll_def)

text \<open>A packet is offered to the clients of a listener, and arrives where its write succeeds.\<close>

definition offering :: "dataPacket \<Rightarrow> listener \<Rightarrow> listener" where
  "offering p L = L\<lparr>delivered := delivered L @ goneOut (pipeTakes L) (pipeTries L) (told p (clientList L)),
     pipeTries := pipeTries L + length (told p (clientList L))\<rparr>"

lemma offering_simps [simp]:
  "clientList (offering p L) = clientList L" "pipeTakes (offering p L) = pipeTakes L" "idev (offering p L) = idev L"
  by (simp_all add: offering_def)

section \<open>Received signals reach the receivers\<close>

text \<open>The packet a client should get for the bytes of a signal: one 32-bit word for each run.\<close>

definition runPacket :: "byte list \<Rightarrow> dataPacket" where
  "runPacket bs =
     (let runs = map run_word (signal_runs (butlast bs))
      in \<lparr>code = IG_DEV_RECV, dataLen = int (4 * length runs), data = Some (concat (map (le_bytes 4) runs))\<rparr>)"

lemma deliver_signal:
  assumes "1 < length bs" "length bs \<le> 768" "modes_ok (clientList L)"
    and "\<And>c. c \<in> set (clientList L) \<Longrightarrow> receiving c \<noteq> 0 \<longrightarrow> known c"
  shows "deliver (signal_packet bs) L = Inr (offering (runPacket bs) L)"
proof -
  have "0 < length (butlast bs)" "length (butlast bs) \<le> 767" using assms(1,2) unfolding length_butlast by linarith+
  then obtain ps where ps: "iguanaDevToPulses (butlast bs) (int (length (butlast bs))) = Inr ps"
    "map unat ps = map run_word (signal_runs (butlast bs))"
    using decoded_runs [of "butlast bs"] by blast
  have "pulseBytes ps = concat (map (le_bytes 4) (map unat ps))" by (simp add: pulseBytes_def comp_def)
  moreover have "length ps = length (signal_runs (butlast bs))" using ps(2) by (metis length_map)
  ultimately have p: "answer (pulseBytes ps) (signal_packet bs) = runPacket bs"
    using ps(2) length_pulseBytes [of ps] by (simp add: answer_def signal_packet_def runPacket_def)
  have "code (runPacket bs) = IG_DEV_RECV" by (simp add: runPacket_def Let_def)
  from tellAll_told [OF this assms(4)] p show ?thesis
    using ps(1) tellAll_raw [OF assms(3)] assms(1) by (simp add: deliver_def signal_packet_def of_nat_diff offering_def)
qed

lemma handleReader_signal:
  assumes "1 < length bs" "length bs \<le> 768" "modes_ok (clientList L)"
    and "\<And>c. c \<in> set (clientList L) \<Longrightarrow> receiving c \<noteq> 0 \<longrightarrow> known c"
    and "idev L = Some d" "recvList d = signal_packet bs # ps" "readerPipe d = Suc n"
  shows "handleReader L = Inr (True, offering (runPacket bs) (setDev (d\<lparr>readerPipe := n, recvList := ps\<rparr>) L))"
  using deliver_signal [of bs "setDev (d\<lparr>readerPipe := n, recvList := ps\<rparr>) L"] assms
  by (simp add: handleReader_def withDev_def removeNextPacket_def setDev_def)


lemma reader_delivers:
  assumes "\<And>bs. bs \<in> set bss \<Longrightarrow> 1 < length bs \<and> length bs \<le> 768" "modes_ok (clientList L)"
    and "\<And>c. c \<in> set (clientList L) \<Longrightarrow> receiving c \<noteq> 0 \<longrightarrow> known c"
    and "idev L = Some d" "recvList d = map signal_packet bss" "readerPipe d = length bss"
  shows "\<exists>L' d'. listenLoop (replicate (length bss) ReaderReady) L = Inr (False, L') \<and> idev L' = Some d' \<and> recvList d' = []
    \<and> clientList L' = clientList L
    \<and> delivered L' = delivered L @ goneOut (pipeTakes L) (pipeTries L) (concat (map (\<lambda>bs. told (runPacket bs) (clientList L)) bss))"
  using assms
proof (induction bss arbitrary: L d)
  case (Cons bs bss)
  let ?d = "d\<lparr>readerPipe := length bss, recvList := map signal_packet bss\<rparr>"
  let ?L = "offering (runPacket bs) (setDev ?d L)"
  have "handleReader L = Inr (True, ?L)"
    using handleReader_signal [of bs L d] Cons.prems by simp
  moreover have "\<exists>L' d'. listenLoop (replicate (length bss) ReaderReady) ?L = Inr (False, L') \<and> idev L' = Some d' \<and> recvList d' = []
    \<and> clientList L' = clientList ?L
    \<and> delivered L' = delivered ?L @ goneOut (pipeTakes ?L) (pipeTries ?L) (concat (map (\<lambda>bs. told (runPacket bs) (clientList ?L)) bss))"
    by (rule Cons.IH [where d = ?d]) (use Cons.prems in \<open>simp_all add: setDev_def\<close>)
  ultimately show ?case using Cons.prems(4) by (simp add: setDev_def offering_def goneOut_append)
qed simp

lemma signals_stored:
  "list_all is_signal bss \<Longrightarrow> \<not> fixToggle s \<Longrightarrow> handleIncomingPackets (map got bss) s
    = Inr (False, s\<lparr>recvList := recvList s @ map signal_packet bss, readerPipe := readerPipe s + length bss\<rparr>)"
  using signals_loop by (simp add: handleIncomingPackets_def)

lemma signals_reach:
  assumes "list_all is_signal bss" "list_all (\<lambda>bs. 1 < length bs \<and> length bs \<le> 768) bss"
    and "idev L = Some d" "\<not> fixToggle d" "recvList d = []" "readerPipe d = 0"
    and "modes_ok (clientList L)" "list_all (\<lambda>c. receiving c \<noteq> 0 \<longrightarrow> known c) (clientList L)"
  shows "\<exists>d' L'. handleIncomingPackets (map got bss) d = Inr (False, d')
    \<and> listenLoop (replicate (length bss) ReaderReady) (setDev d' L) = Inr (False, L')
    \<and> clientList L' = clientList L
    \<and> delivered L' = delivered L @ goneOut (pipeTakes L) (pipeTries L) (concat (map (\<lambda>bs. told (runPacket bs) (clientList L)) bss))"
proof -
  let ?d = "d\<lparr>recvList := map signal_packet bss, readerPipe := length bss\<rparr>"
  have d: "handleIncomingPackets (map got bss) d = Inr (False, ?d)"
    using signals_stored [OF assms(1,4)] assms(5,6) by simp
  have "\<exists>L' d'. listenLoop (replicate (length bss) ReaderReady) (setDev ?d L) = Inr (False, L') \<and> idev L' = Some d' \<and> recvList d' = []
    \<and> clientList L' = clientList (setDev ?d L)
    \<and> delivered L' = delivered (setDev ?d L) @ goneOut (pipeTakes (setDev ?d L)) (pipeTries (setDev ?d L))
        (concat (map (\<lambda>bs. told (runPacket bs) (clientList (setDev ?d L))) bss))"
    by (rule reader_delivers [where d = ?d]) (use assms in \<open>simp_all add: setDev_def list_all_iff\<close>)
  then show ?thesis using d by (auto simp: setDev_def)
qed

text \<open>
  C3.  A received signal goes to the clients, from the USB endpoint to their connections: when the reader
  thread takes in signal packets and the worker then serves its notifications, every client that asked
  for signals is offered every signal once, in order, as the runs of the signal decoded to microseconds
  and under the code of the client's protocol version.  What goes out whole on the
  connections is exactly what was offered, less the packets whose own write failed (a client that does
  not read for 100 ms loses them, and stays connected); nobody else gets anything, no client is dropped,
  and when no write fails every receiver gets every signal.
\<close>

theorem received_signals_reach_receivers:
  assumes "list_all is_signal bss" "list_all (\<lambda>bs. 1 < length bs \<and> length bs \<le> 768) bss"
    and "idev L = Some d" "\<not> fixToggle d" "recvList d = []" "readerPipe d = 0"
    and "modes_ok (clientList L)" "list_all (\<lambda>c. receiving c \<noteq> 0 \<longrightarrow> known c) (clientList L)"
  shows "\<exists>d' L'. handleIncomingPackets (map got bss) d = Inr (False, d')
    \<and> listenLoop (replicate (length bss) ReaderReady) (setDev d' L) = Inr (False, L')
    \<and> clientList L' = clientList L
    \<and> delivered L' = delivered L @ goneOut (pipeTakes L) (pipeTries L) (concat (map (\<lambda>bs. told (runPacket bs) (clientList L)) bss))
    \<and> ((\<forall>k f. pipeTakes L k f) \<longrightarrow> delivered L' = delivered L @ concat (map (\<lambda>bs. told (runPacket bs) (clientList L)) bss))"
  using signals_reach [OF assms] goneOut_all [of "pipeTakes L"] by fastforce


text \<open>A listener for the examples, with its clients.\<close>

definition listenerOf :: "devWorld option \<Rightarrow> client list \<Rightarrow> listener" where
  "listenerOf d cs = \<lparr>idev = d, clientList = cs, readLabels = True, devs = [], location = (1, 2), resetWorks = True,
     links_to = (\<lambda>_. None), taken_names = {}, ctlErrno = 0, delivered = [],
     pipeTakes = (\<lambda>_ _. True), pipeTries = 0\<rparr>"

theorem received_signals_reach_receivers_witness:
  "\<exists>d' L'. handleIncomingPackets (map got [[0x03, 0x04, 0x82, 7]]) devWorld0 = Inr (False, d')
    \<and> listenLoop (replicate 1 ReaderReady) (setDev d' ((listenerOf (Some devWorld0)
          [\<lparr>fd = 5, receiving = IG_DEV_RECVON, c_version = 0\<rparr>, \<lparr>fd = 6, receiving = 0, c_version = 1\<rparr>,
           \<lparr>fd = 7, receiving = IG_DEV_RECVON, c_version = 1\<rparr>])\<lparr>pipeTakes := \<lambda>_ f. f \<noteq> 7\<rparr>)) = Inr (False, L')
    \<and> delivered L' = [(5, \<lparr>code = 0x10, dataLen = 8, data = Some [192, 0, 0, 1, 64, 0, 0, 0]\<rparr>)]"
proof -
  let ?L = "(listenerOf (Some devWorld0)
     [\<lparr>fd = 5, receiving = IG_DEV_RECVON, c_version = 0\<rparr>, \<lparr>fd = 6, receiving = 0, c_version = 1\<rparr>,
      \<lparr>fd = 7, receiving = IG_DEV_RECVON, c_version = 1\<rparr>])\<lparr>pipeTakes := \<lambda>_ f. f \<noteq> 7\<rparr>"
  have told: "told (runPacket [0x03, 0x04, 0x82, 7]) (clientList ?L)
      = [(5, \<lparr>code = 0x10, dataLen = 8, data = Some [192, 0, 0, 1, 64, 0, 0, 0]\<rparr>),
         (7, \<lparr>code = IG_DEV_RECV, dataLen = 8, data = Some [192, 0, 0, 1, 64, 0, 0, 0]\<rparr>)]"
    by (simp add: told_def listenerOf_def runPacket_def recvWire_def is_pulse_def ticks_def run_word_def le_bytes_def upt_rec)
  show ?thesis
    using received_signals_reach_receivers [of "[[0x03, 0x04, 0x82, 7]]" ?L devWorld0] told
    by (auto simp: is_signal_def listenerOf_def devWorld0_def modes_ok_def known_def)
qed

section \<open>The invariant of the loop\<close>

definition all_known :: "listener \<Rightarrow> bool" where
  "all_known L \<longleftrightarrow> list_all (\<lambda>c. receiving c \<noteq> 0 \<longrightarrow> known c) (clientList L)"

lemma deliver_frame:
  assumes "deliver p L = Inr L'" "modes_ok (clientList L)" "all_known L"
  shows "\<exists>out n. L' = L\<lparr>delivered := out, pipeTries := n\<rparr>"
proof -
  have k: "\<And>c. c \<in> set (clientList L) \<Longrightarrow> receiving c \<noteq> 0 \<longrightarrow> known c"
    using assms(3) by (simp add: all_known_def list_all_iff)
  have raw: "tellAll False q L = L" for q by (rule tellAll_raw [OF assms(2)])
  consider "L' = L" | ps where "code p = IG_DEV_RECV" "L' = tellAll True (answer (pulseBytes ps) p) L"
    using assms(1) unfolding deliver_def raw Let_def
    by (auto simp: res_simps split: if_splits option.splits)
  then show ?thesis
  proof cases
    case 1
    then show ?thesis by (intro exI [of _ "delivered L"] exI [of _ "pipeTries L"]) simp
  next
    case (2 ps)
    then show ?thesis using tellAll_told [OF _ k, of "answer (pulseBytes ps) p"] by (simp, blast)
  qed
qed

lemma ok_frame:
  assumes "listener_ok L" "idev L = Some d" "receiverCount e = receiverCount d" "carrier e = carrier d"
  shows "listener_ok (L\<lparr>idev := Some e, delivered := out, pipeTries := n\<rparr>)"
  using assms by (simp add: listener_ok_def countOf_def receivers_def device_ok_def carrier_ok_def)

lemma handleReader_ok:
  assumes "listener_ok L" "all_known L" "handleReader L = Inr (ok, L')"
  shows "listener_ok L'"
proof -
  obtain d where d: "idev L = Some d" using assms(3) by (cases "idev L") (simp_all add: handleReader_def withDev_def)
  show ?thesis
  proof (cases "readerPipe d")
    case 0
    then show ?thesis using assms(1,3) d by (simp add: handleReader_def withDev_def)
  next
    case (Suc n)
    obtain p ps where ps: "recvList d = p # ps"
      using assms(3) d Suc by (cases "recvList d") (simp_all add: handleReader_def withDev_def removeNextPacket_def)
    let ?d = "d\<lparr>readerPipe := n, recvList := ps\<rparr>"
    have "deliver p (setDev ?d L) = Inr L'"
      using assms(3) d Suc ps
      by (cases "deliver p (setDev ?d L)") (simp_all add: handleReader_def withDev_def removeNextPacket_def)
    moreover have "modes_ok (clientList (setDev ?d L))" "all_known (setDev ?d L)"
      using assms(1,2) by (simp_all add: setDev_def listener_ok_def all_known_def)
    ultimately obtain out k where "L' = setDev ?d L\<lparr>delivered := out, pipeTries := k\<rparr>" using deliver_frame by blast
    then show ?thesis using ok_frame [OF assms(1) d, where e = ?d and out = out and n = k] by (simp add: setDev_def)
  qed
qed

lemma clientConnected_ok: "listener_ok L \<Longrightarrow> length (clientList L) < 2 ^ 32 - 1 \<Longrightarrow> listener_ok (clientConnected f L)"
  by (cases f) (simp_all add: clientConnected_def listener_ok_def countOf_def receivers_def device_ok_def modes_ok_def)

lemma releaseAll_ok:
  "releaseAll n L = Inr L' \<Longrightarrow> listener_ok L \<Longrightarrow> n = length (clientList L) \<Longrightarrow> listener_ok L' \<and> clientList L' = []"
proof (induction n arbitrary: L)
  case (Suc n)
  obtain M where M: "releaseClient 0 L = Inr M" "releaseAll n M = Inr L'"
    using Suc.prems(1) by (cases "releaseClient 0 L") simp_all
  have "0 < length (clientList L)" using Suc.prems(3) by linarith
  note m = releaseClient_ok [OF Suc.prems(2) this M(1)]
  have "n = length (clientList M)" using m(2) Suc.prems(3) by (simp add: removeAt_def)
  then show ?case using Suc.IH [OF M(2) m(1)] by simp
qed simp

lemma closeListener_ok:
  assumes "closeListener L = Inr L'" "listener_ok L"
  shows "listener_ok L' \<and> clientList L' = []"
proof -
  have frame: "listener_ok (L\<lparr>links_to := ls\<rparr>)" for ls
    using assms(2) by (simp add: listener_ok_def countOf_def receivers_def device_ok_def)
  obtain M where "releaseAll (length (clientList M)) M = Inr L'" "listener_ok M"
    using assms frame by (auto simp: closeListener_def res_simps split: option.splits)
  then show ?thesis using releaseAll_ok by blast
qed

text \<open>
  A run whose clients are polite: the requests follow \<open>polite\<close>, the clients that receive when a signal
  comes in have announced a version the daemon knows, and there are fewer than $2^{32}$ connections.
\<close>

fun polite_run :: "listenEvent list \<Rightarrow> listener \<Rightarrow> bool" where
  "polite_run [] L = True"
| "polite_run (ReaderReady # evs) L =
     (all_known L \<and> (case handleReader L of Inr (True, L') \<Rightarrow> polite_run evs L' | _ \<Rightarrow> True))"
| "polite_run (ListenFailed # evs) L = True"
| "polite_run (Accepted f # evs) L = (length (clientList L) < 2 ^ 32 - 1 \<and> polite_run evs (clientConnected f L))"
| "polite_run (ClientReady i request writeOk # evs) L =
     (if i < length (clientList L)
      then (case request of None \<Rightarrow> True | Some r \<Rightarrow> polite r (clientList L ! i))
           \<and> (case handleClient i request writeOk L of Inr (ok, L') \<Rightarrow> polite_run evs L' | Inl e \<Rightarrow> True)
      else polite_run evs L)"

lemma listenLoop_ok:
  "listenLoop evs L = Inr (ended, L') \<Longrightarrow> listener_ok L \<Longrightarrow> polite_run evs L \<Longrightarrow>
     listener_ok L' \<and> (ended \<longrightarrow> clientList L' = [])"
proof (induction evs L rule: listenLoop.induct)
  case (2 evs L)
  show ?case
  proof (cases "idev L = None")
    case True
    then show ?thesis using 2(2,3) closeListener_ok by (auto simp: res_simps)
  next
    case False
    then obtain ok M where M: "handleReader L = Inr (ok, M)"
      using 2(2) by (cases "handleReader L") auto
    have m: "listener_ok M" using handleReader_ok [OF 2(3) _ M] 2(4) by simp
    show ?thesis
    proof (cases ok)
      case True
      then show ?thesis using 2(1) [OF False True, of M] 2(2,4) M m False by simp
    next
      case False
      then show ?thesis using 2(2) M m closeListener_ok \<open>idev L \<noteq> None\<close> by (auto simp: res_simps)
    qed
  qed
next
  case (3 evs L)
  then show ?case using closeListener_ok by (auto simp: res_simps)
next
  case (4 f evs L)
  then show ?case using clientConnected_ok by simp
next
  case (5 i request writeOk evs L)
  show ?case
  proof (cases "i < length (clientList L)")
    case True
    then obtain ok M where M: "handleClient i request writeOk L = Inr (ok, M)"
      using 5(3) by (cases "handleClient i request writeOk L") auto
    have "listener_ok M"
      by (rule handleClient_ok [OF 5(4) True _ M]) (use 5(5) True in simp)
    then show ?thesis using 5(1) [OF True, of M] 5(3,5) M True by simp
  next
    case False
    then show ?thesis using 5 by simp
  qed
qed simp

text \<open>
  C4.  A listener keeps its books: over any run with polite clients that comes through without a fault of the
  program (\<open>Client_Requests\<close> has the requests that cause one), whatever requests, writes and transactions
  fail on the way, the device's receiver count is the number of clients that receive, clients receive
  decoded signals or nothing, and the carrier stays between 25 and 150 kHz whatever clients ask for.  When
  the listener shuts down no client is left and the receiver count is zero.
\<close>

theorem listener_invariant:
  assumes "listenLoop evs L = Inr (ended, L')" "listener_ok L" "polite_run evs L"
  shows "countOf L' = word_of_nat (receivers L') \<and> modes_ok (clientList L') \<and> device_ok L'
    \<and> (ended \<longrightarrow> clientList L' = [] \<and> countOf L' = 0)"
  using listenLoop_ok [OF assms] by (auto simp: listener_ok_def receivers_def)

lemmas listen_simps = handleClient_def handleClientRequest_def translateProtocol_v0 codeMap0_def checkIncomingProtocol_def
  findTypeEntry_def types_def vt_def payloadMatch_def setErrno_def requestSwitch_def passToDevice_def noteReceiver_def
  takeResponse_def listenerOf_def clientConnected_def devWorld0_def withDev_def setDev_def read_bytes_def uchar_def

definition exampleRun :: "listenEvent list" where
  "exampleRun = [Accepted (Some 5), ClientReady 0 (Some \<lparr>code = IG_EXCH_VERSIONS, dataLen = 2, data = Some [1, 0]\<rparr>) True,
     ClientReady 0 (Some \<lparr>code = IG_DEV_SETCARRIER, dataLen = 4, data = Some [0, 0, 0, 9]\<rparr>) True]"

definition greeted :: listener where
  "greeted = (listenerOf (Some (devWorld0\<lparr>errno := EINVAL\<rparr>)) [\<lparr>fd = 5, receiving = 0, c_version = 1\<rparr>])
     \<lparr>delivered := [(5, \<lparr>code = IG_EXCH_VERSIONS, dataLen = 2, data = Some [1, 0]\<rparr>)]\<rparr>"

lemma greet:
  "handleClient 0 (Some \<lparr>code = IG_EXCH_VERSIONS, dataLen = 2, data = Some [1, 0]\<rparr>) True
     (listenerOf (Some devWorld0) [\<lparr>fd = 5, receiving = 0, c_version = 0\<rparr>]) = Inr (True, greeted)"
  by (simp add: listen_simps exchVersions_def greeted_def le_bytes_def upt_rec)

lemma too_low:
  "handleClient 0 (Some \<lparr>code = IG_DEV_SETCARRIER, dataLen = 4, data = Some [0, 0, 0, 9]\<rparr>) True greeted
     = Inr (True, greeted\<lparr>idev := Some (devWorld0\<lparr>errno := EINVAL, carrier := 25000\<rparr>),
         delivered := delivered greeted @ [(5, \<lparr>code = IG_DEV_SETCARRIER, dataLen = 4, data = Some [0, 0, 97, 168]\<rparr>)]\<rparr>)"
  by (simp add: listen_simps setCarrier_def clampCarrier_def greeted_def be_bytes_def be_nat_def le_bytes_def upt_rec)

theorem listener_invariant_witness:
  "\<exists>L'. listenLoop exampleRun (listenerOf (Some devWorld0) []) = Inr (False, L') \<and> modes_ok (clientList L')
     \<and> map_option carrier (idev L') = Some 25000 \<and> countOf L' = word_of_nat (receivers L') \<and> device_ok L'"
proof -
  let ?L = "listenerOf (Some devWorld0) []"
  have c: "clientConnected (Some 5) ?L = listenerOf (Some devWorld0) [\<lparr>fd = 5, receiving = 0, c_version = 0\<rparr>]"
    by (simp add: clientConnected_def listenerOf_def)
  have len: "length (clientList greeted) = 1" "length (clientList (listenerOf d [x])) = 1" for d x
    by (simp_all add: greeted_def listenerOf_def)
  obtain L' where L': "listenLoop exampleRun ?L = Inr (False, L')" "map_option carrier (idev L') = Some 25000"
    by (simp add: exampleRun_def c greet too_low len)
  have "listener_ok ?L"
    by (simp add: listenerOf_def listener_ok_def countOf_def receivers_def modes_ok_def device_ok_def carrier_ok_def devWorld0_def)
  moreover have "polite_run exampleRun ?L"
    by (simp add: exampleRun_def c greet too_low len)
       (simp add: polite_def listenerOf_def greeted_def)
  ultimately show ?thesis using listener_invariant [OF L'(1)] L' by blast
qed

end
