(* ===== verification/Client_Requests.thy ===== *)
theory Client_Requests
  imports Listener_Properties
begin

text \<open>
  Single requests of clients: settings that are read back, and requests that leave the books of a
  listener wrong or end the daemon.
\<close>

section \<open>Settings\<close>

lemmas switch_simps = handleClientRequest_def checkIncomingProtocol_def findTypeEntry_def types_def vt_def payloadMatch_def
  setErrno_def requestSwitch_def passToDevice_def noteReceiver_def takeResponse_def withDev_def setDev_def uchar_def

lemma setCarrier_run:
  assumes "c_version c = 1" "idev L = Some d" "0x101 \<le> version d" "length bs = 4"
  shows "handleClientRequest \<lparr>code = IG_DEV_SETCARRIER, dataLen = 4, data = Some bs\<rparr> c L
    = Inr (True, \<lparr>code = IG_DEV_SETCARRIER, dataLen = 4, data = Some (be_bytes 4 (unat (clampCarrier (word_of_nat (be_nat bs)))))\<rparr>,
           c, L\<lparr>idev := Some (d\<lparr>errno := EINVAL, carrier := clampCarrier (word_of_nat (be_nat bs))\<rparr>)\<rparr>)"
  using assms by (simp add: switch_simps setCarrier_def read_bytes_def Let_def)

lemma getCarrier_run:
  assumes "c_version c = 1" "idev L = Some d" "0x101 \<le> version d"
  shows "handleClientRequest (requestOf IG_DEV_GETCARRIER) c L
    = Inr (True, \<lparr>code = IG_DEV_GETCARRIER, dataLen = 4, data = Some (be_bytes 4 (unat (carrier d)))\<rparr>,
           c, L\<lparr>idev := Some (d\<lparr>errno := EINVAL\<rparr>)\<rparr>)"
  using assms by (simp add: switch_simps getCarrier_def answer_def requestOf_def DATA_PACKET_INIT_def)

text \<open>
  The carrier a client sets is the carrier it reads back, in network byte order: the frequency it
  asked for when that is between 25 and 150 kHz and the nearer end of that range otherwise; the answer
  to the setting request already says so.
\<close>

theorem carrier_roundtrip:
  assumes "c_version c = 1" "idev L = Some d" "0x101 \<le> version d" "f < 2 ^ 32"
  shows "\<exists>L1 L2 r1 r2.
    handleClientRequest \<lparr>code = IG_DEV_SETCARRIER, dataLen = 4, data = Some (be_bytes 4 f)\<rparr> c L = Inr (True, r1, c, L1)
    \<and> handleClientRequest (requestOf IG_DEV_GETCARRIER) c L1 = Inr (True, r2, c, L2)
    \<and> data r1 = Some (be_bytes 4 (max 25000 (min 150000 f))) \<and> data r2 = data r1 \<and> dataLen r2 = 4"
proof -
  have n: "unat (word_of_nat (be_nat (be_bytes 4 f)) :: u32) = f"
    using assms(4) by (simp add: be_nat_be_bytes unat_of_nat)
  have "unat (clampCarrier (word_of_nat (be_nat (be_bytes 4 f)))) = max 25000 (min 150000 f)"
    using n by (simp add: clampCarrier_def word_less_nat_alt)
  then show ?thesis
    using setCarrier_run [OF assms(1-3), of "be_bytes 4 f"] getCarrier_run [OF assms(1)] assms(3) by simp
qed

theorem carrier_roundtrip_witness:
  "\<exists>L1 r1. handleClientRequest \<lparr>code = IG_DEV_SETCARRIER, dataLen = 4, data = Some (be_bytes 4 9)\<rparr>
      \<lparr>fd = 5, receiving = 0, c_version = 1\<rparr> (listenerOf (Some devWorld0) []) = Inr (True, r1, \<lparr>fd = 5, receiving = 0, c_version = 1\<rparr>, L1)
    \<and> data r1 = Some (be_bytes 4 25000)"
  using carrier_roundtrip [of "\<lparr>fd = 5, receiving = 0, c_version = 1\<rparr>" "listenerOf (Some devWorld0) []" devWorld0 9]
  by (auto simp: listenerOf_def devWorld0_def)

lemma known_features:
  "version d AND 0xFF \<noteq> 0 \<Longrightarrow> version d AND 0xFF00 \<noteq> 0 \<Longrightarrow> features d \<noteq> UNKNOWN_FEATURES \<Longrightarrow>
     checkFeatures d IG_SLOT_DEV = Inr (features d = IG_SLOT_DEV, d)"
  by (auto simp: checkFeatures_def)

text \<open>
  The channels a client selects are read back up to the bits the hardware has: six channels on a slot
  device, four otherwise; the bits above them are dropped without an error.
\<close>

theorem channels_roundtrip:
  assumes "c_version c = 1" "idev L = Some d" "4 \<le> version d"
    and "version d AND 0xFF \<noteq> 0" "version d AND 0xFF00 \<noteq> 0" "features d \<noteq> UNKNOWN_FEATURES"
  shows "\<exists>L1 L2 r1 r2.
    handleClientRequest \<lparr>code = IG_DEV_SETCHANNELS, dataLen = 1, data = Some [b]\<rparr> c L = Inr (True, r1, c, L1)
    \<and> handleClientRequest (requestOf IG_DEV_GETCHANNELS) c L1 = Inr (True, r2, c, L2)
    \<and> data r2 = Some [take_bit (if features d = IG_SLOT_DEV then 6 else 4) b] \<and> dataLen r2 = 1"
proof -
  define k :: nat where "k = (if features d = IG_SLOT_DEV then 2 else 4)"
  let ?L1 = "L\<lparr>idev := Some (d\<lparr>errno := EINVAL, channels := push_bit k b\<rparr>)\<rparr>"
  have "handleClientRequest \<lparr>code = IG_DEV_SETCHANNELS, dataLen = 1, data = Some [b]\<rparr> c L
    = Inr (True, \<lparr>code = IG_DEV_SETCHANNELS, dataLen = 1, data = Some [b]\<rparr>, c, ?L1)"
    using assms by (simp add: switch_simps known_features setChannels_def byte_at_def k_def)
  moreover have "handleClientRequest (requestOf IG_DEV_GETCHANNELS) c ?L1
    = Inr (True, \<lparr>code = IG_DEV_GETCHANNELS, dataLen = 1, data = Some [drop_bit k (push_bit k b)]\<rparr>, c, ?L1)"
    using assms by (simp add: switch_simps known_features getChannels_def answer_def k_def requestOf_def DATA_PACKET_INIT_def)
  moreover have "drop_bit k (push_bit k b) = take_bit (if features d = IG_SLOT_DEV then 6 else 4) b"
    by (rule bit_word_eqI) (auto simp: k_def bit_simps)
  ultimately show ?thesis by simp
qed

theorem channels_roundtrip_witness:
  "\<exists>L1 L2 r1 r2. handleClientRequest \<lparr>code = IG_DEV_SETCHANNELS, dataLen = 1, data = Some [0x1F]\<rparr>
      \<lparr>fd = 5, receiving = 0, c_version = 1\<rparr> (listenerOf (Some (devWorld0\<lparr>features := 0\<rparr>)) [])
        = Inr (True, r1, \<lparr>fd = 5, receiving = 0, c_version = 1\<rparr>, L1)
    \<and> handleClientRequest (requestOf IG_DEV_GETCHANNELS) \<lparr>fd = 5, receiving = 0, c_version = 1\<rparr> L1
        = Inr (True, r2, \<lparr>fd = 5, receiving = 0, c_version = 1\<rparr>, L2) \<and> data r2 = Some [0x0F] \<and> dataLen r2 = 1"
  using channels_roundtrip [of "\<lparr>fd = 5, receiving = 0, c_version = 1\<rparr>"
      "listenerOf (Some (devWorld0\<lparr>features := 0\<rparr>)) []" "devWorld0\<lparr>features := 0\<rparr>" "0x1F"]
  by (simp add: listenerOf_def devWorld0_def take_bit_eq_mask mask_numeral)

section \<open>Requests that upset the books\<close>

lemma recvOn_run:
  assumes "c_version c = 1" "idev L = Some d" "0 < receiverCount d"
  shows "handleClientRequest (requestOf IG_DEV_RECVON) c L
    = Inr (True, requestOf IG_DEV_RECVON, c\<lparr>receiving := IG_DEV_RECVON\<rparr>,
           L\<lparr>idev := Some (d\<lparr>errno := EINVAL, receiverCount := receiverCount d + 1\<rparr>)\<rparr>)"
  using assms by (simp add: switch_simps recvOn_def requestOf_def DATA_PACKET_INIT_def)

text \<open>
  A client that asks for signals twice and goes away leaves a receiver behind: the count stays at one
  with no client connected, and the device is never told to stop receiving.
\<close>

theorem second_recvon_leaks_a_receiver:
  assumes "idev L = Some d" "clientList L = [c]" "receiving c = IG_DEV_RECVON" "c_version c = 1" "receiverCount d = 1"
  shows "\<exists>M L'. handleClient 0 (Some (requestOf IG_DEV_RECVON)) True L = Inr (True, M)
    \<and> handleClient 0 None writeOk M = Inr (False, L')
    \<and> clientList L' = [] \<and> countOf L' = 1 \<and> map_option sent (idev L') = Some (sent d)"
proof -
  let ?M = "L\<lparr>idev := Some (d\<lparr>errno := EINVAL, receiverCount := 2\<rparr>), clientList := [c\<lparr>receiving := IG_DEV_RECVON\<rparr>],
    delivered := delivered L @ [(fd c, requestOf IG_DEV_RECVON)]\<rparr>"
  have "handleClient 0 (Some (requestOf IG_DEV_RECVON)) True L = Inr (True, ?M)"
    using recvOn_run [OF assms(4,1)] assms by (simp add: handleClient_def)
  moreover have "handleClient 0 None writeOk ?M
    = Inr (False, ?M\<lparr>idev := Some (d\<lparr>errno := EINVAL, receiverCount := 1\<rparr>), clientList := []\<rparr>)"
    by (simp add: handleClient_def releaseClient_def withDev_def removeAt_def setDev_def)
  ultimately show ?thesis by (simp add: countOf_def)
qed

theorem second_recvon_leaks_a_receiver_witness:
  "\<exists>M L'. handleClient 0 (Some (requestOf IG_DEV_RECVON)) True
      (listenerOf (Some (devWorld0\<lparr>receiverCount := 1\<rparr>)) [\<lparr>fd = 5, receiving = IG_DEV_RECVON, c_version = 1\<rparr>]) = Inr (True, M)
    \<and> handleClient 0 None True M = Inr (False, L') \<and> clientList L' = [] \<and> countOf L' = 1"
  using second_recvon_leaks_a_receiver [of "listenerOf (Some (devWorld0\<lparr>receiverCount := 1\<rparr>))
      [\<lparr>fd = 5, receiving = IG_DEV_RECVON, c_version = 1\<rparr>]" "devWorld0\<lparr>receiverCount := 1\<rparr>" _ True]
  by (simp add: listenerOf_def) blast

lemma requestOf_again [simp]: "requestOf c\<lparr>code := c\<rparr> = requestOf c"
  by (simp add: requestOf_def)

lemma recvOff_last_run:
  assumes "c_version c = 1" "idev L = Some d" "receiverCount d = 1"
  shows "handleClientRequest (requestOf IG_DEV_RECVOFF) c L
    = bind_res (deviceTransaction (d\<lparr>errno := EINVAL, receiverCount := 0\<rparr>) (requestOf IG_DEV_RECVOFF) False None)
        (\<lambda>(ok, e, r, resp). Inr (ok, if ok then takeResponse resp r else r, c\<lparr>receiving := 0\<rparr>, L\<lparr>idev := Some e\<rparr>))"
proof -
  have s: "requestSwitch (requestOf IG_DEV_RECVOFF) c (setErrno EINVAL L)
    = Inr (False, requestOf IG_DEV_RECVOFF, c\<lparr>receiving := 0\<rparr>, L\<lparr>idev := Some (d\<lparr>errno := EINVAL, receiverCount := 0\<rparr>)\<rparr>)"
    using assms by (simp add: requestSwitch_def recvOff_def setErrno_def withDev_def setDev_def)
  have t: "checkIncomingProtocol (idev L) (requestOf IG_DEV_RECVOFF) False \<noteq> None"
    using assms(2) by (simp add: checkIncomingProtocol_def findTypeEntry_def types_def vt_def payloadMatch_def uchar_def)
  show ?thesis
  proof (cases "deviceTransaction (d\<lparr>errno := EINVAL, receiverCount := 0\<rparr>) (requestOf IG_DEV_RECVOFF) False None")
    case (Inl e)
    then show ?thesis using s t assms(1) by (auto simp: handleClientRequest_def passToDevice_def Let_def)
  next
    case (Inr x)
    obtain ok e r resp where x: "x = (ok, e, r, resp)" by (cases x)
    have "code r = IG_DEV_RECVOFF"
      using Inr x runTransaction_code by (fastforce simp: deviceTransaction_def)
    then show ?thesis using Inr x s t assms(1)
      by (auto simp: handleClientRequest_def passToDevice_def noteReceiver_def setDev_def takeResponse_def Let_def split: option.split)
  qed
qed

text \<open>
  A client that does not receive can take the signals of one that does: its RECVOFF brings the count
  of receivers from one to zero and turns the device's receiver off while the other client still waits.
  When that client leaves, the count wraps to \<open>0xFFFFFFFF\<close>, and from then on the daemon confirms RECVON
  without telling the device.
\<close>

theorem recvoff_of_another_wraps_the_count:
  assumes "idev L = Some d" "clientList L = [a, b]" "receiving a = IG_DEV_RECVON" "receiving b = 0" "c_version b = 1"
    "receiverCount d = 1" "handleClient 1 (Some (requestOf IG_DEV_RECVOFF)) True L = Inr (ok, M)"
  shows "countOf M = 0 \<and> receivers M = 1
    \<and> (\<exists>L' e. handleClient 0 None writeOk M = Inr (False, L') \<and> countOf L' = 0xFFFFFFFF \<and> idev L' = Some e
        \<and> (\<exists>r c N e'. handleClientRequest (requestOf IG_DEV_RECVON) b L' = Inr (True, r, c, N)
            \<and> idev N = Some e' \<and> sent e' = sent e))"
proof -
  let ?d = "d\<lparr>errno := EINVAL, receiverCount := 0\<rparr>"
  obtain v e r resp where tx: "deviceTransaction ?d (requestOf IG_DEV_RECVOFF) False None = Inr (v, e, r, resp)"
    using assms(7) recvOff_last_run [OF assms(5,1,6)] assms(2)
    by (cases "deviceTransaction ?d (requestOf IG_DEV_RECVOFF) False None") (auto simp: handleClient_def)
  have e: "receiverCount e = 0" using deviceTransaction_same_env [OF tx] by (simp add: same_env_def)
  have "code r = IG_DEV_RECVOFF" using tx runTransaction_code by (fastforce simp: deviceTransaction_def)
  then obtain out where M: "M = L\<lparr>idev := Some e, clientList := [a, b\<lparr>receiving := 0\<rparr>], delivered := out\<rparr>"
    using assms(7) recvOff_last_run [OF assms(5,1,6)] assms(2) tx
    by (auto simp: handleClient_def Let_def errorAnswer_def takeResponse_def split: if_splits option.splits)
  let ?L' = "M\<lparr>idev := Some (e\<lparr>receiverCount := 0xFFFFFFFF\<rparr>), clientList := [b\<lparr>receiving := 0\<rparr>]\<rparr>"
  have "handleClient 0 None writeOk M = Inr (False, ?L')"
    using M e assms(3) by (simp add: handleClient_def releaseClient_def withDev_def removeAt_def setDev_def)
  moreover have "handleClientRequest (requestOf IG_DEV_RECVON) b ?L'
    = Inr (True, requestOf IG_DEV_RECVON, b\<lparr>receiving := IG_DEV_RECVON\<rparr>,
           ?L'\<lparr>idev := Some (e\<lparr>receiverCount := 0xFFFFFFFF, errno := EINVAL, receiverCount := 0\<rparr>)\<rparr>)"
    using recvOn_run [OF assms(5), of ?L' "e\<lparr>receiverCount := 0xFFFFFFFF\<rparr>"] by simp
  ultimately show ?thesis using M e assms(3) by (simp add: countOf_def receivers_def)
qed

definition twoClients :: listener where
  "twoClients = listenerOf (Some (devWorld0\<lparr>receiverCount := 1\<rparr>))
     [\<lparr>fd = 5, receiving = IG_DEV_RECVON, c_version = 1\<rparr>, \<lparr>fd = 6, receiving = 0, c_version = 1\<rparr>]"

lemma twoClients_run: "\<exists>ok M. handleClient 1 (Some (requestOf IG_DEV_RECVOFF)) True twoClients = Inr (ok, M)"
  by (simp add: twoClients_def listenerOf_def handleClient_def recvOff_last_run run_simps errorAnswer_def)

theorem recvoff_of_another_wraps_the_count_witness:
  "\<exists>ok M L'. handleClient 1 (Some (requestOf IG_DEV_RECVOFF)) True twoClients = Inr (ok, M)
     \<and> countOf M = 0 \<and> receivers M = 1 \<and> handleClient 0 None True M = Inr (False, L') \<and> countOf L' = 0xFFFFFFFF"
proof -
  obtain ok M where M: "handleClient 1 (Some (requestOf IG_DEV_RECVOFF)) True twoClients = Inr (ok, M)"
    using twoClients_run by blast
  have "clientList twoClients = [\<lparr>fd = 5, receiving = IG_DEV_RECVON, c_version = 1\<rparr>, \<lparr>fd = 6, receiving = 0, c_version = 1\<rparr>]"
    "idev twoClients = Some (devWorld0\<lparr>receiverCount := 1\<rparr>)"
    by (simp_all add: twoClients_def listenerOf_def)
  from recvoff_of_another_wraps_the_count [OF this(2,1) _ _ _ _ M, of True] show ?thesis using M by auto
qed

section \<open>Requests that end the daemon\<close>

text \<open>
  The control socket accepts requests that only make sense for a device: the protocol table has them
  for every version, the control socket counts as version 1, and the code then goes through the
  missing device.  Any of these requests of a client of the control socket is a NULL dereference.
\<close>

theorem device_request_on_control_socket_crashes:
  assumes "idev L = None" "c_version c = 1"
    and "r \<in> {requestOf IG_DEV_RECVON, requestOf IG_DEV_RECVOFF, requestOf IG_DEV_SEND, requestOf IG_DEV_SENDSIZE,
              requestOf IG_DEV_LISTALIASES, requestOf IG_DEV_GETADDRESS, requestOf IG_DEV_GETLOCATION}"
  shows "handleClientRequest r c L = Inl NullDeref"
proof -
  have t: "checkIncomingProtocol (idev L) r False \<noteq> None"
    using assms(1,3) by (elim insertE emptyE)
      (simp_all add: checkIncomingProtocol_def findTypeEntry_def types_def vt_def payloadMatch_def uchar_def)
  have "requestSwitch r c (setErrno EINVAL L) = Inl NullDeref"
    using assms(1,3) by (elim insertE emptyE) (simp_all add: requestSwitch_def recvOn_def recvOff_def sendPulses_def
        sendSize_def listAliases_def getAddress_def getLocation_def withDev_def setErrno_def)
  then show ?thesis using t assms(2) by (auto simp: handleClientRequest_def Let_def)
qed

theorem device_request_on_control_socket_crashes_witness:
  "handleClientRequest (requestOf IG_DEV_RECVON) \<lparr>fd = 5, receiving = 0, c_version = 1\<rparr> (listenerOf None []) = Inl NullDeref"
  by (rule device_request_on_control_socket_crashes) (simp_all add: listenerOf_def)

text \<open>
  The length check of a request compares the low byte of the length only.  A version exchange that
  announces -254 bytes passes as one of two bytes, no data is read for a negative length, and storing
  the version is a NULL dereference: a client needs no knowledge of the device, and no receiver, to do this.
\<close>

theorem negative_length_passes_the_check_and_crashes:
  "handleClientRequest \<lparr>code = IG_EXCH_VERSIONS, dataLen = - 254, data = None\<rparr> c L = Inl NullDeref"
proof -
  have "checkIncomingProtocol (idev L) \<lparr>code = IG_EXCH_VERSIONS, dataLen = - 254, data = None\<rparr> False \<noteq> None"
    by (simp add: checkIncomingProtocol_def findTypeEntry_def types_def vt_def payloadMatch_def uchar_def)
  then show ?thesis
    by (auto simp: handleClientRequest_def requestSwitch_def exchVersions_def read_bytes_def Let_def)
qed

text \<open>
  A client whose connection breaks while the answer to SETID is written is released and then used
  again for the refresh of the aliases.
\<close>

lemma setid_with_broken_connection_uses_released_client:
  assumes "handleClientRequest r (clientList L ! i) L = Inr (True, r', c, M)" "code r' = IG_DEV_SETID"
    and "receiving c = 0" "i < length (clientList M)"
  shows "handleClient i (Some r) False L = Inl UseAfterFree"
  using assms by (simp add: handleClient_def releaseClient_def)

text \<open>
  A device packet of one byte makes the worker leave its memory: the reader stores it as a signal
  without data, and decoding clears the first entry of a result that has none and reads the first byte
  of data that are not there.
\<close>

theorem one_byte_packet_leaves_the_buffers:
  assumes "idev L = Some d" "\<not> fixToggle d" "recvList d = []" "readerPipe d = 0"
  shows "\<exists>d'. handleIncomingPackets [got [b]] d = Inr (False, d') \<and> handleReader (setDev d' L) = Inl OutOfBounds"
proof -
  have "handleIncomingPackets (map got [[b]]) d = Inr (False, d\<lparr>recvList := map signal_packet [[b]], readerPipe := 1\<rparr>)"
    using signals_stored [of "[[b]]" d] assms(2-4) by (simp add: is_signal_def)
  then show ?thesis
    by (simp add: handleReader_def withDev_def setDev_def removeNextPacket_def deliver_def signal_packet_def
        iguanaDevToPulses_def)
qed

theorem one_byte_packet_leaves_the_buffers_witness:
  "\<exists>d'. handleIncomingPackets [got [7]] devWorld0 = Inr (False, d')
     \<and> handleReader (setDev d' (listenerOf (Some devWorld0) [])) = Inl OutOfBounds"
  by (rule one_byte_packet_leaves_the_buffers) (simp_all add: listenerOf_def devWorld0_def)

end
