(* ===== verification/End_To_End.thy ===== *)
theory End_To_End
  imports Client_Requests
begin

text \<open>
  A SEND request on its whole way: the bytes of the client's packet, the encoder, the control packet with
  the carrier delays, the chunks on the endpoint and the waveform the firmware plays from them.
\<close>

section \<open>What a transmission puts on the endpoint\<close>

lemma notified_sent: "notified s = (n, t) \<Longrightarrow> sent t = sent s"
proof -
  have "sent (fold (\<lambda>(p, f) s. queueDataPacket s p f) ps u) = sent u" for ps u
    by (induction ps arbitrary: u) (auto simp: queueDataPacket_def)
  then show "notified s = (n, t) \<Longrightarrow> sent t = sent s"
    by (auto simp: notified_def Let_def split: waitEvent.splits if_splits)
qed

lemma awaitAck_sent: "awaitAck type r s = Inr (ok, pos, t) \<Longrightarrow> sent t = sent s"
  by (auto simp: awaitAck_def Let_def dest!: notified_sent split: prod.splits if_splits option.splits)

lemma sendRequest_sent:
  assumes "sendRequest msg 0 r s = Inr (True, t)" "\<not> fixToggle s" "data r = Some bs" "dataLen r = int (length bs)"
    "bs \<noteq> []" "3 \<le> version s" "0 < maxPacketSize s"
  shows "\<exists>chunks. sent t = sent s @ msg # chunks \<and> concat chunks = bs
    \<and> (\<forall>p \<in> set chunks. 0 < length p \<and> length p \<le> maxPacketSize s)"
proof -
  define s1 where "s1 = flushToDevResponsePackets (injectToggleFix s)"
  have s1: "sent s1 = sent s" "maxPacketSize s1 = maxPacketSize s" "version s1 = version s"
    using assms(2) by (simp_all add: s1_def injectToggleFix_def flush_eq)
  obtain q u where u: "interruptSend msg s1 = (q, u)" by (cases "interruptSend msg s1")
  have u': "sent u = sent s @ [msg]" "maxPacketSize u = maxPacketSize s" "version u = version s"
    using interruptSend_eq [OF u] interruptSend_frame [OF u] s1 by (simp_all add: same_env_def)
  have rest: "restOfData r 0 = Inr bs" using assms(3,4) by (simp add: restOfData_def read_bytes_Some)
  have "\<not> version u < 3" using assms(6) u'(3) by (simp add: not_less)
  then have run: "sendData u bs False = Inr (True, t)"
    using assms(1,4,5) u rest by (simp add: sendRequest_def Let_def flip: s1_def split: if_splits)
  obtain ps where "sent t = sent u @ ps" "ps = chunksOf (maxPacketSize u) bs False"
    using sendData_chunks [of u bs False] run u'(2) assms(7) by auto
  then show ?thesis
    using u' concat_chunksOf [of "maxPacketSize s" bs False] chunksOf_bounds [OF assms(7), of _ bs False] by auto
qed

definition delaysFor :: "devWorld \<Rightarrow> byte list" where
  "delaysFor s = (case computeCarrierDelays (carrier s) (if 4 \<le> version s AND 0xFF then cycles s else 65) of (a, b) \<Rightarrow> [a, b])"

text \<open>A device with loader and body, whose features are known.\<close>

definition current :: "devWorld \<Rightarrow> bool" where
  "current s \<longleftrightarrow> 5 \<le> version s \<and> version s AND 0xFF \<noteq> 0 \<and> version s AND 0xFF00 \<noteq> 0 \<and> features s \<noteq> UNKNOWN_FEATURES
     \<and> 0 < maxPacketSize s \<and> \<not> fixToggle s"

lemma packRequest_send:
  assumes "current s" "code r = IG_DEV_SEND"
  shows "packRequest (\<lambda>s. checkFeatures s UNKNOWN_FEATURES) r s
    = Inr ([CTL_START, CTL_START, CTL_TODEV, IG_DEV_SEND, uchar (dataLen r), channels s] @ delaysFor s, 0, r, s)"
proof -
  have "loopCycles (\<lambda>s. checkFeatures s UNKNOWN_FEATURES) s = Inr (if 4 \<le> version s AND 0xFF then cycles s else 65, s)"
    using assms(1) by (auto simp: loopCycles_def checkFeatures_def current_def)
  then have "carrierBytes (\<lambda>s. checkFeatures s UNKNOWN_FEATURES) s = Inr (delaysFor s, s)"
    using assms(1) by (simp add: carrierBytes_def delaysFor_def current_def split: prod.splits)
  moreover have "\<not> version s \<le> 4" "\<not> version s < 3" using assms(1) by (auto simp: current_def word_le_nat_alt word_less_nat_alt)
  ultimately show ?thesis
    using assms(2) by (simp add: packRequest_def deviceCode_def translateDevice_def addChecksum_def isStream_def
        streamArgs_def)
qed

lemma send_transaction:
  assumes "deviceTransaction s r False None = Inr (True, t, r', resp)" "current s" "code r = IG_DEV_SEND"
    and "data r = Some bs" "dataLen r = int (length bs)" "bs \<noteq> []"
  shows "\<exists>chunks. sent t = sent s @ ([CTL_START, CTL_START, CTL_TODEV, IG_DEV_SEND, uchar (int (length bs)), channels s] @ delaysFor s) # chunks
    \<and> concat chunks = bs \<and> (\<forall>p \<in> set chunks. 0 < length p \<and> length p \<le> maxPacketSize s)"
proof -
  let ?s = "s\<lparr>errno := EINVAL\<rparr>"
  let ?msg = "[CTL_START, CTL_START, CTL_TODEV, IG_DEV_SEND, uchar (int (length bs)), channels s] @ delaysFor s"
  have c: "current ?s" "delaysFor ?s = delaysFor s" using assms(2) by (simp_all add: current_def delaysFor_def)
  have p: "packRequest (\<lambda>s. checkFeatures s UNKNOWN_FEATURES) r ?s = Inr (?msg, 0, r, ?s)"
    using packRequest_send [OF c(1) assms(3)] c(2) assms(5) by simp
  have run: "runTransaction (\<lambda>s. checkFeatures s UNKNOWN_FEATURES) s r False None = Inr (True, t, r', resp)"
    using assms(1,3) by (simp add: deviceTransaction_def)
  then obtain type where type: "checkIncomingProtocol (Some s) r False = Some type"
    by (cases "checkIncomingProtocol (Some s) r False") (simp_all add: runTransaction_def)
  obtain ok u where u: "sendRequest ?msg 0 r ?s = Inr (ok, u)"
    using run type p by (cases "sendRequest ?msg 0 r ?s") (auto simp: runTransaction_def)
  have "ok \<and> (t = u \<or> (\<exists>v pos. awaitAck type r u = Inr (v, pos, t)))"
    using run type p u by (cases "awaitAck type r u") (auto simp: runTransaction_def split: if_splits)
  then have "sendRequest ?msg 0 r ?s = Inr (True, u)" "sent t = sent u" using u awaitAck_sent by auto
  then show ?thesis
    using sendRequest_sent [of ?msg r ?s u bs] assms(2,4-6) by (simp add: current_def word_le_nat_alt)
qed

section \<open>From the client's packet to the waveform\<close>

lemma requestPulses_pulseBytes:
  assumes "data r = Some (pulseBytes ps)" "dataLen r = int (4 * length ps)" "length ps < 2 ^ 29"
  shows "requestPulses r = Inr ps"
proof -
  have "in_s32 (int (length ps))" using assms(3) by (simp add: in_s32_def)
  then have "s32 (dataLen r div 4) = int (length ps)" using assms(2) by simp
  then show ?thesis
    using assms(1) words32_pulseBytes [of ps] length_pulseBytes [of ps]
    by (auto simp: requestPulses_def read_bytes_Some)
qed

lemma send_type: "checkIncomingProtocol (Some s) r False \<noteq> None" if "code r = IG_DEV_SEND" for s :: devWorld
  using that by (simp add: checkIncomingProtocol_def findTypeEntry_def types_def vt_def payloadMatch_def uchar_def)

text \<open>
  What a device makes of a control packet and the packets after it: whether it confirms, and what it
  plays.  A body from version 8 on runs \<open>send_body\<close> on the byte count at position 4 of the control packet
  (\<open>CDATA\<close>), from whatever the last request left in its memory; older bodies, which are not in the
  repository, play the documented format of as many bytes as were announced.
\<close>

definition plays :: "devWorld \<Rightarrow> firmware \<Rightarrow> byte list list \<Rightarrow> (bool \<times> bool list) option" where
  "plays d fw packets =
     (case packets of [] \<Rightarrow> None
      | control # chunks \<Rightarrow>
          if 8 \<le> version d AND 0xFF then send_body (control ! 4) fw chunks
          else Some (True, transmit_plain (take (unat (control ! 4)) (concat chunks))))"

text \<open>The code fits the buffer of the device: its size, as a SENDSIZE request reports it, is at most 150.\<close>

definition sendFits :: "listener \<Rightarrow> nat \<Rightarrow> u32 list \<Rightarrow> bool" where
  "sendFits L f ps \<longleftrightarrow> fst (pulsesToIguanaSend f ps False (compressionOf L)) \<le> BUFFER_SIZE"

lemma sendFits_encoded: "sendFits L f ps \<longleftrightarrow> length (encoded f (compressionOf L) ps False 0) \<le> BUFFER_SIZE"
  by (simp add: sendFits_def pulsesToIguanaSend_encoded Let_def)

lemma encoded_waveform:
  assumes "idev L = Some d" "8 \<le> version d AND 0xFF \<longrightarrow> ver1_faithful (unat (carrier d)) False ps"
  defines "bs \<equiv> encoded (unat (carrier d)) (compressionOf L) ps False 0"
  shows "8 \<le> version d AND 0xFF \<Longrightarrow> transmit_bytes bs t3 lp False = waveform (unat (carrier d)) False ps"
    and "\<not> 8 \<le> version d AND 0xFF \<Longrightarrow> transmit_plain bs = waveform (unat (carrier d)) False ps"
  using assms encoded_ver1 [of "unat (carrier d)" False ps 0 lp False t3] encoded_plain [of COMPRESS_VER0]
  by (simp_all add: bs_def compressionOf_def)

lemma plays_encoded:
  assumes "idev L = Some d" "8 \<le> version d AND 0xFF \<longrightarrow> ver1_faithful (unat (carrier d)) False ps"
    and "concat chunks = encoded (unat (carrier d)) (compressionOf L) ps False 0" "sendFits L (unat (carrier d)) ps"
    and "\<forall>p \<in> set chunks. 0 < length p" "concat chunks \<noteq> []" "control ! 4 = uchar (int (length (concat chunks)))"
  shows "plays d fw (control # chunks) = Some (True, waveform (unat (carrier d)) False ps)"
proof -
  note w = encoded_waveform [OF assms(1,2), folded assms(3)]
  have l: "length (concat chunks) \<le> BUFFER_SIZE" using assms(3,4) by (simp add: sendFits_encoded)
  have u: "control ! 4 = word_of_nat (length (concat chunks))" using assms(7) by (simp add: uchar_def)
  have "unat (word_of_nat (length (concat chunks)) :: byte) = length (concat chunks)"
    using l by (intro unat_byte) (simp add: BUFFER_SIZE_def)
  then show ?thesis
    using send_body_fits [OF refl _ assms(6) l, of fw] w u assms(5) by (auto simp: plays_def)
qed

lemma sendPulses_run:
  assumes "idev L = Some d" "requestPulses r = Inr ps" "encoded (unat (carrier d)) (compressionOf L) ps False 0 = b # bs"
  shows "sendPulses r c L = Inr (False, r\<lparr>dataLen := int (length (b # bs)), data := Some (b # bs)\<rparr>, c, L)"
  using assms by (simp add: sendPulses_def withDev_def pulsesToIguanaSend_encoded)

lemma passed_on:
  assumes "handleClientRequest r c L = Inr (True, r', c', L')" "c_version c = 1" "idev L = Some d"
    and "checkIncomingProtocol (idev L) r False \<noteq> None"
    and "requestSwitch r c (setErrno EINVAL L) = Inr (False, r1, c, M)" "idev M = Some e" "code r1 \<noteq> IG_DEV_RECVON"
      "code r1 \<noteq> IG_DEV_RESET" "code r1 \<noteq> IG_DEV_SETPINCONFIG" "code r1 \<noteq> IG_DEV_GETPINCONFIG"
  shows "\<exists>t r2 resp. deviceTransaction e r1 False None = Inr (True, t, r2, resp) \<and> L' = setDev t M \<and> c' = c \<and> code r' = code r1"
proof -
  have run: "bind_res (passToDevice False r1 M) (\<lambda>(retval, r, resp, L).
              bind_res (if retval then noteReceiver r c L else Inr (c, L)) (\<lambda>(c, L).
                let r = (if retval then takeResponse resp r else r);
                    (ok, cd) = translateProtocol (code r) (c_version c) True
                in Inr (retval \<and> ok, r\<lparr>code := cd\<rparr>, c, L))) = Inr (True, r', c', L')"
    using assms(1,2,4,5) by (auto simp: handleClientRequest_def Let_def)
  then obtain v t r2 resp where t: "deviceTransaction e r1 False None = Inr (v, t, r2, resp)"
    using assms(6) by (cases "deviceTransaction e r1 False None") (auto simp: passToDevice_def)
  have c2: "code r2 = code r1"
    using t assms(9,10) runTransaction_code by (fastforce simp: deviceTransaction_def)
  show ?thesis
    using run t c2 assms(2,6-8)
    by (cases v) (auto simp: passToDevice_def noteReceiver_def takeResponse_def Let_def split: option.splits)
qed

lemma send_arrives:
  assumes "c_version c = 1" "idev L = Some d" "current d" "length ps < 2 ^ 29"
    and "8 \<le> version d AND 0xFF \<longrightarrow> ver1_faithful (unat (carrier d)) False ps"
    and "waveform (unat (carrier d)) False ps \<noteq> []" "sendFits L (unat (carrier d)) ps"
    and "handleClientRequest \<lparr>code = IG_DEV_SEND, dataLen = int (4 * length ps), data = Some (pulseBytes ps)\<rparr> c L
           = Inr (True, r', c', L')"
  shows "\<exists>d' control chunks. idev L' = Some d' \<and> sent d' = sent d @ control # chunks
    \<and> control = [CTL_START, CTL_START, CTL_TODEV, IG_DEV_SEND, uchar (int (length (concat chunks))), channels d] @ delaysFor d
    \<and> (\<forall>fw. plays d fw (control # chunks) = Some (True, waveform (unat (carrier d)) False ps))
    \<and> (\<forall>p \<in> set chunks. 0 < length p \<and> length p \<le> maxPacketSize d) \<and> carrier d' = carrier d
    \<and> c' = c \<and> code r' = IG_DEV_SEND"
proof -
  let ?r = "\<lparr>code = IG_DEV_SEND, dataLen = int (4 * length ps), data = Some (pulseBytes ps)\<rparr>"
  let ?d = "d\<lparr>errno := EINVAL\<rparr>" and ?M = "setErrno EINVAL L"
  have M: "idev ?M = Some ?d" "compressionOf ?M = compressionOf L"
    using assms(2) by (simp_all add: setErrno_def compressionOf_def)
  define bs where "bs = encoded (unat (carrier d)) (compressionOf L) ps False 0"
  have "bs \<noteq> []"
    using encoded_waveform [OF assms(2,5), folded bs_def] assms(6) by (cases "8 \<le> version d AND 0xFF") (auto simp: transmit_plain_def)
  let ?r1 = "?r\<lparr>dataLen := int (length bs), data := Some bs\<rparr>"
  have sw: "requestSwitch ?r c ?M = Inr (False, ?r1, c, ?M)"
    using sendPulses_run [OF M(1) requestPulses_pulseBytes, of ?r ps "hd bs" "tl bs" c] M(2) assms(4) \<open>bs \<noteq> []\<close>
    by (simp add: requestSwitch_def bs_def)
  obtain t r2 resp where t: "deviceTransaction ?d ?r1 False None = Inr (True, t, r2, resp)" "L' = setDev t ?M" "c' = c" "code r' = IG_DEV_SEND"
    using passed_on [OF assms(8,1,2) _ sw M(1)] send_type [of ?r d] assms(2) by auto
  have cur: "current ?d" "delaysFor ?d = delaysFor d" using assms(3) by (simp_all add: current_def delaysFor_def)
  from send_transaction [OF t(1) cur(1), of bs] \<open>bs \<noteq> []\<close> cur(2) obtain chunks where
    ch: "sent t = sent d @ ([CTL_START, CTL_START, CTL_TODEV, IG_DEV_SEND, uchar (int (length bs)), channels d] @ delaysFor d) # chunks"
      "concat chunks = bs" "\<forall>p \<in> set chunks. 0 < length p \<and> length p \<le> maxPacketSize d"
    by auto
  let ?control = "[CTL_START, CTL_START, CTL_TODEV, IG_DEV_SEND, uchar (int (length bs)), channels d] @ delaysFor d"
  have "plays d fw (?control # chunks) = Some (True, waveform (unat (carrier d)) False ps)" for fw
    by (rule plays_encoded [OF assms(2,5) _ assms(7)]) (use ch \<open>bs \<noteq> []\<close> in \<open>simp_all add: bs_def [symmetric]\<close>)
  moreover have "carrier t = carrier d" using deviceTransaction_same_env [OF t(1)] by (simp add: same_env_def)
  ultimately show ?thesis using ch t(2-4)
    by (intro exI [of _ t] exI [of _ ?control] exI [of _ chunks]) (simp add: setDev_def)
qed

text \<open>
  C1.  A transmission arrives: when the daemon handles a SEND a client asked for, the client gets one
  answer, and unless that is the error answer, the device was sent a control packet with the length, the
  selected channels and the delays for the selected carrier, followed by packets that fit the endpoint,
  and from these the device plays the waveform the client asked for, and confirms.  This is for codes
  that fit the buffer of the device; bodies from version 8 on get the compressed format, with the
  restriction of that format.
\<close>

theorem client_send_arrives:
  assumes "i < length (clientList L)" "c_version (clientList L ! i) = 1" "idev L = Some d" "current d" "length ps < 2 ^ 29"
    and "8 \<le> version d AND 0xFF \<longrightarrow> ver1_faithful (unat (carrier d)) False ps"
    and "waveform (unat (carrier d)) False ps \<noteq> []" "sendFits L (unat (carrier d)) ps"
    and "handleClient i (Some \<lparr>code = IG_DEV_SEND, dataLen = int (4 * length ps), data = Some (pulseBytes ps)\<rparr>) True L
           = Inr (ok, L')"
  shows "\<exists>reply. ok \<and> delivered L' = delivered L @ [(fd (clientList L ! i), reply)]
    \<and> (code reply = IG_DEV_ERROR \<or>
       code reply = IG_DEV_SEND \<and> (\<exists>d' control chunks. idev L' = Some d' \<and> sent d' = sent d @ control # chunks
         \<and> control = [CTL_START, CTL_START, CTL_TODEV, IG_DEV_SEND, uchar (int (length (concat chunks))), channels d] @ delaysFor d
         \<and> (\<forall>fw. plays d fw (control # chunks) = Some (True, waveform (unat (carrier d)) False ps))
         \<and> (\<forall>p \<in> set chunks. 0 < length p \<and> length p \<le> maxPacketSize d)))"
proof -
  let ?r = "\<lparr>code = IG_DEV_SEND, dataLen = int (4 * length ps), data = Some (pulseBytes ps)\<rparr>" and ?c = "clientList L ! i"
  obtain v r' c' M where M: "handleClientRequest ?r ?c L = Inr (v, r', c', M)"
    using assms(9) by (cases "handleClientRequest ?r ?c L") (auto simp: handleClient_def)
  have same: "delivered M = delivered L" "fd c' = fd ?c"
    using handleClientRequest_effect [OF M] kept_clients by auto
  show ?thesis
  proof (cases v)
    case False
    then show ?thesis using assms(9) M same by (auto simp: handleClient_def errorAnswer_def)
  next
    case True
    with M have "handleClientRequest ?r ?c L = Inr (True, r', c', M)" by simp
    from send_arrives [OF assms(2-8) this] True show ?thesis
      using assms(9) M same by (auto simp: handleClient_def)
  qed
qed

definition sendWorld :: devWorld where
  "sendWorld = (answering 0x307 (\<lambda>n. \<lparr>code = IG_DEV_SEND, dataLen = 0, data = None\<rparr>))\<lparr>features := 0, cycles := 65\<rparr>"

lemma sendWorld_sel:
  "version sendWorld = 0x307" "carrier sendWorld = 38000" "sent sendWorld = []" "current sendWorld"
  by (simp_all add: sendWorld_def answering_def devWorld0_def current_def)

lemma encoded_800: "encoded 38000 COMPRESS_VER0 [0x01000000 + 800] False 0 = [0x1E]"
  by (simp add: pulseCycles_eval splitCycles_def runBytes_def)

lemma sendWorld_run:
  "\<exists>t r2 resp. deviceTransaction (sendWorld\<lparr>errno := EINVAL\<rparr>) \<lparr>code = IG_DEV_SEND, dataLen = 1, data = Some [0x1E]\<rparr> False None
     = Inr (True, t, r2, resp) \<and> code r2 = IG_DEV_SEND"
  by (simp add: sendWorld_def run_simps streamArgs_def carrierBytes_def loopCycles_def checkFeatures_def restOfData_def
      sendData_def split: prod.split)

lemma sendWorld_request:
  "\<exists>r' c' L'. handleClientRequest \<lparr>code = IG_DEV_SEND, dataLen = int (4 * length [0x01000320 :: u32]), data = Some (pulseBytes [0x01000320])\<rparr>
      \<lparr>fd = 5, receiving = 0, c_version = 1\<rparr> (listenerOf (Some sendWorld) cs) = Inr (True, r', c', L')"
proof -
  let ?r = "\<lparr>code = IG_DEV_SEND, dataLen = int (4 * length [0x01000320 :: u32]), data = Some (pulseBytes [0x01000320])\<rparr>"
  let ?c = "\<lparr>fd = 5, receiving = 0, c_version = 1\<rparr>" and ?L = "listenerOf (Some sendWorld) cs"
  let ?M = "setErrno EINVAL ?L"
  have M: "idev ?M = Some (sendWorld\<lparr>errno := EINVAL\<rparr>)" "compressionOf ?M = COMPRESS_VER0"
    by (simp_all add: listenerOf_def setErrno_def compressionOf_def sendWorld_sel)
  have ps: "requestPulses ?r = Inr [0x01000320]" by (rule requestPulses_pulseBytes) simp_all
  have "sendPulses ?r ?c ?M = Inr (False, ?r\<lparr>dataLen := int (length [0x1E :: byte]), data := Some [0x1E]\<rparr>, ?c, ?M)"
    by (rule sendPulses_run [OF M(1) ps]) (use encoded_800 M(2) sendWorld_sel in simp)
  then have sw: "requestSwitch ?r ?c ?M = Inr (False, \<lparr>code = IG_DEV_SEND, dataLen = 1, data = Some [0x1E]\<rparr>, ?c, ?M)"
    by (simp add: requestSwitch_def)
  obtain t r2 resp where "deviceTransaction (sendWorld\<lparr>errno := EINVAL\<rparr>) \<lparr>code = IG_DEV_SEND, dataLen = 1, data = Some [0x1E]\<rparr> False None
     = Inr (True, t, r2, resp)" "code r2 = IG_DEV_SEND" using sendWorld_run by blast
  moreover have "checkIncomingProtocol (idev ?L) ?r False \<noteq> None" using send_type [of ?r sendWorld] by (simp add: listenerOf_def)
  ultimately show ?thesis
    using sw M(1) by (auto simp: handleClientRequest_def passToDevice_def noteReceiver_def takeResponse_def Let_def split: option.split)
qed

text \<open>The run of the example, its answer and the conditions of the property.\<close>

lemma sendWorld_fits: "idev L = Some sendWorld \<Longrightarrow> sendFits L 38000 [0x01000320]"
  using encoded_800 by (simp add: sendFits_encoded compressionOf_def sendWorld_sel BUFFER_SIZE_def)

lemma sendWorld_answered:
  assumes "clientList L = \<lparr>fd = 5, receiving = 0, c_version = 1\<rparr> # cs" "idev L = Some sendWorld"
    and "handleClientRequest \<lparr>code = IG_DEV_SEND, dataLen = int (4 * length [0x01000320 :: u32]), data = Some (pulseBytes [0x01000320])\<rparr>
      \<lparr>fd = 5, receiving = 0, c_version = 1\<rparr> L = Inr (True, r', c', M)"
  shows "code r' = IG_DEV_SEND" "c' = \<lparr>fd = 5, receiving = 0, c_version = 1\<rparr>"
    "handleClient 0 (Some \<lparr>code = IG_DEV_SEND, dataLen = int (4 * length [0x01000320 :: u32]), data = Some (pulseBytes [0x01000320])\<rparr>) True L
       = Inr (True, M\<lparr>clientList := (clientList M)[0 := c'], delivered := delivered M @ [(5, r')]\<rparr>)"
proof -
  have w: "waveform 38000 False [0x01000320] \<noteq> []" by (simp add: pulseCycles_eval)
  show *: "code r' = IG_DEV_SEND" "c' = \<lparr>fd = 5, receiving = 0, c_version = 1\<rparr>"
    using send_arrives [OF _ assms(2) sendWorld_sel(4) _ _ _ _ assms(3)] w sendWorld_fits [OF assms(2)] by (auto simp: sendWorld_sel)
  show "handleClient 0 (Some \<lparr>code = IG_DEV_SEND, dataLen = int (4 * length [0x01000320 :: u32]), data = Some (pulseBytes [0x01000320])\<rparr>) True L
       = Inr (True, M\<lparr>clientList := (clientList M)[0 := c'], delivered := delivered M @ [(5, r')]\<rparr>)"
    using assms(1,3) * by (simp add: handleClient_def)
qed

theorem client_send_arrives_witness:
  "\<exists>reply L' d' control chunks. handleClient 0
      (Some \<lparr>code = IG_DEV_SEND, dataLen = int (4 * length [0x01000320 :: u32]), data = Some (pulseBytes [0x01000320])\<rparr>) True
      (listenerOf (Some sendWorld) [\<lparr>fd = 5, receiving = 0, c_version = 1\<rparr>]) = Inr (True, L')
    \<and> delivered L' = [(5, reply)] \<and> code reply = IG_DEV_SEND \<and> idev L' = Some d' \<and> sent d' = control # chunks
    \<and> (\<forall>fw. plays sendWorld fw (control # chunks) = Some (True, replicate 30 True))"
proof -
  let ?L = "listenerOf (Some sendWorld) [\<lparr>fd = 5, receiving = 0, c_version = 1\<rparr>]"
  have L: "clientList ?L = [\<lparr>fd = 5, receiving = 0, c_version = 1\<rparr>]" "idev ?L = Some sendWorld" by (simp_all add: listenerOf_def)
  obtain r' c' M where "handleClientRequest \<lparr>code = IG_DEV_SEND, dataLen = int (4 * length [0x01000320 :: u32]), data = Some (pulseBytes [0x01000320])\<rparr>
      \<lparr>fd = 5, receiving = 0, c_version = 1\<rparr> ?L = Inr (True, r', c', M)"
    using sendWorld_request by blast
  note run = sendWorld_answered [OF L this]
  let ?N = "M\<lparr>clientList := (clientList M)[0 := c'], delivered := delivered M @ [(5, r')]\<rparr>"
  have w: "waveform 38000 False [0x01000320] = replicate 30 True" by (simp add: pulseCycles_eval)
  obtain reply d' control chunks where r: "delivered ?N = delivered ?L @ [(5, reply)]"
    and "code reply = IG_DEV_ERROR \<or> code reply = IG_DEV_SEND \<and> idev ?N = Some d' \<and> sent d' = sent sendWorld @ control # chunks
      \<and> (\<forall>fw. plays sendWorld fw (control # chunks) = Some (True, waveform (unat (carrier sendWorld)) False [0x01000320]))"
    using client_send_arrives [OF _ _ L(2) sendWorld_sel(4) _ _ _ _ run(3)] w sendWorld_fits [OF L(2)] L(1)
    by (auto simp: sendWorld_sel)
  moreover have "reply = r'" using r by simp
  moreover have "delivered ?L = []" by (simp add: listenerOf_def)
  ultimately show ?thesis
    using run w by (intro exI [of _ reply] exI [of _ ?N] exI [of _ d'] exI [of _ control] exI [of _ chunks]) (simp add: sendWorld_sel)
qed

end
