(* ===== verification/Client_Daemon.thy ===== *)
theory Client_Daemon
  imports Client_Text End_To_End
begin

text \<open>
  The command line client and the daemon together: what a command on one side does on the other.
\<close>

section \<open>Connecting to the default device\<close>

lemma takeWhile_to: "c \<notin> set xs \<Longrightarrow> takeWhile (\<lambda>b. b \<noteq> c) (xs @ c # ys) = xs"
  by (induction xs) auto

lemma dec_no_comma: "comma_char \<notin> set (dec n)"
  using dec_digits [of comma_char n] by (auto simp: isDigit_def)

lemma firstDevice_text:
  assumes "n < 10 ^ 7"
  shows "firstDevice (str ''i:'' @ dec n @ comma_char # rest) = Inr (dec n)"
proof -
  have "comma_char \<notin> set (str ''i:'' @ dec n)" using dec_no_comma by (simp add: str_def)
  from takeWhile_to [OF this, of rest]
  have t: "takeWhile (\<lambda>b. b \<noteq> comma_char) (str ''i:'' @ dec n @ comma_char # rest) = str ''i:'' @ dec n" by simp
  have "length (dec n) \<le> 7" using dec_length [of n 6] assms by simp
  then show ?thesis unfolding firstDevice_def t by (simp add: str_def)
qed

lemma joinBar_Cons: "\<exists>r. joinBar (s # ss) = s @ r"
  by (cases ss) auto

text \<open>
  A client that names no device and finds none under the name 0 gets the first device of the daemon:
  the name it cuts out of the daemon's list is the number of the first device listed, as long as that
  device has an alias.
\<close>

theorem default_device_is_first_listed:
  assumes "list_all (\<lambda>d. devId d < 10 ^ 7) (d # ds)" "locAlias d = Some a"
  shows "\<exists>t. deviceSummary (d # ds) = Inr (Some t) \<and> firstDevice t = Inr (dec (devId d))"
proof -
  have "list_all (\<lambda>d. length (dec (devId d)) < 8) (d # ds)"
    using assms(1) dec_length [of _ 6] by (fastforce simp: list_all_iff)
  then have s: "deviceSummary (d # ds) = Inr (Some (joinBar (map summaryOf (d # ds))))" by (simp add: deviceSummary_eq)
  obtain r where "joinBar (map summaryOf (d # ds)) = summaryOf d @ r" using joinBar_Cons by (metis list.simps(9))
  moreover obtain q where "summaryOf d = str ''i:'' @ dec (devId d) @ comma_char # q"
    using assms(2) by (simp add: summaryOf_def aliasText_def str_def)
  ultimately show ?thesis using s firstDevice_text [of "devId d" "q @ r"] assms(1) by simp
qed

theorem default_device_is_first_listed_witness:
  "\<exists>t. deviceSummary [exampleDev 3 ''1-2'' None] = Inr (Some t) \<and> firstDevice t = Inr (dec 3)"
  using default_device_is_first_listed [of "exampleDev 3 ''1-2'' None" "[]"] by (simp add: exampleDev_def)

text \<open>Without an alias the list has no comma, and the client copies with a length computed from NULL.\<close>

lemma default_device_without_alias:
  "locAlias d = None \<Longrightarrow> userAlias d = None \<Longrightarrow> devId d < 10 ^ 7 \<Longrightarrow>
     \<exists>t. deviceSummary [d] = Inr (Some t) \<and> firstDevice t = Inl OutOfBounds"
  using dec_length [of "devId d" 6] dec_no_comma [of "devId d"]
  by (simp add: deviceSummary_eq summaryOf_def aliasText_def firstDevice_def str_def)

section \<open>Commands\<close>

text \<open>
  C25.  Setting the carrier from the command line sets it in the daemon: for a number in the accepted range
  the client builds a request that the daemon confirms, and the device then has that carrier.
\<close>

theorem set_carrier_command_sets_the_carrier:
  assumes "25000 \<le> n" "n \<le> 150000" "arg cmd = Some (dec n)" "c_version c = 1" "idev L = Some d" "0x101 \<le> version d"
  shows "\<exists>dat r' L' d'. packArgs e junk cmd (plain ''set carrier'' IG_DEV_SETCARRIER) st = Inr (4, Some dat)
    \<and> handleClientRequest (requestFor (plain ''set carrier'' IG_DEV_SETCARRIER) 4 (Some dat)) c L = Inr (True, r', c, L')
    \<and> idev L' = Some d' \<and> unat (carrier d') = n"
proof -
  have u: "unat (word_of_nat n :: u32) = n" using assms(2) by (simp add: unat_of_nat)
  have "packCarrier (word_of_nat n) = (4, Some (be_bytes 4 n))"
    using assms(1,2) u by (simp add: packCarrier_def word_less_nat_alt)
  then have p: "packArgs e junk cmd (plain ''set carrier'' IG_DEV_SETCARRIER) st = Inr (4, Some (be_bytes 4 n))"
    using assms(2,3) parse_decimal [of n] by (simp add: packArgs_def numberArg_def plain_def)
  have b: "word_of_nat (be_nat (be_bytes 4 n)) = (word_of_nat n :: u32)"
    using assms(2) by (simp add: be_nat_be_bytes)
  have "unat (clampCarrier (word_of_nat n)) = n" using assms(1,2) u by (simp add: clampCarrier_def word_less_nat_alt)
  moreover have "requestFor (plain ''set carrier'' IG_DEV_SETCARRIER) 4 (Some (be_bytes 4 n))
      = \<lparr>code = IG_DEV_SETCARRIER, dataLen = 4, data = Some (be_bytes 4 n)\<rparr>"
    by (simp add: requestFor_def iguanaCreateRequest_def plain_def in_s32_def)
  ultimately show ?thesis
    using p setCarrier_run [OF assms(4-6), of "be_bytes 4 n"] b by simp
qed

theorem set_carrier_command_sets_the_carrier_witness:
  "\<exists>dat r' L' d'. packArgs \<lparr>files = (\<lambda>_. None), millis = (\<lambda>_. None), seconds = id, writes = True\<rparr> (\<lambda>_. 0)
       \<lparr>command = ''set carrier'', arg = Some (dec 40000), spec = None, isSubTask = False\<rparr> (plain ''set carrier'' IG_DEV_SETCARRIER)
       \<lparr>pinState = [], recvOnFlag = False, deviceFeatures = 0, out = [], strerror = (\<lambda>_. [])\<rparr> = Inr (4, Some dat)
    \<and> handleClientRequest (requestFor (plain ''set carrier'' IG_DEV_SETCARRIER) 4 (Some dat)) \<lparr>fd = 5, receiving = 0, c_version = 1\<rparr>
        (listenerOf (Some devWorld0) []) = Inr (True, r', \<lparr>fd = 5, receiving = 0, c_version = 1\<rparr>, L')
    \<and> idev L' = Some d' \<and> unat (carrier d') = 40000"
  by (rule set_carrier_command_sets_the_carrier [where d = devWorld0]) (simp_all add: listenerOf_def devWorld0_def)

section \<open>Recording and replaying\<close>






end
