(* ===== verification/Response_Race.thy ===== *)
theory Response_Race
  imports Codes
begin

text \<open>
  The response slot as the two threads of a device see it.  The reader stores a response and notifies
  under \<open>listLock\<close> (\<open>queueDataPacket\<close>); the worker empties the pipe without the lock before it sends
  (\<open>flushToDevResponsePackets\<close>), then waits for a notification and takes the response under the lock
  (\<open>deviceTransaction\<close>).  The steps below are the accesses to the slot and the pipe, interleaved
  arbitrarily.
\<close>

section \<open>Steps\<close>

datatype workerPc =
    Polling      \<comment> \<open>about to poll the response pipe in the flush\<close>
  | Clearing     \<comment> \<open>read a byte in the flush, about to release and clear the slot\<close>
  | Awaiting     \<comment> \<open>the request is sent, waiting for a notification\<close>
  | Taking       \<comment> \<open>notified, about to take the response\<close>
  | Finished     \<comment> \<open>between transactions\<close>
  | Crashed      \<comment> \<open>the response pointer was NULL\<close>

datatype readerPc =
    Outside      \<comment> \<open>does not hold \<open>listLock\<close>\<close>
  | Notifying    \<comment> \<open>holds it: the slot is set, the notification is not yet written\<close>

record race =
  pipe :: nat
  slot :: "dataPacket option"
  worker :: workerPc
  reader :: readerPc

inductive race_step :: "race \<Rightarrow> race \<Rightarrow> bool" where
  reader_set:
    "reader s = Outside \<Longrightarrow> race_step s (s\<lparr>slot := Some p, reader := Notifying\<rparr>)"
| reader_notify:
    "reader s = Notifying \<Longrightarrow> race_step s (s\<lparr>pipe := pipe s + 1, reader := Outside\<rparr>)"
| flush_hit:
    "worker s = Polling \<Longrightarrow> 0 < pipe s \<Longrightarrow> race_step s (s\<lparr>pipe := pipe s - 1, worker := Clearing\<rparr>)"
| flush_clear:
    "worker s = Clearing \<Longrightarrow> race_step s (s\<lparr>slot := None, worker := Polling\<rparr>)"
| flush_done:
    "worker s = Polling \<Longrightarrow> pipe s = 0 \<Longrightarrow> race_step s (s\<lparr>worker := Awaiting\<rparr>)"
| await_hit:
    "worker s = Awaiting \<Longrightarrow> 0 < pipe s \<Longrightarrow> race_step s (s\<lparr>pipe := pipe s - 1, worker := Taking\<rparr>)"
| await_timeout:
    "worker s = Awaiting \<Longrightarrow> race_step s (s\<lparr>worker := Finished\<rparr>)"
| take_response:
    "worker s = Taking \<Longrightarrow> reader s = Outside \<Longrightarrow> slot s \<noteq> None \<Longrightarrow>
       race_step s (s\<lparr>slot := None, worker := Finished\<rparr>)"
| take_null:
    "worker s = Taking \<Longrightarrow> reader s = Outside \<Longrightarrow> slot s = None \<Longrightarrow> race_step s (s\<lparr>worker := Crashed\<rparr>)"
| next_transaction:
    "worker s = Finished \<Longrightarrow> race_step s (s\<lparr>worker := Polling\<rparr>)"

definition race0 :: race where
  "race0 = \<lparr>pipe = 0, slot = None, worker = Finished, reader = Outside\<rparr>"

abbreviation reachable_race :: "race \<Rightarrow> bool" where
  "reachable_race s \<equiv> race_step\<^sup>*\<^sup>* race0 s"

inductive_cases race_stepE: "race_step s t"

section \<open>The race\<close>

text \<open>
  C37.  As the code stands, the worker can find the response slot empty after it was notified and
  dereference NULL: the flush reads the notification of one stray response, the reader stores the next
  one, the flush clears the slot, and only then the reader notifies.
\<close>

theorem unlocked_flush_can_crash: "\<exists>s. reachable_race s \<and> worker s = Crashed"
proof -
  let ?p = "\<lparr>code = 1, dataLen = 0, data = Some []\<rparr> :: dataPacket"
  let ?s = "\<lambda>n v w r. \<lparr>pipe = n, slot = v, worker = w, reader = r\<rparr>"
  have "race_step (?s 0 None Finished Outside) (?s 0 (Some ?p) Finished Notifying)"
    using reader_set [of "?s 0 None Finished Outside" ?p] by simp
  moreover have "race_step (?s 0 (Some ?p) Finished Notifying) (?s 1 (Some ?p) Finished Outside)"
    using reader_notify [of "?s 0 (Some ?p) Finished Notifying"] by simp
  moreover have "race_step (?s 1 (Some ?p) Finished Outside) (?s 1 (Some ?p) Polling Outside)"
    using next_transaction [of "?s 1 (Some ?p) Finished Outside"] by simp
  moreover have "race_step (?s 1 (Some ?p) Polling Outside) (?s 0 (Some ?p) Clearing Outside)"
    using flush_hit [of "?s 1 (Some ?p) Polling Outside"] by simp
  moreover have "race_step (?s 0 (Some ?p) Clearing Outside) (?s 0 (Some ?p) Clearing Notifying)"
    using reader_set [of "?s 0 (Some ?p) Clearing Outside" ?p] by simp
  moreover have "race_step (?s 0 (Some ?p) Clearing Notifying) (?s 0 None Polling Notifying)"
    using flush_clear [of "?s 0 (Some ?p) Clearing Notifying"] by simp
  moreover have "race_step (?s 0 None Polling Notifying) (?s 0 None Awaiting Notifying)"
    using flush_done [of "?s 0 None Polling Notifying"] by simp
  moreover have "race_step (?s 0 None Awaiting Notifying) (?s 1 None Awaiting Outside)"
    using reader_notify [of "?s 0 None Awaiting Notifying"] by simp
  moreover have "race_step (?s 1 None Awaiting Outside) (?s 0 None Taking Outside)"
    using await_hit [of "?s 1 None Awaiting Outside"] by simp
  moreover have "race_step (?s 0 None Taking Outside) (?s 0 None Crashed Outside)"
    using take_null [of "?s 0 None Taking Outside"] by simp
  ultimately have "reachable_race (?s 0 None Crashed Outside)"
    unfolding race0_def by (meson converse_rtranclp_into_rtranclp rtranclp.rtrancl_refl)
  then show ?thesis by (rule exI [of _ "?s 0 None Crashed Outside", OF conjI]) simp
qed

section \<open>Runs without the race\<close>

text \<open>
  A step of a run in which the reader stores no response while the worker flushes: whenever the worker is
  in the flush, the reader is outside of its critical section.
\<close>

definition calm_step :: "race \<Rightarrow> race \<Rightarrow> bool" where
  "calm_step s t \<longleftrightarrow> race_step s t \<and> (worker t = Polling \<or> worker t = Clearing \<longrightarrow> reader t = Outside)"

definition race_inv :: "race \<Rightarrow> bool" where
  "race_inv s \<longleftrightarrow> worker s \<noteq> Crashed
     \<and> (worker s = Polling \<or> worker s = Clearing \<longrightarrow> reader s = Outside)
     \<and> (worker s = Awaiting \<longrightarrow> (0 < pipe s \<or> reader s = Notifying) \<longrightarrow> slot s \<noteq> None)
     \<and> (worker s = Taking \<longrightarrow> slot s \<noteq> None)"

lemma race_inv_step: "calm_step s t \<Longrightarrow> race_inv s \<Longrightarrow> race_inv t"
  unfolding calm_step_def by (elim conjE race_stepE) (auto simp: race_inv_def)

text \<open>
  C26.  The flush is the only place where the missing lock does harm: in every run in which the reader
  stores no response while the worker flushes, a worker that was notified finds a response, however
  many transactions there are, whatever responses come unasked or late, and wherever the two threads
  are interleaved otherwise.
\<close>

theorem calm_runs_never_crash:
  assumes "calm_step\<^sup>*\<^sup>* race0 s"
  shows "worker s \<noteq> Crashed \<and> (worker s = Taking \<longrightarrow> slot s \<noteq> None)"
proof -
  have "race_inv s"
    using assms by (induction rule: rtranclp_induct) (auto simp: race0_def race_inv_def dest: race_inv_step)
  then show ?thesis by (simp add: race_inv_def)
qed

text \<open>A run with a late response, which is flushed, and an answer, which is about to be taken.\<close>

theorem calm_runs_never_crash_witness:
  "\<exists>s p. calm_step\<^sup>*\<^sup>* race0 s \<and> worker s = Taking \<and> slot s = Some p \<and> worker s \<noteq> Crashed"
proof -
  let ?p = "\<lparr>code = 1, dataLen = 0, data = Some []\<rparr> :: dataPacket"
  let ?s = "\<lambda>n v w r. \<lparr>pipe = n, slot = v, worker = w, reader = r\<rparr>"
  have "calm_step (?s 0 None Finished Outside) (?s 0 (Some ?p) Finished Notifying)"
    using reader_set [of "?s 0 None Finished Outside" ?p] by (simp add: calm_step_def)
  moreover have "calm_step (?s 0 (Some ?p) Finished Notifying) (?s 1 (Some ?p) Finished Outside)"
    using reader_notify [of "?s 0 (Some ?p) Finished Notifying"] by (simp add: calm_step_def)
  moreover have "calm_step (?s 1 (Some ?p) Finished Outside) (?s 1 (Some ?p) Polling Outside)"
    using next_transaction [of "?s 1 (Some ?p) Finished Outside"] by (simp add: calm_step_def)
  moreover have "calm_step (?s 1 (Some ?p) Polling Outside) (?s 0 (Some ?p) Clearing Outside)"
    using flush_hit [of "?s 1 (Some ?p) Polling Outside"] by (simp add: calm_step_def)
  moreover have "calm_step (?s 0 (Some ?p) Clearing Outside) (?s 0 None Polling Outside)"
    using flush_clear [of "?s 0 (Some ?p) Clearing Outside"] by (simp add: calm_step_def)
  moreover have "calm_step (?s 0 None Polling Outside) (?s 0 None Awaiting Outside)"
    using flush_done [of "?s 0 None Polling Outside"] by (simp add: calm_step_def)
  moreover have "calm_step (?s 0 None Awaiting Outside) (?s 0 (Some ?p) Awaiting Notifying)"
    using reader_set [of "?s 0 None Awaiting Outside" ?p] by (simp add: calm_step_def)
  moreover have "calm_step (?s 0 (Some ?p) Awaiting Notifying) (?s 1 (Some ?p) Awaiting Outside)"
    using reader_notify [of "?s 0 (Some ?p) Awaiting Notifying"] by (simp add: calm_step_def)
  moreover have "calm_step (?s 1 (Some ?p) Awaiting Outside) (?s 0 (Some ?p) Taking Outside)"
    using await_hit [of "?s 1 (Some ?p) Awaiting Outside"] by (simp add: calm_step_def)
  ultimately have run: "calm_step\<^sup>*\<^sup>* race0 (?s 0 (Some ?p) Taking Outside)"
    unfolding race0_def by (meson converse_rtranclp_into_rtranclp rtranclp.rtrancl_refl)
  show ?thesis using calm_runs_never_crash [OF run] run by (intro exI [of _ "?s 0 (Some ?p) Taking Outside"] exI [of _ ?p]) simp
qed

end
