(* ===== verification/Command_Race.thy ===== *)
theory Command_Race
  imports Server
begin

text \<open>
  The command pipe as its writers see it: the main thread before its loop, the signal handlers, the scan
  timer, the readers that lost their device and the workers that end all write to it, and
  \<open>triggerCommand\<close> writes its two words with two calls.  A step is one call.
\<close>

section \<open>Steps\<close>

record commRace =
  writers :: "(commWord list \<times> commMsg list) list"
    \<comment> \<open>for each thread the rest of the message it has begun, and the messages it has still to write\<close>
  onPipe :: "commWord list"

inductive comm_step :: "nat \<Rightarrow> commRace \<Rightarrow> commRace \<Rightarrow> bool" for i :: nat where
  begin_message:
    "i < length (writers s) \<Longrightarrow> writers s ! i = ([], m # ms) \<Longrightarrow> wire m = w # ws \<Longrightarrow>
       comm_step i s (s\<lparr>writers := (writers s)[i := (ws, ms)], onPipe := onPipe s @ [w]\<rparr>)"
| go_on:
    "i < length (writers s) \<Longrightarrow> writers s ! i = (w # ws, ms) \<Longrightarrow>
       comm_step i s (s\<lparr>writers := (writers s)[i := (ws, ms)], onPipe := onPipe s @ [w]\<rparr>)"

definition any_step :: "commRace \<Rightarrow> commRace \<Rightarrow> bool" where
  "any_step s t \<longleftrightarrow> (\<exists>i. comm_step i s t)"


definition startOf :: "commMsg list list \<Rightarrow> commRace" where
  "startOf progs = \<lparr>writers = map (Pair []) progs, onPipe = []\<rparr>"

definition allWritten :: "commRace \<Rightarrow> bool" where
  "allWritten s \<longleftrightarrow> (\<forall>p \<in> set (writers s). p = ([], []))"

section \<open>What the main thread makes of messages\<close>







section \<open>Runs in which no message is torn\<close>










section \<open>Messages that are torn\<close>

text \<open>
  C38.  In the code the two words of a command can be torn apart: when two threads ask for a scan at the same
  time, both flags can come first, and then the main thread scans not once and joins two threads whose
  id is the code of the command.  One of the two can be the main thread with its own first request.
\<close>

theorem torn_commands_join_a_command:
  "\<exists>s. any_step\<^sup>*\<^sup>* (startOf [[Command SCAN_TRIGGER], [Command SCAN_TRIGGER]]) s \<and> allWritten s
     \<and> commLoop False False (onPipe s) \<lparr>joined = [], scans = 0\<rparr> = (False, \<lparr>joined = [SCAN_TRIGGER, SCAN_TRIGGER], scans = 0\<rparr>)
     \<and> waitOnCommPipe False False [InvalidId] [] [ThreadId SCAN_TRIGGER] \<lparr>joined = [], scans = 0\<rparr>
         = commLoop False False (onPipe s) \<lparr>joined = [], scans = 0\<rparr>"
proof -
  let ?c = "Command SCAN_TRIGGER" and ?w = "ThreadId SCAN_TRIGGER"
  let ?s = "\<lambda>a b p. \<lparr>writers = [a, b], onPipe = p\<rparr>"
  have "any_step (?s ([], [?c]) ([], [?c]) []) (?s ([?w], []) ([], [?c]) [InvalidId])"
    unfolding any_step_def using begin_message [of 0 "?s ([], [?c]) ([], [?c]) []" ?c "[]" InvalidId "[?w]"] by (intro exI [of _ 0]) (simp add: triggerCommand_def)
  moreover have "any_step (?s ([?w], []) ([], [?c]) [InvalidId]) (?s ([?w], []) ([?w], []) [InvalidId, InvalidId])"
    unfolding any_step_def using begin_message [of 1 "?s ([?w], []) ([], [?c]) [InvalidId]" ?c "[]" InvalidId "[?w]"] by (intro exI [of _ 1]) (simp add: triggerCommand_def)
  moreover have "any_step (?s ([?w], []) ([?w], []) [InvalidId, InvalidId]) (?s ([], []) ([?w], []) [InvalidId, InvalidId, ?w])"
    unfolding any_step_def using go_on [of 0 "?s ([?w], []) ([?w], []) [InvalidId, InvalidId]" ?w "[]" "[]"] by (intro exI [of _ 0]) simp
  moreover have "any_step (?s ([], []) ([?w], []) [InvalidId, InvalidId, ?w]) (?s ([], []) ([], []) [InvalidId, InvalidId, ?w, ?w])"
    unfolding any_step_def using go_on [of 1 "?s ([], []) ([?w], []) [InvalidId, InvalidId, ?w]" ?w "[]" "[]"] by (intro exI [of _ 1]) simp
  ultimately have "any_step\<^sup>*\<^sup>* (?s ([], [?c]) ([], [?c]) []) (?s ([], []) ([], []) [InvalidId, InvalidId, ?w, ?w])"
    by (meson converse_rtranclp_into_rtranclp rtranclp.rtrancl_refl)
  then show ?thesis
    by (intro exI [of _ "?s ([], []) ([], []) [InvalidId, InvalidId, ?w, ?w]"])
       (simp add: startOf_def allWritten_def waitOnCommPipe_def triggerCommand_def)
qed

end
