(* ===== verification/Usb_Driver.thy ===== *)
theory Usb_Driver
  imports Codes
begin

text \<open>
  \<open>drivers/libusb.c\<close>: the driver the daemon loads.  Calls of libusb and the state of the file system under
  \<open>/sys\<close> are arguments: what they return.  The list of devices is the abstract list of the intrusive one;
  \<open>Item_List\<close> shows that the code's list operations implement it.
\<close>

section \<open>State\<close>

record usbId =
  idVendor :: nat
  idProduct :: nat

record usbDevice =
  u_id :: nat
  u_type :: usbId
  u_stopped :: bool
  busIndex :: nat
  devIndex :: nat
  u_error :: "string option"
  usbError :: "string option"
  removed :: bool

record usbDeviceList =
  deviceList :: "usbDevice list"
  ids :: "usbId list"
  describeOnly :: bool
  force :: bool

section \<open>Errors\<close>

text \<open>The libusb codes, their texts and what they do to errno (\<open>None\<close> leaves it alone).\<close>

definition usbErrorText :: "int \<Rightarrow> string \<times> int option" where
  "usbErrorText e =
     (if e = 0 then (''Success'', Some 0)
      else if e = - 1 then (''Input/output error'', Some EIO)
      else if e = - 2 then (''Invalid parameter'', Some EINVAL)
      else if e = - 3 then (''Access denied'', Some EPERM)
      else if e = - 4 then (''No such device'', Some ENXIO)
      else if e = - 5 then (''Entity not found'', Some ENOENT)
      else if e = - 6 then (''Resource busy'', Some EBUSY)
      else if e = - 7 then (''Operation timed out'', Some ETIMEDOUT)
      else if e = - 8 then (''Overflow'', None)
      else if e = - 9 then (''Pipe error'', Some EPIPE)
      else if e = - 10 then (''System call interrupted'', Some EINTR)
      else if e = - 11 then (''Insufficient memory'', Some ENOMEM)
      else if e = - 12 then (''Operation not supported or unimplemented'', Some ENOSYS)
      else if e = - 99 then (''Other error'', None)
      else (''Untranslated error.'', Some (- 1)))"

definition noteError :: "string option \<Rightarrow> int \<Rightarrow> usbDevice \<Rightarrow> int \<Rightarrow> usbDevice \<times> int" where
  "noteError err e h errn =
     (let (t, n) = usbErrorText e in (h\<lparr>u_error := err, usbError := Some t\<rparr>, case n of None \<Rightarrow> errn | Some n \<Rightarrow> n))"

definition setError :: "string option \<Rightarrow> int \<Rightarrow> usbDevice option \<Rightarrow> int \<Rightarrow> usbDevice option \<times> int" where
  "setError err e handle errn =
     (case handle of None \<Rightarrow> (None, errn) | Some h \<Rightarrow> let (h, errn) = noteError err e h errn in (Some h, errn))"

definition printError :: "string option \<Rightarrow> usbDevice option \<Rightarrow> string" where
  "printError msg handle =
     (let err = Option.bind handle u_error; usb = Option.bind handle usbError
      in case msg of
           Some m \<Rightarrow>
             (case err of None \<Rightarrow> m
              | Some e \<Rightarrow> (case usb of None \<Rightarrow> m @ '': '' @ e | Some u \<Rightarrow> m @ '': '' @ e @ '': '' @ u))
         | None \<Rightarrow>
             (case err of None \<Rightarrow> ''No error recorded''
              | Some e \<Rightarrow> (case usb of None \<Rightarrow> e | Some u \<Rightarrow> e @ '': '' @ u)))"

section \<open>Transfers\<close>

text \<open>
  \<open>transfer\<close> is what \<open>libusb_interrupt_transfer\<close> returns: its result and the amount.  The results are the
  return value, the device and errno.
\<close>

definition usbRecv :: "int \<times> int \<Rightarrow> usbDevice \<Rightarrow> int \<Rightarrow> int \<times> usbDevice \<times> int" where
  "usbRecv transfer h errn =
     (if u_stopped h then (- ENXIO, h, ENXIO)
      else if fst transfer < 0
      then let (h, errn) = noteError (Some ''Failed to read (interrupt end point)'') (fst transfer) h errn
           in (fst transfer, h, errn)
      else (snd transfer, h, errn))"

definition usbSend :: "int \<times> int \<Rightarrow> usbDevice \<Rightarrow> int \<Rightarrow> int \<times> usbDevice \<times> int" where
  "usbSend transfer h errn =
     (let (h, errn) = noteError None 0 h errn
      in if u_stopped h then (- ENXIO, h, ENXIO)
         else if fst transfer < 0
         then let (h, errn) = noteError (Some ''Failed to write (interrupt end point)'') (fst transfer) h errn
              in (fst transfer, h, errn)
         else (snd transfer, h, errn))"

section \<open>Numbers for devices\<close>

definition findId :: "usbDevice \<Rightarrow> nat \<Rightarrow> nat" where
  "findId d n = (if \<not> removed d \<and> u_id d = n then n + 1 else n)"

text \<open>One pass over the list, and passes until one changes nothing.\<close>

definition idPass :: "usbDevice list \<Rightarrow> nat \<Rightarrow> nat" where
  "idPass ds n = fold findId ds n"

definition usedIds :: "usbDevice list \<Rightarrow> nat set" where
  "usedIds ds = u_id ` {d \<in> set ds. \<not> removed d}"

lemma findId_le: "n \<le> findId d n"
  by (simp add: findId_def)

lemma idPass_le: "n \<le> idPass ds n"
proof (induction ds arbitrary: n)
  case (Cons d ds)
  show ?case using findId_le [of n d] Cons.IH [of "findId d n"] by (simp add: idPass_def)
qed (simp add: idPass_def)

text \<open>A pass moves only over numbers in use.\<close>

lemma idPass_used: "j \<in> {n..<idPass ds n} \<Longrightarrow> j \<in> usedIds ds"
proof (induction ds arbitrary: n)
  case (Cons d ds)
  show ?case
  proof (cases "\<not> removed d \<and> u_id d = n")
    case True
    then have "j = n \<or> j \<in> {n + 1..<idPass ds (n + 1)}" using Cons.prems by (auto simp: idPass_def findId_def)
    then show ?thesis using True Cons.IH [of "n + 1"] by (auto simp: usedIds_def)
  next
    case False
    then show ?thesis using Cons.prems Cons.IH [of n] by (auto simp: idPass_def findId_def usedIds_def)
  qed
qed (simp add: idPass_def)

lemma finite_usedIds [simp]: "finite (usedIds ds)"
  by (simp add: usedIds_def)

function newId :: "usbDevice list \<Rightarrow> nat \<Rightarrow> nat" where
  "newId ds n = (if idPass ds n = n then n else newId ds (idPass ds n))"
  by pat_completeness auto
termination
proof (relation "measure (\<lambda>(ds, n). card {j \<in> usedIds ds. n \<le> j})")
  fix ds n assume ne: "idPass ds n \<noteq> n"
  then have lt: "n < idPass ds n" using idPass_le [of n ds] by linarith
  then have "n \<in> {j \<in> usedIds ds. n \<le> j}" using idPass_used [of n n ds] by simp
  moreover have "{j \<in> usedIds ds. idPass ds n \<le> j} \<subseteq> {j \<in> usedIds ds. n \<le> j} - {n}" using lt by auto
  ultimately have "card {j \<in> usedIds ds. idPass ds n \<le> j} < card {j \<in> usedIds ds. n \<le> j}"
    by (intro psubset_card_mono) auto
  then show "((ds, idPass ds n), ds, n) \<in> measure (\<lambda>(ds, n). card {j \<in> usedIds ds. n \<le> j})" by simp
qed simp

declare newId.simps [simp del]

section \<open>Claiming a device\<close>

text \<open>
  One time around the loop of \<open>claimDevice\<close>: what the attempt to unbind another driver and the calls of
  libusb return.
\<close>

record attempt =
  unbound :: bool
  getConfiguration :: int
  configNum :: int
  setConfiguration :: int
  claimInterface :: int

text \<open>
  The error the attempt records, if it fails.  The comparison binds tighter than the assignment in the
  first condition, so a failure of \<open>libusb_get_configuration\<close> is recorded as 1.
\<close>

definition attemptError :: "attempt \<Rightarrow> (string \<times> int) option" where
  "attemptError a =
     (if getConfiguration a < 0 then Some (''Failed to set device configuration'', 1)
      else if configNum a \<noteq> 1 \<and> setConfiguration a < 0
      then Some (''Failed to set device configuration'', setConfiguration a)
      else if claimInterface a < 0 then Some (''libusb_claim_interface failed 0'', claimInterface a)
      else None)"

text \<open>The loop; \<open>None\<close> when it is still trying after the given attempts.\<close>

fun claimLoop :: "bool \<Rightarrow> attempt list \<Rightarrow> usbDevice \<Rightarrow> int \<Rightarrow> (bool \<times> usbDevice \<times> int) option" where
  "claimLoop forced [] h errn = None"
| "claimLoop forced (a # as) h errn =
     (if errn = EBUSY \<and> (\<not> forced \<or> \<not> unbound a) then Some (False, h, errn)
      else case attemptError a of
        None \<Rightarrow> Some (True, h, errn)
      | Some (msg, e) \<Rightarrow>
          let (h, errn) = noteError (Some msg) e h errn
          in if errn = EBUSY then claimLoop forced as h errn else Some (False, h, errn))"

text \<open>A device on the bus, with what libusb says about it.\<close>

record probe =
  p_id :: usbId
  p_bus :: nat
  p_port :: nat
  p_open :: int
  p_attempts :: "attempt list"

definition newDevice :: "probe \<Rightarrow> usbId \<Rightarrow> usbDevice list \<Rightarrow> usbDevice" where
  "newDevice p t ds =
     \<lparr>u_id = newId ds 0, u_type = t, u_stopped = False, busIndex = p_bus p, devIndex = p_port p,
      u_error = None, usbError = None, removed = False\<rparr>"

text \<open>\<open>insertItem\<close> before a position of the list.\<close>

definition claimDevice :: "probe \<Rightarrow> usbId \<Rightarrow> usbDeviceList \<Rightarrow> nat \<Rightarrow> (bool \<times> usbDeviceList) option" where
  "claimDevice p t l pos =
     (if p_open p \<noteq> 0 then Some (False, l)
      else map_option (\<lambda>(ok, h, errn).
             (ok, if ok then l\<lparr>deviceList := take pos (deviceList l) @ [h] @ drop pos (deviceList l)\<rparr> else l))
             (claimLoop (force l) (p_attempts p) (newDevice p t (deviceList l)) 0))"

section \<open>Looking for devices\<close>

definition locBefore :: "nat \<Rightarrow> nat \<Rightarrow> usbDevice \<Rightarrow> bool" where
  "locBefore b q d \<longleftrightarrow> busIndex d < b \<or> (busIndex d = b \<and> devIndex d < q)"

definition clearFirst :: "usbDevice list \<Rightarrow> usbDevice list" where
  "clearFirst ds = (case ds of [] \<Rightarrow> [] | d # ds \<Rightarrow> fst (noteError None 0 d 0) # ds)"

text \<open>One device of the bus against one entry of the table of known kinds; the numbers are \<open>newCount\<close> and \<open>count\<close>.\<close>

definition matchDevice :: "probe \<Rightarrow> usbId \<Rightarrow> usbDeviceList \<times> nat \<times> nat \<Rightarrow> (usbDeviceList \<times> nat \<times> nat) option" where
  "matchDevice p t st =
     (let (l, newCount, count) = st
      in if p_id p \<noteq> t then Some st
         else let l = l\<lparr>deviceList := clearFirst (deviceList l)\<rparr>;
                  pos = length (takeWhile (locBefore (p_bus p) (p_port p)) (deviceList l))
              in if pos < length (deviceList l) \<and> busIndex (deviceList l ! pos) = p_bus p \<and> devIndex (deviceList l ! pos) = p_port p
                 then Some (l, newCount, count)
                 else if describeOnly l then Some (l, newCount, count + 1)
                 else map_option (\<lambda>(ok, l). (l, if ok then newCount + 1 else newCount, count + 1)) (claimDevice p t l pos))"

fun matchAll :: "(probe \<times> usbId) list \<Rightarrow> usbDeviceList \<times> nat \<times> nat \<Rightarrow> (usbDeviceList \<times> nat \<times> nat) option" where
  "matchAll [] st = Some st"
| "matchAll ((p, t) # r) st = Option.bind (matchDevice p t st) (matchAll r)"

definition updateDeviceList :: "probe list \<Rightarrow> usbDeviceList \<Rightarrow> (usbDeviceList \<times> nat \<times> nat) option" where
  "updateDeviceList bus l = matchAll (concat (map (\<lambda>p. map (Pair p) (ids l)) bus)) (l, 0, 0)"

section \<open>Stopping and releasing\<close>

definition stopDevices :: "usbDeviceList \<Rightarrow> nat \<times> usbDeviceList" where
  "stopDevices l = (length (deviceList l), l\<lparr>deviceList := map (\<lambda>d. d\<lparr>u_stopped := True\<rparr>) (deviceList l)\<rparr>)"

text \<open>The device at a position; one that was released before is left alone.\<close>

definition releaseUsb :: "nat \<Rightarrow> usbDevice list \<Rightarrow> usbDevice list" where
  "releaseUsb i ds = (if removed (ds ! i) then ds else take i ds @ drop (Suc i) ds)"

text \<open>The loop waits, possibly for ever, when the head of the list was released but not removed.\<close>

fun releaseLoop :: "usbDevice list \<Rightarrow> usbDevice list option" where
  "releaseLoop [] = Some []"
| "releaseLoop (d # ds) = (if removed d then None else releaseLoop ds)"

definition releaseDevices :: "usbDeviceList \<Rightarrow> nat option" where
  "releaseDevices l = map_option (\<lambda>_. length (deviceList l)) (releaseLoop (deviceList l))"

section \<open>Endpoints\<close>

record endpoint =
  isInput :: bool
  isInterrupt :: bool
  wMaxPacketSize :: nat

record configDesc =
  numInterfaces :: nat
  numAltsettings :: nat
  endpoints :: "endpoint list"

text \<open>The descriptor is \<open>None\<close> when libusb has none: the code does not look at that result.\<close>

definition findDeviceEndpoints :: "configDesc option \<Rightarrow> (bool \<times> nat option) res" where
  "findDeviceEndpoints cdesc =
     (case cdesc of None \<Rightarrow> Inl NullDeref
      | Some c \<Rightarrow>
          if numInterfaces c \<noteq> 1 \<or> numAltsettings c \<noteq> 1 \<or> length (endpoints c) \<noteq> 2 then Inr (False, None)
          else let i = endpoints c ! 0; out = endpoints c ! 1;
                   size = (if wMaxPacketSize out < wMaxPacketSize i then wMaxPacketSize out else wMaxPacketSize i)
               in Inr (isInput i \<and> isInterrupt i \<and> \<not> isInput out \<and> isInterrupt out, Some size))"

definition getDeviceLocation :: "usbDevice \<Rightarrow> byte \<times> byte" where
  "getDeviceLocation d = (word_of_nat (busIndex d), word_of_nat (devIndex d))"

section \<open>Properties\<close>

lemma idPass_moves: "n \<in> usedIds ds \<Longrightarrow> n < idPass ds n"
proof (induction ds)
  case (Cons d ds)
  show ?case
  proof (cases "\<not> removed d \<and> u_id d = n")
    case True
    then show ?thesis using idPass_le [of "n + 1" ds] by (simp add: idPass_def findId_def)
  next
    case False
    then have "n \<in> usedIds ds" using Cons.prems by (auto simp: usedIds_def)
    then show ?thesis using Cons.IH False by (auto simp: idPass_def findId_def)
  qed
qed (simp add: usedIds_def)

lemma newId_spec: "newId ds n \<notin> usedIds ds \<and> (\<forall>j. n \<le> j \<and> j < newId ds n \<longrightarrow> j \<in> usedIds ds)"
proof (induction ds n rule: newId.induct)
  case (1 ds n)
  show ?case
  proof (cases "idPass ds n = n")
    case True
    then show ?thesis using idPass_moves [of n ds] by (subst newId.simps, subst newId.simps) auto
  next
    case False
    have e: "newId ds n = newId ds (idPass ds n)" using False by (subst newId.simps) simp
    have "j \<in> usedIds ds" if "n \<le> j" "j < newId ds (idPass ds n)" for j
      using that 1 [OF False] idPass_used [of j n ds] by (cases "j < idPass ds n") auto
    then show ?thesis unfolding e using 1 [OF False] by blast
  qed
qed

text \<open>
  A new device gets the lowest number that no attached device has: the passes over the list end, the
  number they leave is not in use, and every smaller one is.
\<close>

theorem new_device_gets_lowest_free_number:
  "u_id (newDevice p t ds) \<notin> usedIds ds \<and> {..< u_id (newDevice p t ds)} \<subseteq> usedIds ds"
  using newId_spec [of ds 0] by (auto simp: newDevice_def)

definition inOrder :: "usbDevice list \<Rightarrow> bool" where
  "inOrder ds \<longleftrightarrow>
     sorted_wrt (\<lambda>d e. busIndex d < busIndex e \<or> (busIndex d = busIndex e \<and> devIndex d < devIndex e)) ds"

lemma inOrder_iff: "inOrder ds \<longleftrightarrow> sorted_wrt (\<lambda>d e. locBefore (busIndex e) (devIndex e) d) ds"
  by (simp only: inOrder_def locBefore_def)

definition numbered :: "usbDevice list \<Rightarrow> bool" where
  "numbered ds \<longleftrightarrow> distinct (map u_id (filter (\<lambda>d. \<not> removed d) ds))"

lemma locBefore_trans: "locBefore b q d \<Longrightarrow> locBefore (busIndex d) (devIndex d) e \<Longrightarrow> locBefore b q e"
  by (auto simp: locBefore_def)

lemma insert_inOrder:
  assumes "inOrder ds" "pos = length (takeWhile (locBefore (busIndex h) (devIndex h)) ds)"
    and "\<not> (pos < length ds \<and> busIndex (ds ! pos) = busIndex h \<and> devIndex (ds ! pos) = devIndex h)"
  shows "inOrder (take pos ds @ [h] @ drop pos ds)"
proof -
  let ?P = "locBefore (busIndex h) (devIndex h)"
  have t: "take pos ds = takeWhile ?P ds" "drop pos ds = dropWhile ?P ds"
    unfolding assms(2) by (rule takeWhile_eq_take [symmetric], rule dropWhile_eq_drop [symmetric])
  have before: "?P d" if "d \<in> set (take pos ds)" for d using that t(1) by (auto dest: set_takeWhileD)
  have after: "locBefore (busIndex e) (devIndex e) h" if "e \<in> set (drop pos ds)" for e
  proof -
    have "drop pos ds \<noteq> []" using that by auto
    then obtain f fs where f: "drop pos ds = f # fs" by (meson neq_Nil_conv)
    have pos: "pos < length ds" "ds ! pos = f" using f nth_via_drop [OF f] by (cases "pos < length ds"; simp)+
    have "dropWhile ?P ds = f # fs" using f t(2) by simp
    then have "\<not> ?P f" using dropWhile_eq_Cons_conv [of ?P ds f fs] by blast
    moreover have "busIndex f \<noteq> busIndex h \<or> devIndex f \<noteq> devIndex h" using assms(3) pos by simp
    ultimately have hf: "locBefore (busIndex f) (devIndex f) h" by (auto simp: locBefore_def)
    have "sorted_wrt (\<lambda>d e. locBefore (busIndex e) (devIndex e) d) (drop pos ds)"
      using assms(1) unfolding inOrder_iff by (rule sorted_wrt_drop)
    then have "e = f \<or> locBefore (busIndex e) (devIndex e) f" using that unfolding f by (simp only: sorted_wrt.simps list.set) blast
    then show ?thesis using hf locBefore_trans by blast
  qed
  have "sorted_wrt (\<lambda>d e. locBefore (busIndex e) (devIndex e) d) (take pos ds @ drop pos ds)"
    using assms(1) by (simp add: inOrder_iff)
  then have "sorted_wrt (\<lambda>d e. locBefore (busIndex e) (devIndex e) d) (take pos ds @ h # drop pos ds)"
    using before after unfolding sorted_wrt_append sorted_wrt.simps list.set by blast
  then show ?thesis by (simp only: inOrder_iff append.simps)
qed

lemma noteError_frame:
  "noteError m e h n = (h', n') \<Longrightarrow> u_id h' = u_id h \<and> busIndex h' = busIndex h \<and> devIndex h' = devIndex h \<and> removed h' = removed h"
  by (auto simp: noteError_def split: prod.splits)

lemma claimLoop_frame:
  "claimLoop f as h n = Some (ok, h', n') \<Longrightarrow>
     u_id h' = u_id h \<and> busIndex h' = busIndex h \<and> devIndex h' = devIndex h \<and> removed h' = removed h"
proof (induction as arbitrary: h n)
  case (Cons a as)
  obtain h1 n1 where 1: "noteError (Some (fst (the (attemptError a)))) (snd (the (attemptError a))) h n = (h1, n1)"
    by (cases "noteError (Some (fst (the (attemptError a)))) (snd (the (attemptError a))) h n")
  have "h' = h \<or> h' = h1 \<or> claimLoop f as h1 n1 = Some (ok, h', n')"
    using Cons.prems 1 by (auto split: if_splits option.splits)
  then show ?case using Cons.IH [of h1 n1] noteError_frame [OF 1] by auto
qed simp

lemma clearFirst_frame:
  "inOrder (clearFirst ds) = inOrder ds" "numbered (clearFirst ds) = numbered ds" "usedIds (clearFirst ds) = usedIds ds"
proof -
  have "inOrder (clearFirst ds) = inOrder ds \<and> numbered (clearFirst ds) = numbered ds \<and> usedIds (clearFirst ds) = usedIds ds"
  proof (cases ds)
    case (Cons d es)
    obtain e n where e: "noteError None 0 d 0 = (e, n)" by (cases "noteError None 0 d 0")
    then have c: "clearFirst ds = e # es" by (simp add: clearFirst_def Cons)
    note f = noteError_frame [OF e]
    have "locBefore b q e = locBefore b q d" for b q using f by (simp add: locBefore_def)
    then have "inOrder (e # es) = inOrder (d # es)" by (simp only: inOrder_iff sorted_wrt.simps)
    moreover have "numbered (e # es) = numbered (d # es)" using f by (simp add: numbered_def)
    moreover have "usedIds (x # xs) = (if removed x then {} else {u_id x}) \<union> usedIds xs" for x xs
      by (auto simp: usedIds_def)
    then have "usedIds (e # es) = usedIds (d # es)" using f by simp
    ultimately show ?thesis using c Cons by simp
  qed (simp add: clearFirst_def)
  then show "inOrder (clearFirst ds) = inOrder ds" "numbered (clearFirst ds) = numbered ds" "usedIds (clearFirst ds) = usedIds ds"
    by auto
qed

lemma distinct_insert:
  "distinct (map f (filter P (xs @ ys))) \<Longrightarrow> f h \<notin> f ` {d \<in> set (xs @ ys). P d} \<Longrightarrow> distinct (map f (filter P (xs @ [h] @ ys)))"
  by auto

lemma numbered_insert:
  "numbered ds \<Longrightarrow> u_id h \<notin> usedIds ds \<Longrightarrow> numbered (take n ds @ [h] @ drop n ds)"
  using distinct_insert [of u_id "\<lambda>d. \<not> removed d" "take n ds" "drop n ds" h]
  unfolding numbered_def usedIds_def append_take_drop_id by blast

lemma matchDevice_ok:
  assumes "matchDevice p t (l, m, n) = Some (l', m', n')" "inOrder (deviceList l)" "numbered (deviceList l)"
  shows "inOrder (deviceList l') \<and> numbered (deviceList l') \<and> length (deviceList l') = length (deviceList l) + (m' - m) \<and> m \<le> m'"
proof (cases "p_id p = t")
  case True
  let ?ds = "clearFirst (deviceList l)"
  let ?l = "l\<lparr>deviceList := ?ds\<rparr>"
  define pos where "pos = length (takeWhile (locBefore (p_bus p) (p_port p)) ?ds)"
  have len: "length ?ds = length (deviceList l)" by (simp add: clearFirst_def split: list.split)
  have ds: "inOrder ?ds" "numbered ?ds" using assms(2,3) by (simp_all add: clearFirst_frame)
  consider "l' = ?l" "m' = m" | ok where "claimDevice p t ?l pos = Some (ok, l')" "m' = (if ok then m + 1 else m)"
      "\<not> (pos < length ?ds \<and> busIndex (?ds ! pos) = p_bus p \<and> devIndex (?ds ! pos) = p_port p)"
    using assms(1) True by (auto simp: matchDevice_def Let_def simp flip: pos_def split: if_splits)
  then show ?thesis
  proof cases
    case 1
    then show ?thesis using ds len by simp
  next
    case (2 ok)
    then consider "\<not> ok" "l' = ?l" | h e where ok "claimLoop (force ?l) (p_attempts p) (newDevice p t ?ds) 0 = Some (True, h, e)"
        "l' = ?l\<lparr>deviceList := take pos ?ds @ [h] @ drop pos ?ds\<rparr>"
      by (auto simp: claimDevice_def split: if_splits)
    then show ?thesis
    proof cases
      case 1
      then show ?thesis using ds len 2(2) by simp
    next
      case (2 h e)
      have h: "u_id h = u_id (newDevice p t ?ds)" "busIndex h = p_bus p" "devIndex h = p_port p"
        using claimLoop_frame [OF 2(2)] by (simp_all add: newDevice_def)
      have "u_id h \<notin> usedIds ?ds" using newId_spec [of ?ds 0] h(1) by (simp add: newDevice_def)
      then have "numbered (take pos ?ds @ [h] @ drop pos ?ds)" using numbered_insert [OF ds(2)] by blast
      moreover have "inOrder (take pos ?ds @ [h] @ drop pos ?ds)"
        using insert_inOrder [OF ds(1), of pos h] \<open>\<not> (pos < length ?ds \<and> _)\<close> h(2,3) by (simp add: pos_def)
      ultimately show ?thesis using 2 len \<open>m' = _\<close> by simp
    qed
  qed
next
  case False
  then show ?thesis using assms by (simp add: matchDevice_def)
qed

lemma matchAll_ok:
  "matchAll r (l, m, n) = Some (l', m', n') \<Longrightarrow> inOrder (deviceList l) \<Longrightarrow> numbered (deviceList l) \<Longrightarrow>
     inOrder (deviceList l') \<and> numbered (deviceList l') \<and> length (deviceList l') = length (deviceList l) + (m' - m) \<and> m \<le> m'"
proof (induction r arbitrary: l m n)
  case (Cons x r)
  obtain p t where x: "x = (p, t)" by (cases x)
  obtain l1 m1 n1 where 1: "matchDevice p t (l, m, n) = Some (l1, m1, n1)"
    using Cons.prems(1) x by (cases "matchDevice p t (l, m, n)") auto
  have "matchAll r (l1, m1, n1) = Some (l', m', n')" using Cons.prems(1) x 1 by simp
  from Cons.IH [OF this] matchDevice_ok [OF 1 Cons.prems(2,3)] show ?case by auto
qed simp

text \<open>
  C11.  The list of devices stays in order through every search of the bus: devices are sorted by bus and
  number of the port, which is what the driver knows a device by, so that a device that is already known
  is found again and not claimed twice, attached devices
  have different numbers, and the list grows by exactly the number of devices that were claimed.
\<close>

theorem updateDeviceList_keeps_order:
  assumes "updateDeviceList bus l = Some (l', newCount, n)" "inOrder (deviceList l)" "numbered (deviceList l)"
  shows "inOrder (deviceList l') \<and> numbered (deviceList l') \<and> length (deviceList l') = length (deviceList l) + newCount"
  using matchAll_ok [of _ l 0 0 l' newCount n] assms by (simp add: updateDeviceList_def)

definition probe0 :: "nat \<Rightarrow> probe" where
  "probe0 q = \<lparr>p_id = \<lparr>idVendor = 0x1781, idProduct = 0x938\<rparr>, p_bus = 1, p_port = q, p_open = 0,
     p_attempts = [\<lparr>unbound = False, getConfiguration = 0, configNum = 1, setConfiguration = 0, claimInterface = 0\<rparr>]\<rparr>"

lemma newId_Nil: "newId [] n = n"
  by (subst newId.simps) (simp add: idPass_def)

lemma newId_one: "\<not> removed d \<Longrightarrow> u_id d = 0 \<Longrightarrow> newId [d] 0 = 1"
proof -
  assume "\<not> removed d" "u_id d = 0"
  then have "idPass [d] 0 = 1" "idPass [d] 1 = 1" by (simp_all add: idPass_def findId_def)
  then show ?thesis by (metis newId.simps one_neq_zero)
qed

theorem updateDeviceList_keeps_order_witness:
  "\<exists>l' n. updateDeviceList [probe0 4, probe0 2] \<lparr>deviceList = [], ids = [\<lparr>idVendor = 0x1781, idProduct = 0x938\<rparr>],
        describeOnly = False, force = False\<rparr> = Some (l', 2, n)
     \<and> map devIndex (deviceList l') = [2, 4] \<and> map u_id (deviceList l') = [1, 0] \<and> inOrder (deviceList l')"
proof -
  let ?l = "\<lparr>deviceList = [], ids = [\<lparr>idVendor = 0x1781, idProduct = 0x938\<rparr>], describeOnly = False, force = False\<rparr>"
  have run: "map_option (\<lambda>(l', m, n). (map devIndex (deviceList l'), map u_id (deviceList l'), m)) (updateDeviceList [probe0 4, probe0 2] ?l)
      = Some ([2, 4], [1, 0], 2)"
    by (simp add: updateDeviceList_def matchDevice_def probe0_def claimDevice_def attemptError_def clearFirst_def noteError_def
        usbErrorText_def newDevice_def locBefore_def newId_Nil newId_one Let_def)
  then obtain z where z: "updateDeviceList [probe0 4, probe0 2] ?l = Some z"
    "(case z of (l', m, n) \<Rightarrow> (map devIndex (deviceList l'), map u_id (deviceList l'), m)) = ([2, 4], [1, 0], 2)"
    unfolding map_option_eq_Some by blast
  obtain l' m n where "z = (l', m, n)" by (cases z)
  with z have l': "updateDeviceList [probe0 4, probe0 2] ?l = Some (l', 2, n)"
    "map devIndex (deviceList l') = [2, 4]" "map u_id (deviceList l') = [1, 0]"
    by (simp_all only: prod.case prod.inject)
  from updateDeviceList_keeps_order [OF l'(1)] have "inOrder (deviceList l')" by (simp add: inOrder_def numbered_def)
  with l' show ?thesis by (intro exI conjI)
qed

text \<open>
  A failure to read the configuration of a device is recorded as an unknown error, because the result
  of the comparison is stored instead of the error; a device that another driver holds is then not
  released from that driver and claimed again, as it is when the later calls report it busy.
\<close>

theorem busy_configuration_is_not_retried:
  assumes "getConfiguration a < 0"
  shows "claimLoop True (a # as) h 0 = Some (False, h\<lparr>u_error := Some ''Failed to set device configuration'',
      usbError := Some ''Untranslated error.''\<rparr>, - 1)"
  using assms by (simp add: attemptError_def noteError_def usbErrorText_def)

theorem busy_configuration_is_not_retried_witness:
  "claimLoop True [\<lparr>unbound = True, getConfiguration = - 6, configNum = 0, setConfiguration = 0, claimInterface = 0\<rparr>]
      (newDevice (probe0 1) \<lparr>idVendor = 0, idProduct = 0\<rparr> []) 0
    = Some (False, (newDevice (probe0 1) \<lparr>idVendor = 0, idProduct = 0\<rparr> [])\<lparr>u_error := Some ''Failed to set device configuration'',
        usbError := Some ''Untranslated error.''\<rparr>, - 1)"
  by (rule busy_configuration_is_not_retried) simp

text \<open>
  A device that stays busy is tried for ever when the daemon may unbind other drivers and the unbinding
  seems to work: the comment in the code promises one try.
\<close>

lemma busy_claim_never_ends:
  "claimLoop True (replicate n \<lparr>unbound = True, getConfiguration = 0, configNum = 1, setConfiguration = 0, claimInterface = - 6\<rparr>) h e = None"
  by (induction n arbitrary: h e) (simp_all add: attemptError_def noteError_def usbErrorText_def)

text \<open>Stopping marks every device, and releasing empties a list whose devices were not released before.\<close>

lemma stop_and_release:
  "fst (stopDevices l) = length (deviceList l) \<and> list_all u_stopped (deviceList (snd (stopDevices l)))"
  "list_all (\<lambda>d. \<not> removed d) (deviceList l) \<Longrightarrow> releaseDevices l = Some (length (deviceList l))"
proof -
  show "fst (stopDevices l) = length (deviceList l) \<and> list_all u_stopped (deviceList (snd (stopDevices l)))"
    by (simp add: stopDevices_def list_all_iff)
  have "list_all (\<lambda>d. \<not> removed d) ds \<Longrightarrow> releaseLoop ds = Some []" for ds by (induction ds) simp_all
  then show "list_all (\<lambda>d. \<not> removed d) (deviceList l) \<Longrightarrow> releaseDevices l = Some (length (deviceList l))"
    by (simp add: releaseDevices_def)
qed

section \<open>The contract of a driver\<close>

text \<open>
  What the daemon relies on, whichever driver is loaded: scans of the bus may be repeated (on a hangup, on
  a timer, after an unplugged device), and the list stays in order with distinct numbers, so that a
  position on the bus belongs to one device.
\<close>

definition listed :: "usbDeviceList \<Rightarrow> bool" where
  "listed l \<longleftrightarrow> inOrder (deviceList l) \<and> numbered (deviceList l)"

fun scanAll :: "('b \<Rightarrow> usbDeviceList \<Rightarrow> usbDeviceList option) \<Rightarrow> 'b list \<Rightarrow> usbDeviceList \<Rightarrow> usbDeviceList option" where
  "scanAll scan [] l = Some l"
| "scanAll scan (b # bs) l = Option.bind (scan b l) (scanAll scan bs)"

lemma inOrder_unique:
  assumes "inOrder ds" "i < length ds" "j < length ds"
    and "busIndex (ds ! i) = busIndex (ds ! j)" "devIndex (ds ! i) = devIndex (ds ! j)"
  shows "i = j"
proof (rule ccontr)
  assume "i \<noteq> j"
  then consider "i < j" | "j < i" by linarith
  then show False using assms by cases (fastforce simp: inOrder_def sorted_wrt_iff_nth_less)+
qed

locale bus_scanner =
  fixes scan :: "'b \<Rightarrow> usbDeviceList \<Rightarrow> usbDeviceList option" and plausible :: "'b \<Rightarrow> bool"
  assumes scan_listed: "scan b l = Some l' \<Longrightarrow> plausible b \<Longrightarrow> listed l \<Longrightarrow> listed l'"
    and scan_grows: "scan b l = Some l' \<Longrightarrow> plausible b \<Longrightarrow> listed l \<Longrightarrow> length (deviceList l) \<le> length (deviceList l')"
begin

lemma scans_listed: "scanAll scan bs l = Some l' \<Longrightarrow> list_all plausible bs \<Longrightarrow> listed l \<Longrightarrow> listed l'"
  by (induction bs arbitrary: l) (auto simp: bind_eq_Some_conv dest: scan_listed)

lemma scans_grow:
  "scanAll scan bs l = Some l' \<Longrightarrow> list_all plausible bs \<Longrightarrow> listed l \<Longrightarrow> length (deviceList l) \<le> length (deviceList l')"
  by (induction bs arbitrary: l) (fastforce simp: bind_eq_Some_conv dest: scan_grows scan_listed)+

lemma one_device_per_place:
  "scanAll scan bs l = Some l' \<Longrightarrow> list_all plausible bs \<Longrightarrow> listed l \<Longrightarrow> i < length (deviceList l') \<Longrightarrow> j < length (deviceList l') \<Longrightarrow>
     busIndex (deviceList l' ! i) = busIndex (deviceList l' ! j) \<Longrightarrow> devIndex (deviceList l' ! i) = devIndex (deviceList l' ! j) \<Longrightarrow> i = j"
  by (rule inOrder_unique [of "deviceList l'"]) (use scans_listed [of bs l l'] in \<open>simp_all add: listed_def\<close>)

end

lemma updateDeviceList_listed:
  assumes "map_option fst (updateDeviceList b l) = Some l'"
  shows "(listed l \<longrightarrow> listed l') \<and> length (deviceList l) \<le> length (deviceList l')"
proof -
  obtain m n where u: "updateDeviceList b l = Some (l', m, n)" using assms by auto
  have grow: "length (deviceList l1) \<le> length (deviceList l2)" if "matchDevice p t (l1, a) = Some (l2, c)" for p t l1 a l2 c
    using that by (cases a)
      (auto simp: matchDevice_def claimDevice_def clearFirst_def Let_def split: if_splits list.splits option.splits prod.splits)
  have "length (deviceList l1) \<le> length (deviceList l2)" if "matchAll r (l1, a) = Some (l2, c)" for r l1 a l2 c
    using that
  proof (induction r arbitrary: l1 a)
    case (Cons x r)
    obtain p t where x: "x = (p, t)" by (cases x)
    obtain l3 e where 3: "matchDevice p t (l1, a) = Some (l3, e)" "matchAll r (l3, e) = Some (l2, c)"
      using Cons.prems x by (cases "matchDevice p t (l1, a)") auto
    show ?case using grow [OF 3(1)] Cons.IH [OF 3(2)] by linarith
  qed simp
  then have "length (deviceList l) \<le> length (deviceList l')" using u unfolding updateDeviceList_def by blast
  moreover have "listed l \<longrightarrow> listed l'"
    using matchAll_ok [of _ l 0 0 l' m n] u by (auto simp: updateDeviceList_def listed_def)
  ultimately show ?thesis by blast
qed

interpretation libusb: bus_scanner "\<lambda>b l. map_option fst (updateDeviceList b l)" "\<lambda>_. True"
  using updateDeviceList_listed by unfold_locales blast+

lemma inOrder_position:
  assumes "inOrder ds" "d \<in> set ds"
  shows "length (takeWhile (locBefore (busIndex d) (devIndex d)) ds) < length ds
    \<and> busIndex (ds ! length (takeWhile (locBefore (busIndex d) (devIndex d)) ds)) = busIndex d
    \<and> devIndex (ds ! length (takeWhile (locBefore (busIndex d) (devIndex d)) ds)) = devIndex d"
proof -
  obtain xs ys where ds: "ds = xs @ d # ys" using assms(2) by (meson split_list)
  have "locBefore (busIndex d) (devIndex d) x" if "x \<in> set xs" for x
    using assms(1) that unfolding ds inOrder_iff by (auto simp: sorted_wrt_append)
  moreover have "\<not> locBefore (busIndex d) (devIndex d) d" by (simp add: locBefore_def)
  ultimately have "takeWhile (locBefore (busIndex d) (devIndex d)) ds = xs"
    unfolding ds by (subst takeWhile_append2) auto
  then show ?thesis by (simp add: ds)
qed

text \<open>
  A place on the bus that has a device on the list is not claimed again: a search leaves the devices of
  the list and the count of new ones alone there.  Places are told apart by bus and port number, so this
  also holds for a second device behind another hub of the bus whose port has the same number.
\<close>

theorem known_place_is_not_claimed:
  assumes "listed l" "d \<in> set (deviceList l)" "busIndex d = p_bus p" "devIndex d = p_port p"
  shows "matchDevice p t (l, m, n) = Some (l, m, n)
    \<or> matchDevice p t (l, m, n) = Some (l\<lparr>deviceList := clearFirst (deviceList l)\<rparr>, m, n)"
proof -
  let ?ds = "clearFirst (deviceList l)"
  have o: "inOrder ?ds" using assms(1) by (simp add: listed_def clearFirst_frame)
  have "(busIndex d, devIndex d) \<in> set (map (\<lambda>d. (busIndex d, devIndex d)) ?ds)"
  proof -
    have "map (\<lambda>d. (busIndex d, devIndex d)) ?ds = map (\<lambda>d. (busIndex d, devIndex d)) (deviceList l)"
      by (simp add: clearFirst_def noteError_def usbErrorText_def split: list.split)
    then show ?thesis using assms(2) by auto
  qed
  then obtain e where e: "e \<in> set ?ds" "busIndex e = p_bus p" "devIndex e = p_port p" using assms(3,4) by auto
  from inOrder_position [OF o e(1)] e(2,3) show ?thesis by (simp add: matchDevice_def Let_def)
qed

theorem known_place_is_not_claimed_witness:
  "let d = (newDevice (probe0 2) \<lparr>idVendor = 0, idProduct = 0\<rparr> []);
       l = \<lparr>deviceList = [d], ids = [], describeOnly = False, force = False\<rparr>
   in matchDevice (probe0 2) \<lparr>idVendor = 0x1781, idProduct = 0x938\<rparr> (l, 0, 0) = Some (l, 0, 0)
      \<or> matchDevice (probe0 2) \<lparr>idVendor = 0x1781, idProduct = 0x938\<rparr> (l, 0, 0) = Some (l\<lparr>deviceList := clearFirst [d]\<rparr>, 0, 0)"
proof -
  let ?d = "newDevice (probe0 2) \<lparr>idVendor = 0, idProduct = 0\<rparr> []"
  let ?l = "\<lparr>deviceList = [?d], ids = [], describeOnly = False, force = False\<rparr>"
  have "listed ?l" by (simp add: listed_def inOrder_def numbered_def)
  from known_place_is_not_claimed [OF this, of ?d "probe0 2"] show ?thesis by (simp add: newDevice_def probe0_def)
qed

end
