(* ===== verification/Usb_In_Use.thy ===== *)
theory Usb_In_Use
  imports Usb_Driver
begin

text \<open>
  \<open>checkInUse\<close> of \<open>drivers/libusb.c\<close>: the search of \<open>/sys/bus/usb/devices\<close> for a device, the report of who has
  claimed it and the attempt to unbind that driver.  The directory is a list of its entries in the order
  \<open>readdir\<close> gives them; \<open>entryBus\<close> is the bus the entry is really on, which the code never reads.
\<close>

section \<open>The directory\<close>

datatype driverLink = LinkTo string | NoLink | LinkError int

record sysEntry =
  entryName :: string
  entryBus :: nat
  devnum :: "int option"      \<comment> \<open>what the file of that name holds, if it can be read\<close>
  driver :: driverLink
  canUnbind :: bool

datatype report =
    OddLink string | ByUsbfs | ByKernelDriver string    \<comment> \<open>who has claimed the interface\<close>
  | Unbinding string | UnbindFailed string | Unclaimed | UndetectedState int

text \<open>The text from the last slash on, as \<open>strrchr\<close> finds it.\<close>

definition fromLastSlash :: "string \<Rightarrow> string option" where
  "fromLastSlash s = (case dropWhile (\<lambda>c. c \<noteq> CHR ''/'') (rev s) of [] \<Rightarrow> None | c # _ \<Rightarrow> Some (c # rev (takeWhile (\<lambda>c. c \<noteq> CHR ''/'') (rev s))))"

definition claimReport :: "string \<Rightarrow> report" where
  "claimReport link =
     (case fromLastSlash link of
        None \<Rightarrow> OddLink link
      | Some s \<Rightarrow> if s = ''/usbfs'' then ByUsbfs else ByKernelDriver (drop 1 s))"

text \<open>What is done with the entry that is found: the answer, the report, and the entry afterwards.\<close>

definition inspect :: "bool \<Rightarrow> sysEntry \<Rightarrow> bool \<times> report list \<times> sysEntry" where
  "inspect describe e =
     (case driver e of
        LinkTo link \<Rightarrow>
          if describe then (True, [claimReport link], e)
          else if canUnbind e then (True, [Unbinding (entryName e)], e\<lparr>driver := NoLink\<rparr>)
          else (False, [Unbinding (entryName e), UnbindFailed (entryName e)], e)
      | NoLink \<Rightarrow> (True, [Unclaimed], e)
      | LinkError n \<Rightarrow> (True, [UndetectedState n], e))"

fun checkInUse :: "nat \<Rightarrow> bool \<Rightarrow> sysEntry list \<Rightarrow> bool \<times> report list \<times> sysEntry list" where
  "checkInUse address describe [] = (False, [], [])"
| "checkInUse address describe (e # es) =
     (if devnum e = Some (int address)
      then (case inspect describe e of (ok, r, e) \<Rightarrow> (ok, r, e # es))
      else (case checkInUse address describe es of (ok, r, es) \<Rightarrow> (ok, r, e # es)))"

section \<open>The other operations of the driver\<close>

definition prepareDeviceList :: "usbId list \<Rightarrow> usbDeviceList" where
  "prepareDeviceList types = \<lparr>deviceList = [], ids = types, describeOnly = False, force = False\<rparr>"

definition claimDevices :: "bool \<Rightarrow> bool \<Rightarrow> usbDeviceList \<Rightarrow> usbDeviceList" where
  "claimDevices claim unbind l = l\<lparr>describeOnly := \<not> claim, force := unbind\<rparr>"

abbreviation (input) EP_IN :: nat where "EP_IN \<equiv> 0"
abbreviation (input) EP_OUT :: nat where "EP_OUT \<equiv> 1"

fun clearHalt :: "(nat \<Rightarrow> int) \<Rightarrow> nat \<times> nat \<Rightarrow> nat \<Rightarrow> int" where
  "clearHalt halt (inAddress, outAddress) ep = (if ep = EP_IN then halt inAddress else if ep = EP_OUT then halt outAddress else - 1)"

section \<open>Properties\<close>

definition entryOf :: "nat \<Rightarrow> sysEntry list \<Rightarrow> sysEntry option" where
  "entryOf address es = List.find (\<lambda>e. devnum e = Some (int address)) es"

lemma checkInUse_find:
  "fst (checkInUse address describe es) = (case entryOf address es of None \<Rightarrow> False | Some e \<Rightarrow> fst (inspect describe e))"
  by (induction es) (auto simp: entryOf_def split: prod.splits)

lemma checkInUse_split:
  assumes "checkInUse address describe es = (ok, r, es')"
  shows "(es' = es \<and> \<not> ok \<and> r = [] \<and> entryOf address es = None)
    \<or> (\<exists>as e bs e'. es = as @ e # bs \<and> (\<forall>a \<in> set as. devnum a \<noteq> Some (int address)) \<and> devnum e = Some (int address)
         \<and> entryOf address es = Some e \<and> inspect describe e = (ok, r, e') \<and> es' = as @ e' # bs)"
  using assms
proof (induction es arbitrary: es')
  case Nil
  then show ?case by (simp add: entryOf_def)
next
  case (Cons x xs)
  show ?case
  proof (cases "devnum x = Some (int address)")
    case True
    then obtain x' where "inspect describe x = (ok, r, x')" "es' = x' # xs" using Cons.prems by (auto split: prod.splits)
    then show ?thesis using True
      by (intro disjI2 exI [of _ "[]"] exI [of _ x] exI [of _ xs] exI [of _ x']) (simp add: entryOf_def)
  next
    case False
    obtain ys where ys: "checkInUse address describe xs = (ok, r, ys)" "es' = x # ys"
      using Cons.prems False by (auto split: prod.splits)
    have e: "entryOf address (x # xs) = entryOf address xs" using False by (simp add: entryOf_def)
    from Cons.IH [OF ys(1)] show ?thesis
    proof
      assume "ys = xs \<and> \<not> ok \<and> r = [] \<and> entryOf address xs = None"
      then show ?thesis using ys(2) e by simp
    next
      assume "\<exists>as f bs f'. xs = as @ f # bs \<and> (\<forall>a \<in> set as. devnum a \<noteq> Some (int address)) \<and> devnum f = Some (int address)
         \<and> entryOf address xs = Some f \<and> inspect describe f = (ok, r, f') \<and> ys = as @ f' # bs"
      then obtain as f bs f' where f: "xs = as @ f # bs" "\<forall>a \<in> set as. devnum a \<noteq> Some (int address)" "devnum f = Some (int address)"
         "entryOf address xs = Some f" "inspect describe f = (ok, r, f')" "ys = as @ f' # bs" by blast
      show ?thesis
        by (intro disjI2 exI [of _ "x # as"] exI [of _ f] exI [of _ bs] exI [of _ f']) (use f False ys(2) e in simp)
    qed
  qed
qed

text \<open>
  What listing and unbinding do to other devices.  Listing changes nothing.  An unbind touches at most one entry,
  the first that carries the device's number, and takes only its driver away; that it is the entry of
  the device itself is certain only if no device of another bus carries the same number.
\<close>

theorem unbind_touches_one_entry:
  assumes "checkInUse address describe es = (ok, r, es')" "es' \<noteq> es"
  shows "\<not> describe \<and> ok \<and> (\<exists>as e bs. es = as @ e # bs \<and> es' = as @ e\<lparr>driver := NoLink\<rparr> # bs \<and> devnum e = Some (int address)
     \<and> ((\<forall>x \<in> set es. devnum x = Some (int address) \<longrightarrow> entryBus x = bus) \<longrightarrow> entryBus e = bus))"
proof -
  obtain as e bs e' where e: "es = as @ e # bs" "devnum e = Some (int address)" "inspect describe e = (ok, r, e')" "es' = as @ e' # bs"
    using checkInUse_split [OF assms(1)] assms(2) by blast
  then have "\<not> describe \<and> ok \<and> e' = e\<lparr>driver := NoLink\<rparr>"
    using assms(2) by (auto simp: inspect_def split: driverLink.splits if_splits)
  then show ?thesis using e by auto
qed

text \<open>The mouse on bus 1 loses its driver to a transceiver on bus 2 that carries the same number.\<close>

definition mouseEntry :: sysEntry where
  "mouseEntry = \<lparr>entryName = ''1-4'', entryBus = 1, devnum = Some 7, driver = LinkTo ''../drivers/usbhid'', canUnbind = True\<rparr>"

definition irEntry :: sysEntry where
  "irEntry = \<lparr>entryName = ''2-1'', entryBus = 2, devnum = Some 7, driver = LinkTo ''../drivers/usbfs'', canUnbind = True\<rparr>"

theorem unbind_touches_one_entry_witness:
  "snd (snd (checkInUse 7 False [mouseEntry, irEntry])) = [mouseEntry\<lparr>driver := NoLink\<rparr>, irEntry]"
proof -
  have c: "checkInUse 7 False [mouseEntry, irEntry] = (True, [Unbinding ''1-4''], [mouseEntry\<lparr>driver := NoLink\<rparr>, irEntry])"
    by (simp add: mouseEntry_def irEntry_def inspect_def)
  have "[mouseEntry\<lparr>driver := NoLink\<rparr>, irEntry] \<noteq> [mouseEntry, irEntry]" by (simp add: mouseEntry_def)
  from unbind_touches_one_entry [OF c this] show ?thesis using c by simp
qed

section \<open>Forcing a claim\<close>

text \<open>The answers of repeated calls during a claim.\<close>

fun unbindAnswers :: "nat \<Rightarrow> nat \<Rightarrow> sysEntry list \<Rightarrow> bool list" where
  "unbindAnswers 0 address es = []"
| "unbindAnswers (Suc n) address es =
     (case checkInUse address False es of (ok, _, es) \<Rightarrow> ok # unbindAnswers n address es)"

definition busyWith :: "bool \<Rightarrow> attempt" where
  "busyWith ok = \<lparr>unbound = ok, getConfiguration = 0, configNum = 1, setConfiguration = 0, claimInterface = - 6\<rparr>"

lemma inspect_again: "inspect False e = (True, r, e') \<Longrightarrow> devnum e' = devnum e \<and> fst (inspect False e')"
  by (auto simp: inspect_def split: driverLink.splits if_splits)

lemma answers_stay:
  assumes "entryOf address es = Some e" "fst (inspect False e)"
  shows "unbindAnswers n address es = replicate n True"
  using assms
proof (induction n arbitrary: es e)
  case (Suc n)
  obtain ok r es' where c: "checkInUse address False es = (ok, r, es')" by (metis prod_cases3)
  obtain as bs e' where e: "es = as @ e # bs" "\<forall>a \<in> set as. devnum a \<noteq> Some (int address)" "devnum e = Some (int address)"
      "inspect False e = (ok, r, e')" "es' = as @ e' # bs"
    using checkInUse_split [OF c] Suc.prems(1) by auto
  have k: ok using e(4) Suc.prems(2) by simp
  have e': "devnum e' = Some (int address)" "fst (inspect False e')" using inspect_again e(3,4) k by auto
  have "List.find (\<lambda>e. devnum e = Some (int address)) (as @ e' # bs) = Some e'" using e(2) e'(1) by (induction as) auto
  then have "entryOf address es' = Some e'" using e(5) by (simp add: entryOf_def)
  from Suc.IH [OF this e'(2)] show ?case using c k by simp
qed simp

lemma busy_goes_on: "claimLoop True (map busyWith (replicate n True)) h errn = None"
  by (induction n arbitrary: h errn) (simp_all add: busyWith_def attemptError_def noteError_def usbErrorText_def)

text \<open>
  A daemon that may unbind other drivers, at an interface that stays busy: if the entry with the device's number
  can be unbound or has no driver, \<open>claimDevice\<close> tries for ever, although the entry may be that of another
  device; otherwise it gives up at the first refusal.
\<close>

theorem forced_claim_tries_for_ever:
  assumes "entryOf address es = Some e"
  shows "if fst (inspect False e)
    then claimLoop True (busyWith True # map busyWith (unbindAnswers n address es)) h 0 = None
    else (\<exists>h'. claimLoop True (busyWith True # map busyWith (unbindAnswers (Suc n) address es)) h 0 = Some (False, h', EBUSY))"
proof (cases "fst (inspect False e)")
  case True
  then have "busyWith True # map busyWith (unbindAnswers n address es) = map busyWith (replicate (Suc n) True)"
    using answers_stay [OF assms True] by simp
  then show ?thesis using True busy_goes_on [of "Suc n" h 0] by (simp only: if_True)
next
  case False
  then have "\<not> fst (checkInUse address False es)" by (simp add: checkInUse_find assms)
  then show ?thesis using False
    by (auto simp: busyWith_def attemptError_def noteError_def usbErrorText_def split: prod.splits)
qed

theorem forced_claim_tries_for_ever_witness:
  "claimLoop True (busyWith True # map busyWith (unbindAnswers 100 7 [mouseEntry, irEntry])) (newDevice (probe0 1) \<lparr>idVendor = 0, idProduct = 0\<rparr> []) 0 = None"
proof -
  have "entryOf 7 [mouseEntry, irEntry] = Some mouseEntry" by (simp add: entryOf_def mouseEntry_def)
  from forced_claim_tries_for_ever [OF this, of 100] show ?thesis by (simp add: inspect_def mouseEntry_def)
qed

end
