(* ===== verification/Usb_Driver_Pre1.thy ===== *)
theory Usb_Driver_Pre1
  imports Usb_Driver
begin

text \<open>
  \<open>drivers/libusbpre1.c\<close>, the driver for libusb 0.1.  Its structs have the fields of the newer driver, so the
  records are shared; what the calls of libusb 0.1 return, the \<open>errno\<close> they leave and the text of
  \<open>usb_strerror\<close> are arguments.
\<close>

section \<open>Errors and transfers\<close>

definition noteErrorPre1 :: "string option \<Rightarrow> string \<Rightarrow> usbDevice \<Rightarrow> usbDevice" where
  "noteErrorPre1 err txt h =
     (let h = h\<lparr>u_error := err\<rparr> in if err \<noteq> None then h\<lparr>usbError := Some txt\<rparr> else h)"

definition setErrorPre1 :: "string option \<Rightarrow> string \<Rightarrow> usbDevice option \<Rightarrow> usbDevice option" where
  "setErrorPre1 err txt handle = map_option (noteErrorPre1 err txt) handle"

text \<open>The device's record and its error as text, as the newer driver prints them.\<close>

definition printErrorPre1 :: "string option \<Rightarrow> usbDevice option \<Rightarrow> string" where
  "printErrorPre1 msg handle =
     (let err = Option.bind handle u_error; usb = Option.bind handle usbError
      in case msg of
           Some m \<Rightarrow>
             (case err of None \<Rightarrow> m
              | Some e \<Rightarrow> (case usb of None \<Rightarrow> m @ '': '' @ e | Some u \<Rightarrow> m @ '': '' @ e @ '': '' @ u))
         | None \<Rightarrow>
             (case err of None \<Rightarrow> ''No error recorded''
              | Some e \<Rightarrow> (case usb of None \<Rightarrow> e | Some u \<Rightarrow> e @ '': '' @ u)))"

text \<open>A transfer: its result and the errno it leaves.  The results are the return value, the device and errno.\<close>

definition usbRecvPre1 :: "int \<times> int \<Rightarrow> string \<Rightarrow> usbDevice \<Rightarrow> int \<times> usbDevice \<times> int" where
  "usbRecvPre1 transfer txt h =
     (let (retval, errn) = transfer
      in if u_stopped h then (- ENXIO, h, ENXIO)
         else if retval < 0
         then let h = noteErrorPre1 (Some ''Failed to read (interrupt end point)'') txt h
              in (retval, h,
                  if retval < - 1 \<or> errn = 0 then (if retval = - 116 then ETIMEDOUT else - retval) else errn)
         else (retval, h, errn))"

definition usbSendPre1 :: "int \<times> int \<Rightarrow> string \<Rightarrow> usbDevice \<Rightarrow> int \<times> usbDevice \<times> int" where
  "usbSendPre1 transfer txt h =
     (let (retval, errn) = transfer; h = noteErrorPre1 None txt h
      in if u_stopped h then (- ENXIO, h, ENXIO)
         else if retval < 0 then (retval, noteErrorPre1 (Some ''Failed to write (interrupt end point)'') txt h, errn)
         else (retval, h, errn))"

section \<open>Releasing\<close>

text \<open>
  The device at a position: what releasing its interface returns with the errno, and what closing it
  returns.  The results are the error that is printed, whether the handle was closed, and the list.
\<close>

definition releasePre1 :: "int \<times> int \<Rightarrow> int \<Rightarrow> string \<Rightarrow> nat \<Rightarrow> usbDevice list \<Rightarrow> string option \<times> bool \<times> usbDevice list" where
  "releasePre1 rel cls txt i ds =
     (if removed (ds ! i) then (None, False, ds)
      else let h = noteErrorPre1 None txt ((ds ! i)\<lparr>removed := True\<rparr>);
               h = (if fst rel < 0 \<and> snd rel \<noteq> ENODEV then noteErrorPre1 (Some ''Failed to release interface'') txt h
                    else if cls < 0 then noteErrorPre1 (Some ''Failed to close device'') txt h else h)
           in (if u_error h = None then None else Some (printErrorPre1 None (Some h)),
               \<not> (fst rel < 0 \<and> snd rel \<noteq> ENODEV) \<and> 0 \<le> cls,
               take i ds @ drop (Suc i) ds))"

section \<open>Looking for devices\<close>

record probePre1 =
  q_id :: usbId
  q_bus :: nat
  q_dev :: nat
  q_open :: bool
  q_configuration :: int
  q_descriptors :: bool
  q_claim :: int
  q_text :: string

definition newDevicePre1 :: "probePre1 \<Rightarrow> usbId \<Rightarrow> usbDevice list \<Rightarrow> usbDevice" where
  "newDevicePre1 q t ds =
     \<lparr>u_id = newId ds 0, u_type = t, u_stopped = False, busIndex = q_bus q mod 256, devIndex = q_dev q,
      u_error = None, usbError = None, removed = False\<rparr>"

text \<open>The error that keeps a device from being claimed.\<close>

definition claimErrorPre1 :: "probePre1 \<Rightarrow> string option" where
  "claimErrorPre1 q =
     (if \<not> q_open q then Some ''Failed to open usb device''
      else if q_configuration q < 0 then Some ''Failed to set device configuration''
      else if \<not> q_descriptors q then Some ''Failed to receive device descriptors''
      else if q_claim q < 0 then Some ''usb_claim_interface failed 0''
      else None)"

definition clearFirstPre1 :: "usbDevice list \<Rightarrow> usbDevice list" where
  "clearFirstPre1 ds = (case ds of [] \<Rightarrow> [] | d # ds \<Rightarrow> noteErrorPre1 None [] d # ds)"

text \<open>One device of the bus against one known kind; the flag is \<open>False\<close> when the code gives up with \<open>return false\<close>.\<close>

definition matchPre1 :: "probePre1 \<Rightarrow> usbId \<Rightarrow> usbDeviceList \<times> nat \<times> nat \<Rightarrow> bool \<times> usbDeviceList \<times> nat \<times> nat" where
  "matchPre1 q t st =
     (let (l, newCount, count) = st
      in if q_id q \<noteq> t then (True, st)
         else let ds = clearFirstPre1 (deviceList l);
                  l = l\<lparr>deviceList := ds\<rparr>;
                  pos = length (takeWhile (\<lambda>d. busIndex d < q_bus q \<or> (busIndex d = q_bus q \<and> devIndex d < q_dev q)) ds)
              in if pos < length ds \<and> busIndex (ds ! pos) = q_bus q \<and> devIndex (ds ! pos) = q_dev q
                 then (True, l, newCount, count + 1)
                 else if claimErrorPre1 q \<noteq> None then (False, l, newCount, count)
                 else (True, l\<lparr>deviceList := take pos ds @ [newDevicePre1 q t ds] @ drop pos ds\<rparr>, newCount + 1, count + 1))"

fun matchAllPre1 :: "(probePre1 \<times> usbId) list \<Rightarrow> usbDeviceList \<times> nat \<times> nat \<Rightarrow> bool \<times> usbDeviceList \<times> nat \<times> nat" where
  "matchAllPre1 [] st = (True, st)"
| "matchAllPre1 ((q, t) # r) st = (let (ok, st) = matchPre1 q t st in if ok then matchAllPre1 r st else (False, st))"

definition updateDeviceListPre1 :: "probePre1 list \<Rightarrow> usbDeviceList \<Rightarrow> bool \<times> usbDeviceList \<times> nat \<times> nat" where
  "updateDeviceListPre1 bus l = matchAllPre1 (concat (map (\<lambda>q. map (Pair q) (ids l)) bus)) (l, 0, 0)"

section \<open>Endpoints\<close>

text \<open>The number of configurations comes first; there is always a descriptor once the device was claimed.\<close>

definition findDeviceEndpointsPre1 :: "nat \<Rightarrow> configDesc \<Rightarrow> bool \<times> nat option" where
  "findDeviceEndpointsPre1 numConfigurations c =
     (if numConfigurations \<noteq> 1 \<or> numInterfaces c \<noteq> 1 \<or> numAltsettings c \<noteq> 1 then (False, None)
      else if length (endpoints c) \<noteq> 2 then (False, None)
      else let i = endpoints c ! 0; out = endpoints c ! 1;
               size = (if wMaxPacketSize out < wMaxPacketSize i then wMaxPacketSize out else wMaxPacketSize i)
           in (isInput i \<and> isInterrupt i \<and> \<not> isInput out \<and> isInterrupt out, Some size))"

definition getDeviceLocationPre1 :: "usbDevice \<Rightarrow> byte \<times> byte" where
  "getDeviceLocationPre1 d = (word_of_nat (busIndex d), word_of_nat (devIndex d))"

section \<open>Properties\<close>

text \<open>A failed read always leaves an errno for the reader thread, whatever the library did.\<close>

lemma failed_read_has_errno:
  "usbRecvPre1 (r, e) txt h = (v, h', e') \<Longrightarrow> v < 0 \<Longrightarrow> e' \<noteq> 0"
  by (auto simp: usbRecvPre1_def Let_def split: if_splits)

text \<open>What the order and the numbering of a list depend on.\<close>

definition key :: "usbDevice \<Rightarrow> nat \<times> nat \<times> nat \<times> bool" where
  "key d = (u_id d, busIndex d, devIndex d, removed d)"

lemma key_sorted:
  "map key ds = map key es \<Longrightarrow> inOrder ds \<longleftrightarrow> inOrder es"
proof -
  have "inOrder ds \<longleftrightarrow> sorted_wrt (\<lambda>(_, b, q, _) (_, b', q', _). b < b' \<or> (b = b' \<and> q < q')) (map key ds)" for ds
    by (simp add: inOrder_def sorted_wrt_map key_def)
  then show "map key ds = map key es \<Longrightarrow> inOrder ds \<longleftrightarrow> inOrder es" by simp
qed

lemma key_numbered: "map key ds = map key es \<Longrightarrow> numbered ds \<longleftrightarrow> numbered es"
proof -
  have "map u_id (filter (\<lambda>d. \<not> removed d) ds) = map fst (filter (\<lambda>(_, _, _, r). \<not> r) (map key ds))" for ds
    by (induction ds) (simp_all add: key_def)
  then show "map key ds = map key es \<Longrightarrow> numbered ds \<longleftrightarrow> numbered es" by (simp add: numbered_def)
qed

lemma key_position:
  "map key ds = map key es \<Longrightarrow> length (takeWhile (locBefore b q) ds) = length (takeWhile (locBefore b q) es)"
proof -
  have "length (takeWhile (locBefore b q) ds) = length (takeWhile (\<lambda>(_, b', q', _). b' < b \<or> (b' = b \<and> q' < q)) (map key ds))" for ds
    by (induction ds) (simp_all add: key_def locBefore_def)
  then show "map key ds = map key es \<Longrightarrow> length (takeWhile (locBefore b q) ds) = length (takeWhile (locBefore b q) es)" by simp
qed

lemma key_idPass: "map key ds = map key es \<Longrightarrow> idPass ds n = idPass es n"
proof (induction ds arbitrary: es n)
  case (Cons d ds)
  then obtain e es' where e: "es = e # es'" "key d = key e" "map key ds = map key es'" by auto
  then have "findId d n = findId e n" by (simp add: findId_def key_def)
  then show ?case using Cons.IH [OF e(3), of "findId e n"] e(1) by (simp add: idPass_def)
qed simp

lemma key_newId: "map key ds = map key es \<Longrightarrow> newId ds n = newId es n"
proof (induction ds n rule: newId.induct)
  case (1 ds n)
  then show ?case using key_idPass [OF 1(2), of n] by (subst (1 2) newId.simps) auto
qed

lemma keys_same: "map key (clearFirstPre1 ds) = map key ds" "map key (clearFirst ds) = map key ds"
  by (simp_all add: key_def clearFirst_def clearFirstPre1_def noteError_def noteErrorPre1_def usbErrorText_def split: list.split)

lemma matchPre1_ok:
  assumes "matchPre1 q t (l, m, n) = (ok, l', m', n')" "listed l" "q_bus q < 256"
  shows "listed l' \<and> length (deviceList l) \<le> length (deviceList l')"
proof (cases "q_id q = t")
  case True
  let ?ds = "clearFirstPre1 (deviceList l)"
  let ?P = "locBefore (q_bus q) (q_dev q)"
  define pos where "pos = length (takeWhile ?P ?ds)"
  have P: "?P = (\<lambda>d. busIndex d < q_bus q \<or> (busIndex d = q_bus q \<and> devIndex d < q_dev q))" by (simp add: locBefore_def fun_eq_iff)
  note k = keys_same(1) [of "deviceList l"]
  have len: "length ?ds = length (deviceList l)" using arg_cong [OF k, of length] by simp
  have ds: "inOrder ?ds" "numbered ?ds" using assms(2) key_sorted [OF k] key_numbered [OF k] by (simp_all add: listed_def)
  have m: "matchPre1 q t (l, m, n) =
      (if pos < length ?ds \<and> busIndex (?ds ! pos) = q_bus q \<and> devIndex (?ds ! pos) = q_dev q
       then (True, l\<lparr>deviceList := ?ds\<rparr>, m, n + 1)
       else if claimErrorPre1 q \<noteq> None then (False, l\<lparr>deviceList := ?ds\<rparr>, m, n)
       else (True, l\<lparr>deviceList := take pos ?ds @ [newDevicePre1 q t ?ds] @ drop pos ?ds\<rparr>, m + 1, n + 1))"
    using True by (simp add: matchPre1_def Let_def pos_def P)
  consider "l' = l\<lparr>deviceList := ?ds\<rparr>"
    | "\<not> (pos < length ?ds \<and> busIndex (?ds ! pos) = q_bus q \<and> devIndex (?ds ! pos) = q_dev q)"
      "l' = l\<lparr>deviceList := take pos ?ds @ [newDevicePre1 q t ?ds] @ drop pos ?ds\<rparr>"
    using assms(1) unfolding m by (auto split: if_splits)
  then show ?thesis
  proof cases
    case 1
    then show ?thesis using ds len by (simp add: listed_def)
  next
    case 2
    have h: "busIndex (newDevicePre1 q t ?ds) = q_bus q" "devIndex (newDevicePre1 q t ?ds) = q_dev q"
      "u_id (newDevicePre1 q t ?ds) \<notin> usedIds ?ds"
      using assms(3) newId_spec [of ?ds 0] by (simp_all add: newDevicePre1_def)
    have "inOrder (take pos ?ds @ [newDevicePre1 q t ?ds] @ drop pos ?ds)"
      using insert_inOrder [OF ds(1), of pos "newDevicePre1 q t ?ds"] 2(1) h(1,2) by (simp add: pos_def)
    moreover have "numbered (take pos ?ds @ [newDevicePre1 q t ?ds] @ drop pos ?ds)"
      using numbered_insert [OF ds(2) h(3)] .
    ultimately show ?thesis using 2(2) len by (simp add: listed_def)
  qed
next
  case False
  then show ?thesis using assms(1,2) by (simp add: matchPre1_def)
qed

lemma matchAllPre1_ok:
  "matchAllPre1 r (l, m, n) = (ok, l', m', n') \<Longrightarrow> listed l \<Longrightarrow> list_all (\<lambda>x. q_bus (fst x) < 256) r \<Longrightarrow>
     listed l' \<and> length (deviceList l) \<le> length (deviceList l')"
proof (induction r arbitrary: l m n)
  case (Cons x r)
  obtain q t where x: "x = (q, t)" by (cases x)
  obtain ok1 l1 m1 n1 where 1: "matchPre1 q t (l, m, n) = (ok1, l1, m1, n1)" by (cases "matchPre1 q t (l, m, n)")
  have l1: "listed l1" "length (deviceList l) \<le> length (deviceList l1)"
    using matchPre1_ok [OF 1 Cons.prems(2)] Cons.prems(3) x by simp_all
  show ?case
  proof (cases ok1)
    case True
    then have "matchAllPre1 r (l1, m1, n1) = (ok, l', m', n')" using Cons.prems(1) 1 x by simp
    from Cons.IH [OF this l1(1)] Cons.prems(3) l1(2) show ?thesis by simp
  next
    case False
    then show ?thesis using Cons.prems(1) 1 x l1 by simp
  qed
qed simp

lemma updateDeviceListPre1_ok:
  assumes "fst (snd (updateDeviceListPre1 b l)) = l'" "listed l" "list_all (\<lambda>q. q_bus q < 256) b"
  shows "listed l' \<and> length (deviceList l) \<le> length (deviceList l')"
proof -
  obtain ok m n where u: "matchAllPre1 (concat (map (\<lambda>q. map (Pair q) (ids l)) b)) (l, 0, 0) = (ok, l', m, n)"
    using assms(1) unfolding updateDeviceListPre1_def by (metis prod.collapse)
  have "list_all (\<lambda>x. q_bus (fst x) < 256) (concat (map (\<lambda>q. map (Pair q) (ids l)) b))"
    using assms(3) by (auto simp: list_all_iff)
  from matchAllPre1_ok [OF u assms(2) this] show ?thesis .
qed

interpretation pre1: bus_scanner "\<lambda>b l. Some (fst (snd (updateDeviceListPre1 b l)))" "list_all (\<lambda>q. q_bus q < 256)"
  using updateDeviceListPre1_ok by unfold_locales blast+

text \<open>
  With either driver the list of devices stays usable over any number of scans, failed claims included:
  it never loses a device, stays in order of place and number, and two entries of one place are the same
  entry.  (Bus numbers that do not fit the byte of the old driver's record are excepted.)
\<close>

theorem scans_keep_devices_apart:
  assumes "listed l" "i < length (deviceList l')" "j < length (deviceList l')"
    and "busIndex (deviceList l' ! i) = busIndex (deviceList l' ! j)" "devIndex (deviceList l' ! i) = devIndex (deviceList l' ! j)"
    and "scanAll (\<lambda>b l. map_option fst (updateDeviceList b l)) bs l = Some l'
       \<or> (scanAll (\<lambda>b l. Some (fst (snd (updateDeviceListPre1 b l)))) cs l = Some l' \<and> list_all (list_all (\<lambda>q. q_bus q < 256)) cs)"
  shows "i = j \<and> listed l' \<and> length (deviceList l) \<le> length (deviceList l')"
  using assms(6)
proof
  assume s: "scanAll (\<lambda>b l. map_option fst (updateDeviceList b l)) bs l = Some l'"
  have "list_all (\<lambda>_. True) bs" by (simp add: list_all_iff)
  then show ?thesis
    using libusb.one_device_per_place [OF s _ assms(1-5)] libusb.scans_listed [OF s] libusb.scans_grow [OF s] assms(1) by blast
next
  assume s: "scanAll (\<lambda>b l. Some (fst (snd (updateDeviceListPre1 b l)))) cs l = Some l' \<and> list_all (list_all (\<lambda>q. q_bus q < 256)) cs"
  then show ?thesis
    using pre1.one_device_per_place [of cs l l' i j] pre1.scans_listed [of cs l l'] pre1.scans_grow [of cs l l'] assms(1-5) by blast
qed

definition probePre1Of :: "nat \<Rightarrow> probePre1" where
  "probePre1Of q = \<lparr>q_id = \<lparr>idVendor = 0x1781, idProduct = 0x938\<rparr>, q_bus = 1, q_dev = q, q_open = True, q_configuration = 0,
     q_descriptors = True, q_claim = 0, q_text = []\<rparr>"

theorem scans_keep_devices_apart_witness:
  "\<exists>l'. scanAll (\<lambda>b l. Some (fst (snd (updateDeviceListPre1 b l)))) [[probePre1Of 4], [probePre1Of 4]]
      \<lparr>deviceList = [], ids = [\<lparr>idVendor = 0x1781, idProduct = 0x938\<rparr>], describeOnly = False, force = False\<rparr> = Some l'
    \<and> map devIndex (deviceList l') = [4] \<and> listed l'"
proof -
  let ?l = "\<lparr>deviceList = [], ids = [\<lparr>idVendor = 0x1781, idProduct = 0x938\<rparr>], describeOnly = False, force = False\<rparr>"
  let ?scan = "\<lambda>b l. Some (fst (snd (updateDeviceListPre1 b l)))"
  obtain l' where l': "scanAll ?scan [[probePre1Of 4], [probePre1Of 4]] ?l = Some l'" "map devIndex (deviceList l') = [4]"
    by (simp add: updateDeviceListPre1_def matchPre1_def probePre1Of_def clearFirstPre1_def noteErrorPre1_def claimErrorPre1_def
        newDevicePre1_def Let_def)
  then have "length (deviceList l') = 1" by (metis length_map list.size(3,4) One_nat_def add.right_neutral add_Suc_right)
  moreover have "listed ?l" by (simp add: listed_def inOrder_def numbered_def)
  ultimately show ?thesis
    using scans_keep_devices_apart [of ?l 0 l' 0 "[]" "[[probePre1Of 4], [probePre1Of 4]]"] l' by (auto simp: probePre1Of_def)
qed

text \<open>
  The old driver gives up a whole scan at the first device it cannot claim: devices that come later on the
  bus are not looked at, however usable they are, on this scan and on every other one as long as the
  first one stays as it is.  (The newer driver goes on.)
\<close>

theorem unusable_device_hides_later_ones:
  assumes "claimErrorPre1 q \<noteq> None" "q_id q = t" "ids l = [t]"
    and "list_all (\<lambda>d. \<not> (busIndex d = q_bus q \<and> devIndex d = q_dev q)) (deviceList l)"
  shows "updateDeviceListPre1 (q # qs) l = (False, l\<lparr>deviceList := clearFirstPre1 (deviceList l)\<rparr>, 0, 0)"
proof -
  have "\<not> (busIndex d = q_bus q \<and> devIndex d = q_dev q)" if "d \<in> set (clearFirstPre1 (deviceList l))" for d
  proof -
    have "key d \<in> key ` set (deviceList l)" using that keys_same(1) [of "deviceList l"] by (metis image_eqI list.set_map)
    then show ?thesis using assms(4) by (auto simp: list_all_iff key_def)
  qed
  then have "matchPre1 q t (l, 0, 0) = (False, l\<lparr>deviceList := clearFirstPre1 (deviceList l)\<rparr>, 0, 0)"
    using assms(1,2) by (auto simp: matchPre1_def Let_def)
  then show ?thesis using assms(3) by (simp add: updateDeviceListPre1_def)
qed

theorem unusable_device_hides_later_ones_witness:
  "let l = \<lparr>deviceList = [], ids = [\<lparr>idVendor = 0x1781, idProduct = 0x938\<rparr>], describeOnly = False, force = False\<rparr>
   in updateDeviceListPre1 [(probePre1Of 1)\<lparr>q_open := False\<rparr>, probePre1Of 2] l = (False, l, 0, 0)"
  using unusable_device_hides_later_ones [of "(probePre1Of 1)\<lparr>q_open := False\<rparr>"]
  by (simp add: claimErrorPre1_def probePre1Of_def clearFirstPre1_def)

section \<open>The two searches compared\<close>

definition sameDevice :: "probe \<Rightarrow> probePre1 \<Rightarrow> bool" where
  "sameDevice p q \<longleftrightarrow> p_id p = q_id q \<and> p_bus p = q_bus q \<and> q_bus q < 256 \<and> p_port p = q_dev q \<and> p_open p = 0
     \<and> (case p_attempts p of [] \<Rightarrow> False | a # _ \<Rightarrow> attemptError a = None) \<and> claimErrorPre1 q = None"

definition sameList :: "usbDeviceList \<Rightarrow> usbDeviceList \<Rightarrow> bool" where
  "sameList l l2 \<longleftrightarrow> map key (deviceList l) = map key (deviceList l2) \<and> ids l = ids l2 \<and> \<not> describeOnly l"

lemma key_insert: "map key ds = map key es \<Longrightarrow> key h = key g \<Longrightarrow> map key (take n ds @ [h] @ drop n ds) = map key (take n es @ [g] @ drop n es)"
  by (simp add: take_map drop_map flip: take_map drop_map)

lemma match_same:
  assumes "sameDevice p q" "sameList l l2"
  shows "\<exists>l' l2' m' n' k'. matchDevice p t (l, m, n) = Some (l', m', n') \<and> matchPre1 q t (l2, m, k) = (True, l2', m', k') \<and> sameList l' l2'"
proof (cases "p_id p = t")
  case True
  let ?ds = "clearFirst (deviceList l)" and ?es = "clearFirstPre1 (deviceList l2)"
  let ?P = "locBefore (p_bus p) (p_port p)"
  define pos where "pos = length (takeWhile ?P ?ds)"
  have q: "q_id q = t" "q_bus q = p_bus p" "q_dev q = p_port p" "q_bus q < 256" "p_open p = 0" "claimErrorPre1 q = None"
    using assms(1) True by (simp_all add: sameDevice_def)
  obtain a as where a: "p_attempts p = a # as" "attemptError a = None" using assms(1) by (auto simp: sameDevice_def split: list.splits)
  have k: "map key ?ds = map key ?es" using keys_same assms(2) by (simp add: sameList_def)
  have pos2: "length (takeWhile (\<lambda>d. busIndex d < q_bus q \<or> (busIndex d = q_bus q \<and> devIndex d < q_dev q)) ?es) = pos"
    using key_position [OF k, of "p_bus p" "p_port p"] q(2,3) by (simp add: pos_def locBefore_def [abs_def])
  have len: "length ?es = length ?ds" using arg_cong [OF k, of length] by simp
  have at: "busIndex (?ds ! pos) = busIndex (?es ! pos) \<and> devIndex (?ds ! pos) = devIndex (?es ! pos)" if "pos < length ?ds"
  proof -
    have "key (?ds ! pos) = key (?es ! pos)" using k that len by (metis nth_map)
    then show ?thesis by (simp add: key_def)
  qed
  show ?thesis
  proof (cases "pos < length ?ds \<and> busIndex (?ds ! pos) = p_bus p \<and> devIndex (?ds ! pos) = p_port p")
    case True
    then have "matchDevice p t (l, m, n) = Some (l\<lparr>deviceList := ?ds\<rparr>, m, n)" "matchPre1 q t (l2, m, k) = (True, l2\<lparr>deviceList := ?es\<rparr>, m, k + 1)"
      using \<open>p_id p = t\<close> q at pos2 len by (simp_all add: matchDevice_def matchPre1_def Let_def pos_def)
    then show ?thesis using k assms(2) by (simp add: sameList_def)
  next
    case False
    let ?h = "newDevice p t ?ds" and ?g = "newDevicePre1 q t ?es"
    have "key ?h = key ?g" using q key_newId [OF k, of 0] by (simp add: key_def newDevice_def newDevicePre1_def)
    then have "map key (take pos ?ds @ [?h] @ drop pos ?ds) = map key (take pos ?es @ [?g] @ drop pos ?es)"
      by (rule key_insert [OF k])
    moreover have "matchDevice p t (l, m, n) = Some (l\<lparr>deviceList := take pos ?ds @ [?h] @ drop pos ?ds\<rparr>, m + 1, n + 1)"
      using False \<open>p_id p = t\<close> q a assms(2) by (simp add: matchDevice_def Let_def pos_def claimDevice_def sameList_def)
    moreover have "matchPre1 q t (l2, m, k) = (True, l2\<lparr>deviceList := take pos ?es @ [?g] @ drop pos ?es\<rparr>, m + 1, k + 1)"
      using False at q pos2 len by (auto simp: matchPre1_def Let_def)
    ultimately show ?thesis using assms(2) by (simp add: sameList_def)
  qed
next
  case False
  then show ?thesis using assms by (simp add: matchDevice_def matchPre1_def sameDevice_def)
qed

lemma matchAll_same:
  assumes "list_all2 (\<lambda>x y. sameDevice (fst x) (fst y) \<and> snd x = snd y) r r2" "sameList l l2"
  shows "\<exists>l' l2' m' n' k'. matchAll r (l, m, n) = Some (l', m', n') \<and> matchAllPre1 r2 (l2, m, k) = (True, l2', m', k') \<and> sameList l' l2'"
  using assms
proof (induction r r2 arbitrary: l l2 m n k)
  case (Cons x r y r2)
  obtain p t where x: "x = (p, t)" by (cases x)
  then obtain q where y: "y = (q, t)" "sameDevice p q" using Cons.hyps(1) by (cases y) auto
  obtain l1 l3 m1 n1 k1 where 1: "matchDevice p t (l, m, n) = Some (l1, m1, n1)" "matchPre1 q t (l2, m, k) = (True, l3, m1, k1)" "sameList l1 l3"
    using match_same [OF y(2) Cons.prems] by blast
  from Cons.IH [OF 1(3), of m1 n1 k1] show ?case using 1(1,2) x y(1) by simp
qed simp

text \<open>
  The searches of the two drivers are the same search under different keys: where the number of the port,
  the key of the newer driver, is for each device also its number on the bus, the key of this one,
  and all devices can be claimed, a scan from lists with the same entries makes the same number of new
  entries and the same list.  On a real bus the two keys differ: the number on the bus is a counter, so the
  orders differ, and two hubs have ports of the same number, of which the newer driver finds one device
  only (\<open>known_place_is_not_claimed\<close>).
\<close>

theorem drivers_agree:
  assumes "list_all2 sameDevice ps qs" "sameList l l2"
  shows "\<exists>l' l2' m n k. updateDeviceList ps l = Some (l', m, n) \<and> updateDeviceListPre1 qs l2 = (True, l2', m, k)
    \<and> map key (deviceList l') = map key (deviceList l2')"
proof -
  have i: "ids l = ids l2" using assms(2) by (simp add: sameList_def)
  have one: "list_all2 (\<lambda>x y. sameDevice (fst x) (fst y) \<and> snd x = snd y) (map (Pair p) ts) (map (Pair q) ts)" if "sameDevice p q" for p q ts
    using that by (simp add: list_all2_map1 list_all2_map2 list.rel_refl)
  have "list_all2 (\<lambda>x y. sameDevice (fst x) (fst y) \<and> snd x = snd y) (concat (map (\<lambda>p. map (Pair p) ts) ps)) (concat (map (\<lambda>q. map (Pair q) ts) qs))" for ts
    using assms(1) by (induction ps qs) (simp_all add: one list_all2_appendI)
  from matchAll_same [OF this assms(2), of "ids l" 0 0 0] show ?thesis
    unfolding updateDeviceList_def updateDeviceListPre1_def i sameList_def by blast
qed

theorem drivers_agree_witness:
  "\<exists>l' l2' m n k. updateDeviceList [probe0 4, probe0 2] \<lparr>deviceList = [], ids = [\<lparr>idVendor = 0x1781, idProduct = 0x938\<rparr>], describeOnly = False, force = False\<rparr>
       = Some (l', m, n)
     \<and> updateDeviceListPre1 [probePre1Of 4, probePre1Of 2] \<lparr>deviceList = [], ids = [\<lparr>idVendor = 0x1781, idProduct = 0x938\<rparr>], describeOnly = False, force = False\<rparr>
       = (True, l2', m, k)
     \<and> map key (deviceList l') = map key (deviceList l2')"
  by (rule drivers_agree) (simp_all add: sameDevice_def sameList_def probe0_def probePre1Of_def attemptError_def claimErrorPre1_def)

end
