(* ===== verification/Logging.thy ===== *)
theory Logging
  imports Server
begin

text \<open>
  \<open>logging.c\<close>: the settings, the options that change them, and where a message goes.  Whether a log file can
  be opened, the time stamp and the expanded text of a message are arguments.
\<close>

abbreviation (input) LOG_FATAL :: int where "LOG_FATAL \<equiv> 0"
abbreviation (input) LOG_ERROR :: int where "LOG_ERROR \<equiv> 1"
abbreviation (input) LOG_WARN :: int where "LOG_WARN \<equiv> 2"
abbreviation (input) LOG_NORMAL :: int where "LOG_NORMAL \<equiv> 3"
abbreviation (input) LOG_DEBUG3 :: int where "LOG_DEBUG3 \<equiv> 7"

record logSettings =
  log_level :: int
  log_file :: "cstring option"

definition INIT_LOG_SETTINGS :: logSettings where
  "INIT_LOG_SETTINGS = \<lparr>log_level = LOG_NORMAL, log_file = None\<rparr>"

text \<open>The settings in use: the library's own, or those another part of the program has handed over.\<close>

record logging =
  internalSettings :: logSettings
  handedOver :: "logSettings option"

definition currentLogSettings :: "logging \<Rightarrow> logSettings" where
  "currentLogSettings g = (case handedOver g of None \<Rightarrow> internalSettings g | Some s \<Rightarrow> s)"

definition initializeLogging :: "logSettings option \<Rightarrow> logging \<Rightarrow> logging" where
  "initializeLogging globalSettings g =
     (case globalSettings of
        None \<Rightarrow> \<lparr>internalSettings = currentLogSettings g, handedOver = None\<rparr>
      | Some s \<Rightarrow> g\<lparr>handedOver := Some s\<rparr>)"

definition openLog :: "(cstring \<Rightarrow> bool) \<Rightarrow> cstring \<Rightarrow> logSettings \<Rightarrow> logSettings" where
  "openLog opens filename s =
     (if filename \<noteq> [0x2D] \<and> opens filename then s\<lparr>log_file := Some filename\<rparr> else s\<lparr>log_file := None\<rparr>)"

definition changeLogLevel :: "int \<Rightarrow> logSettings \<Rightarrow> logSettings" where
  "changeLogLevel difference s =
     (let l = log_level s + difference in s\<lparr>log_level := if l < LOG_FATAL then LOG_FATAL else l\<rparr>)"

text \<open>The outcome of an option: the new state, an error for \<open>argp\<close>, or the end of the program.\<close>

datatype 'a parsed = Parsed 'a | Refused argError | Exits

datatype logArg =
    LOG_FILE cstring | QUIET | VERBOSE
  | ARG_LOG_LEVEL "int option"   \<comment> \<open>what \<open>strtol\<close> makes of the whole argument, if anything\<close>
  | PRINT_VERSION | LOG_OTHER

definition parseLogOption :: "(cstring \<Rightarrow> bool) \<Rightarrow> logArg \<Rightarrow> logSettings \<Rightarrow> logSettings parsed" where
  "parseLogOption opens key s =
     (case key of
        LOG_FILE arg \<Rightarrow> Parsed (openLog opens arg s)
      | QUIET \<Rightarrow> Parsed (changeLogLevel (- 1) s)
      | VERBOSE \<Rightarrow> Parsed (changeLogLevel 1 s)
      | ARG_LOG_LEVEL v \<Rightarrow>
          (case v of None \<Rightarrow> Refused ARGP_HELP_STD_ERR
           | Some r \<Rightarrow> if r < LOG_FATAL \<or> LOG_DEBUG3 < r then Refused ARGP_HELP_STD_ERR
                       else Parsed (changeLogLevel (r - log_level s) s))
      | PRINT_VERSION \<Rightarrow> Exits
      | LOG_OTHER \<Rightarrow> Refused ARGP_ERR_UNKNOWN)"

datatype stream = LogFile | Stderr | Stdout

definition pickStream :: "logSettings \<Rightarrow> int \<Rightarrow> stream option" where
  "pickStream s l =
     (if l \<le> log_level s
      then (if log_file s \<noteq> None then Some LogFile else if l \<le> LOG_WARN then Some Stderr else Some Stdout)
      else None)"

definition wouldOutput :: "logSettings \<Rightarrow> int \<Rightarrow> bool" where
  "wouldOutput s l \<longleftrightarrow> pickStream s l \<noteq> None"

definition msgPrefixes :: "cstring list" where
  "msgPrefixes = [str ''FATAL: '', str ''ERROR: '', str ''WARNING: '', [], str ''INFO: '', str ''DEBUG: '', str ''DEBUG2: '', str ''DEBUG3: '']"

text \<open>A message: what is written where.  A fatal one ends the program by its assertion.\<close>

definition message :: "logSettings \<Rightarrow> cstring \<Rightarrow> int \<Rightarrow> cstring \<Rightarrow> (stream \<times> cstring) option res" where
  "message s stamp l body =
     bind_res
       (case pickStream s l of
          None \<Rightarrow> Inr None
        | Some s \<Rightarrow>
            if l = LOG_NORMAL then Inr (Some (s, body))
            else if 0 \<le> l \<and> nat l < length msgPrefixes then Inr (Some (s, stamp @ msgPrefixes ! nat l @ body))
            else Inl OutOfBounds)
       (\<lambda>r. if LOG_FATAL < l then Inr r else Inl AssertFailed)"

definition hexByte :: "byte \<Rightarrow> cstring" where
  "hexByte b = map (\<lambda>n. if n < 10 then 0x30 + word_of_nat n else 0x57 + word_of_nat n) [unat b div 16, unat b mod 16]"

definition appendHex :: "logSettings \<Rightarrow> int \<Rightarrow> byte list \<Rightarrow> (stream \<times> cstring) option" where
  "appendHex s l location = map_option (\<lambda>out. (out, str ''0x'' @ concat (map hexByte location) @ [0x0A])) (pickStream s l)"

section \<open>Properties\<close>

text \<open>No option takes the level below the fatal messages, and a level given as a number is taken as it is.\<close>

lemma log_level_stays:
  "parseLogOption opens key s = Parsed t \<Longrightarrow> 0 \<le> log_level s \<Longrightarrow> 0 \<le> log_level t"
  by (auto simp: parseLogOption_def changeLogLevel_def openLog_def Let_def split: logArg.splits option.splits if_splits)

lemma log_level_is_set:
  "0 \<le> n \<Longrightarrow> n \<le> LOG_DEBUG3 \<Longrightarrow> parseLogOption opens (ARG_LOG_LEVEL (Some n)) s = Parsed (s\<lparr>log_level := n\<rparr>)"
  by (simp add: parseLogOption_def changeLogLevel_def)

text \<open>A fatal message is written, whatever the settings are, and ends the program.\<close>

lemma fatal_message_ends:
  "0 \<le> log_level s \<Longrightarrow> message s stamp LOG_FATAL body = Inl AssertFailed \<and> wouldOutput s LOG_FATAL"
  by (simp add: message_def wouldOutput_def pickStream_def msgPrefixes_def)

lemma message_returns:
  assumes "LOG_FATAL < l" "l \<le> LOG_DEBUG3"
  shows "\<exists>r. message s stamp l body = Inr r \<and> (r \<noteq> None \<longleftrightarrow> wouldOutput s l)"
  using assms by (auto simp: message_def wouldOutput_def pickStream_def msgPrefixes_def)

text \<open>Handing over settings and taking them back keeps what was changed in between.\<close>

lemma logging_taken_back:
  "currentLogSettings (initializeLogging None (initializeLogging (Some s) g)) = s"
  by (simp add: currentLogSettings_def initializeLogging_def)

end
