(* ===== verification/Server_Startup.thy ===== *)
theory Server_Startup
  imports Logging
begin

text \<open>
  The start of the daemon: the options of \<open>daemon.c\<close> and of the parts it includes, \<open>main\<close> up to the work
  loop, and \<open>initServer\<close>, \<open>cleanupServer\<close> and the scan timer of \<open>server.c\<close>.  What the system calls and the
  driver answer is an argument.
\<close>

section \<open>Options\<close>

record parameters =
  runAsDaemon :: bool
  pidFile :: "cstring option"

datatype daemonArg =
    NO_DAEMON
  | ARG_RECV_TIMEOUT "int option" | ARG_SEND_TIMEOUT "int option"   \<comment> \<open>the value of the whole argument, if it has one\<close>
  | ARG_UNBIND | ARG_HANDLE_EPIPE | ARG_DEVICELIST
  | PID_FILE cstring
  | DAEMON_OTHER

type_synonym options = "parameters \<times> serverSettings \<times> logSettings"

definition timeoutOf :: "int option \<Rightarrow> int option" where
  "timeoutOf v = (case v of None \<Rightarrow> None | Some r \<Rightarrow> if r < 0 \<or> 10000 < r then None else Some r)"

definition parseDaemonOption :: "daemonArg \<Rightarrow> options \<Rightarrow> options parsed" where
  "parseDaemonOption key st =
     (case st of (p, s, l) \<Rightarrow>
        (case key of
           NO_DAEMON \<Rightarrow> Parsed (p\<lparr>runAsDaemon := False\<rparr>, s, l)
         | ARG_RECV_TIMEOUT v \<Rightarrow>
             (case timeoutOf v of None \<Rightarrow> Refused ARGP_HELP_STD_ERR | Some r \<Rightarrow> Parsed (p, s\<lparr>recvTimeout := r\<rparr>, l))
         | ARG_SEND_TIMEOUT v \<Rightarrow>
             (case timeoutOf v of None \<Rightarrow> Refused ARGP_HELP_STD_ERR | Some r \<Rightarrow> Parsed (p, s\<lparr>sendTimeout := r\<rparr>, l))
         | ARG_UNBIND \<Rightarrow> Parsed (p, s\<lparr>unbind := True\<rparr>, l)
         | ARG_HANDLE_EPIPE \<Rightarrow> Parsed (p, s\<lparr>s_disconnectOnEPipe := True\<rparr>, l)
         | ARG_DEVICELIST \<Rightarrow> Parsed (p\<lparr>runAsDaemon := False\<rparr>, s\<lparr>justDescribe := True\<rparr>, l)
         | PID_FILE f \<Rightarrow> Parsed (p\<lparr>pidFile := Some f\<rparr>, s, l)
         | DAEMON_OTHER \<Rightarrow> Refused ARGP_ERR_UNKNOWN))"

text \<open>An option goes to the parser it belongs to; the first refusal ends the parsing.\<close>

datatype anyArg = DaemonArg daemonArg | BaseArg baseArg | LogArg logArg

definition parseAny :: "(cstring \<Rightarrow> bool) \<Rightarrow> anyArg \<Rightarrow> options \<Rightarrow> options parsed" where
  "parseAny opens a st =
     (case a of
        DaemonArg k \<Rightarrow> parseDaemonOption k st
      | BaseArg k \<Rightarrow> (case parseOption k (fst (snd st)) of Inl e \<Rightarrow> Refused e | Inr s \<Rightarrow> Parsed (fst st, s, snd (snd st)))
      | LogArg k \<Rightarrow> (case parseLogOption opens k (snd (snd st)) of
                      Parsed l \<Rightarrow> Parsed (fst st, fst (snd st), l) | Refused e \<Rightarrow> Refused e | Exits \<Rightarrow> Exits))"

fun parseAll :: "(cstring \<Rightarrow> bool) \<Rightarrow> anyArg list \<Rightarrow> options \<Rightarrow> options parsed" where
  "parseAll opens [] st = Parsed st"
| "parseAll opens (a # as) st =
     (case parseAny opens a st of Parsed st \<Rightarrow> parseAll opens as st | Refused e \<Rightarrow> Refused e | Exits \<Rightarrow> Exits)"

definition startOptions :: options where
  "startOptions = (\<lparr>runAsDaemon = True, pidFile = None\<rparr>, initServerSettings, INIT_LOG_SETTINGS)"

section \<open>main\<close>

text \<open>
  What \<open>main\<close> leaves: its result, the pid file it wrote, and the settings the work loop ran with, if it ran.
  \<open>forks\<close> says whether \<open>daemon\<close> succeeds, \<open>writable\<close> which files can be written.  A refused option ends the
  process inside of \<open>argp_parse\<close>: the parsers call \<open>argp_error\<close>, and argp itself complains about an option
  nobody knows; both exit with \<open>argp_err_exit_status\<close>, 64, so that the result 3 which \<open>main\<close> has for an error
  of \<open>argp_parse\<close> is not seen.
\<close>

record mainRun =
  exitCode :: int
  pidWritten :: "cstring option"
  worked :: "serverSettings option"

definition mainProgram :: "(cstring \<Rightarrow> bool) \<Rightarrow> bool \<Rightarrow> (cstring \<Rightarrow> bool) \<Rightarrow> anyArg list \<Rightarrow> mainRun" where
  "mainProgram opens forks writable args =
     (case parseAll opens args startOptions of
        Exits \<Rightarrow> \<lparr>exitCode = 0, pidWritten = None, worked = None\<rparr>
      | Refused e \<Rightarrow> \<lparr>exitCode = 64, pidWritten = None, worked = None\<rparr>
      | Parsed (p, s, l) \<Rightarrow>
          if runAsDaemon p \<and> \<not> forks then \<lparr>exitCode = 1, pidWritten = None, worked = None\<rparr>
          else case pidFile p of
                 None \<Rightarrow> \<lparr>exitCode = 0, pidWritten = None, worked = Some s\<rparr>
               | Some f \<Rightarrow>
                   if writable f then \<lparr>exitCode = 0, pidWritten = Some f, worked = Some s\<rparr>
                   else \<lparr>exitCode = 2, pidWritten = None, worked = None\<rparr>)"

section \<open>Starting and stopping the server\<close>

record serverEnv =
  scanThreadStarts :: bool
  ctlPipeMade :: bool
  ctlThreadStarts :: bool
  ctlListens :: bool     \<comment> \<open>the listener is still there after a quarter of a second\<close>
  commPipeMade :: bool
  driverLoads :: bool
  driverInits :: bool
  listMade :: bool

record serverRun =
  scanTimerThread :: bool
  ctlSockThread :: bool
  claiming :: "(bool \<times> bool) option"     \<comment> \<open>what the driver was told: to claim devices, to unbind others\<close>

definition initServer :: "serverEnv \<Rightarrow> serverSettings \<Rightarrow> bool \<times> serverRun" where
  "initServer e s =
     (let r = \<lparr>scanTimerThread = 0 < scanSeconds s \<and> scanThreadStarts e, ctlSockThread = False, claiming = None\<rparr>
      in if 0 < scanSeconds s \<and> \<not> scanThreadStarts e then (False, r)
         else if \<not> ctlPipeMade e then (False, r)
         else if \<not> justDescribe s \<and> \<not> ctlThreadStarts e then (False, r)
         else let r = (if justDescribe s then r else r\<lparr>ctlSockThread := True\<rparr>)
              in if \<not> justDescribe s \<and> \<not> ctlListens e then (False, r)
                 else if \<not> commPipeMade e then (False, r)
                 else if \<not> driverLoads e then (False, r)
                 else if \<not> driverInits e then (False, r)
                 else if \<not> listMade e then (False, r)
                 else (True, r\<lparr>claiming := Some (\<not> justDescribe s, unbind s)\<rparr>))"

text \<open>Joining a thread that was never started hands the system a null thread.\<close>

definition joinThread :: "bool \<Rightarrow> unit res" where
  "joinThread started = (if started then Inr () else Inl NullDeref)"

definition cleanupServer :: "serverSettings \<Rightarrow> serverRun \<Rightarrow> serverRun res" where
  "cleanupServer s r =
     bind_res (joinThread (ctlSockThread r)) (\<lambda>_.
       let r = r\<lparr>ctlSockThread := False\<rparr>
       in if 0 < scanSeconds s then bind_res (joinThread (scanTimerThread r)) (\<lambda>_. Inr (r\<lparr>scanTimerThread := False\<rparr>))
          else Inr r)"

text \<open>
  The work loop of \<open>daemon.c\<close>, on the words of the command pipe: whether it ended, and what it leaves running.
  \<open>signals\<close> says whether the four handlers can be installed.  Both \<open>workLoop\<close> and \<open>waitOnCommPipe\<close> ask for
  a first scan; \<open>before\<close>, \<open>between\<close> and \<open>after\<close> are what other writers put into the pipe around the second.
\<close>

definition workLoopMain :: "serverEnv \<Rightarrow> bool \<Rightarrow> bool \<Rightarrow> commWord list \<Rightarrow> commWord list \<Rightarrow> commWord list \<Rightarrow> serverSettings
    \<Rightarrow> (bool \<times> commState \<times> serverRun) res" where
  "workLoopMain e signals readFails before between after s =
     (let (ok, r) = initServer e s; c = \<lparr>joined = [], scans = 0\<rparr>
      in if \<not> ok then Inr (True, c, r)
         else let (ended, c) = (if signals then waitOnCommPipe readFails (justDescribe s) (triggerCommand SCAN_TRIGGER @ before) between after c
                             else (True, c))
              in if ended then bind_res (cleanupServer s r) (\<lambda>r. Inr (True, c, r)) else Inr (False, c, r))"

text \<open>The thread of the scan timer: the results of its timed reads, and what it wrote to the command pipe.\<close>

fun scanTrigger :: "int list \<Rightarrow> commWord list \<Rightarrow> bool \<times> commWord list" where
  "scanTrigger [] ws = (False, ws)"
| "scanTrigger (r # rs) ws = (if r = 0 then scanTrigger rs (ws @ triggerCommand SCAN_TRIGGER) else (True, ws))"

definition scanWait :: "serverSettings \<Rightarrow> int \<Rightarrow> int \<Rightarrow> int option" where
  "scanWait s start now = selectTimeout (s32 (scanSeconds s * 1000)) start now"

section \<open>Properties\<close>

definition in_bounds :: "options \<Rightarrow> bool" where
  "in_bounds st \<longleftrightarrow> (case st of (_, s, l) \<Rightarrow> 0 \<le> recvTimeout s \<and> recvTimeout s \<le> 10000 \<and> 0 \<le> sendTimeout s \<and> sendTimeout s \<le> 10000
     \<and> 0 \<le> scanSeconds s \<and> scanSeconds s \<le> 3600 \<and> 0 \<le> log_level l)"

lemma parseAny_bounds:
  assumes "parseAny opens a st = Parsed st'" "in_bounds st"
  shows "in_bounds st'"
proof (cases a)
  case (DaemonArg k)
  then show ?thesis using assms
    by (cases k) (auto simp: parseAny_def parseDaemonOption_def timeoutOf_def in_bounds_def split: option.splits if_splits prod.splits)
next
  case (BaseArg k)
  then show ?thesis using assms
    by (cases k) (auto simp: parseAny_def parseOption_def in_bounds_def split: option.splits if_splits prod.splits)
next
  case (LogArg k)
  then show ?thesis using assms log_level_stays
    by (auto simp: parseAny_def in_bounds_def split: parsed.splits prod.splits)
qed

lemma parseAll_bounds: "parseAll opens as st = Parsed st' \<Longrightarrow> in_bounds st \<Longrightarrow> in_bounds st'"
  by (induction as arbitrary: st) (auto split: parsed.splits dest: parseAny_bounds)

text \<open>
  C31.  The daemon works only when its start succeeded, and then with sane settings: its result is zero unless
  an option was refused (64, by argp), it could not detach (1) or could not write its pid (2), and whatever the
  options were the timeouts of the devices and the period of the scan timer are within their limits.
\<close>

theorem daemon_works_within_bounds:
  assumes "worked (mainProgram opens forks writable args) = Some s"
  shows "exitCode (mainProgram opens forks writable args) = 0
    \<and> 0 \<le> recvTimeout s \<and> recvTimeout s \<le> 10000 \<and> 0 \<le> sendTimeout s \<and> sendTimeout s \<le> 10000 \<and> 0 \<le> scanSeconds s \<and> scanSeconds s \<le> 3600"
proof -
  obtain p l where p: "parseAll opens args startOptions = Parsed (p, s, l)" "exitCode (mainProgram opens forks writable args) = 0"
    using assms by (auto simp: mainProgram_def split: parsed.splits if_splits option.splits)
  have "in_bounds startOptions" by (simp add: in_bounds_def startOptions_def initServerSettings_def INIT_LOG_SETTINGS_def)
  from parseAll_bounds [OF p(1) this] show ?thesis using p(2) by (simp add: in_bounds_def)
qed

theorem daemon_works_within_bounds_witness:
  "\<exists>s. worked (mainProgram (\<lambda>_. True) True (\<lambda>_. True) [DaemonArg (ARG_RECV_TIMEOUT (Some 500)), LogArg VERBOSE, BaseArg (ARG_SCANWHEN (Some 60))]) = Some s
    \<and> recvTimeout s = 500 \<and> scanSeconds s = 60 \<and> sendTimeout s \<le> 10000"
proof -
  let ?m = "mainProgram (\<lambda>_. True) True (\<lambda>_. True) [DaemonArg (ARG_RECV_TIMEOUT (Some 500)), LogArg VERBOSE, BaseArg (ARG_SCANWHEN (Some 60))]"
  obtain s where s: "worked ?m = Some s" "recvTimeout s = 500" "scanSeconds s = 60"
    by (simp add: mainProgram_def startOptions_def initServerSettings_def INIT_LOG_SETTINGS_def parseAny_def parseDaemonOption_def
        timeoutOf_def parseOption_def parseLogOption_def)
  from daemon_works_within_bounds [OF s(1)] show ?thesis using s by auto
qed

text \<open>
  The scan timer waits for its period only up to 2147 seconds.  From 2148 seconds on, which the option
  accepts up to an hour, the deadline wraps around in the arithmetic of the timed read: the wait is
  over at once, and the timer thread asks for scans without a pause.
\<close>

theorem scan_timer_wraps:
  assumes "parseOption (ARG_SCANWHEN (Some n)) initServerSettings = Inr s" "start \<le> now" "0 < n"
  shows "(if n \<le> 2147 then \<exists>w. scanWait s start now = Some w \<and> (now < start + n * 1000000 \<longrightarrow> now + w = start + n * 1000000)
          else scanWait s start now = Some 0)"
proof -
  have s: "scanSeconds s = n" "n \<le> 3600" using assms(1) by (auto simp: parseOption_def split: if_splits)
  have m: "s32 (n * 1000) = n * 1000" using s(2) assms(3) by (intro s32_id) (simp add: in_s32_def)
  show ?thesis
  proof (cases "n \<le> 2147")
    case True
    then have "s32 (n * 1000 * 1000) = n * 1000 * 1000" using assms(3) by (intro s32_id) (simp add: in_s32_def)
    then show ?thesis using True s m assms(3) by (simp add: scanWait_def selectTimeout_def)
  next
    case False
    have "(n * 1000 * 1000 + 2 ^ 31) mod 2 ^ 32 = n * 1000 * 1000 + 2 ^ 31 - 2 ^ 32"
    proof -
      have "(n * 1000 * 1000 + 2 ^ 31) mod 2 ^ 32 = (n * 1000 * 1000 + 2 ^ 31 - 2 ^ 32) mod 2 ^ 32"
        by (simp only: minus_mod_self2)
      also have "\<dots> = n * 1000 * 1000 + 2 ^ 31 - 2 ^ 32" by (rule mod_pos_pos_trivial) (use False s(2) in simp_all)
      finally show ?thesis .
    qed
    then have "s32 (n * 1000 * 1000) = n * 1000 * 1000 - 2 ^ 32" by (simp add: s32_def)
    moreover have "n * 1000 * 1000 - 2 ^ 32 \<le> 0" using s(2) by simp
    ultimately show ?thesis using False s m assms(2,3) by (simp add: scanWait_def selectTimeout_def)
  qed
qed

theorem scan_timer_wraps_witness:
  "\<exists>s. parseOption (ARG_SCANWHEN (Some 3600)) initServerSettings = Inr s \<and> scanWait s 0 0 = Some 0"
proof -
  obtain s where s: "parseOption (ARG_SCANWHEN (Some 3600)) initServerSettings = Inr s" by (simp add: parseOption_def)
  from scan_timer_wraps [OF this, of 0 0] s show ?thesis by simp
qed

text \<open>The scans the main loop makes are one at the start and one for each time the timer ran out.\<close>

lemma timer_scans:
  "scanTrigger (replicate n 0) ws = (False, ws @ concat (replicate n (triggerCommand SCAN_TRIGGER)))"
  by (induction n arbitrary: ws) simp_all

lemma scans_made:
  "waitOnCommPipe False False [] [] (concat (replicate n (triggerCommand SCAN_TRIGGER))) c = (False, c\<lparr>scans := scans c + n + 1\<rparr>)"
proof -
  have "handled (replicate n (Command SCAN_TRIGGER)) d = (False, d\<lparr>scans := scans d + n\<rparr>)" for n d
    by (induction n arbitrary: d) simp_all
  then show ?thesis using waitOnCommPipe_messages [of "[]" "replicate n (Command SCAN_TRIGGER)" c] by (simp add: map_replicate)
qed

text \<open>
  A daemon that serves devices stops cleanly, with every thread it started joined; one that was only
  asked to list the devices joins the thread of the control socket, which it never started.
\<close>

theorem shutdown_joins_what_was_started:
  assumes "initServer e s = (True, r)"
  shows "(if justDescribe s then cleanupServer s r = Inl NullDeref
          else cleanupServer s r = Inr \<lparr>scanTimerThread = False, ctlSockThread = False, claiming = Some (True, unbind s)\<rparr>)"
  using assms by (auto simp: initServer_def cleanupServer_def joinThread_def Let_def split: if_splits)

theorem shutdown_joins_what_was_started_witness:
  "(let s = initServerSettings\<lparr>justDescribe := True\<rparr>;
        e = \<lparr>scanThreadStarts = True, ctlPipeMade = True, ctlThreadStarts = True, ctlListens = True, commPipeMade = True,
             driverLoads = True, driverInits = True, listMade = True\<rparr>
    in workLoopMain e True False [] [] [] s = Inl NullDeref)"
proof -
  let ?s = "initServerSettings\<lparr>justDescribe := True\<rparr>"
  let ?e = "\<lparr>scanThreadStarts = True, ctlPipeMade = True, ctlThreadStarts = True, ctlListens = True, commPipeMade = True,
             driverLoads = True, driverInits = True, listMade = True\<rparr>"
  obtain r where r: "initServer ?e ?s = (True, r)" by (simp add: initServer_def initServerSettings_def Let_def)
  from shutdown_joins_what_was_started [OF r] have "cleanupServer ?s r = Inl NullDeref" by simp
  then show ?thesis using r by (simp add: workLoopMain_def waitOnCommPipe_def triggerCommand_def)
qed

end
