(* ===== verification/Driver_Dispatch.thy ===== *)
theory Driver_Dispatch
  imports Usb_In_Use Usb_Driver_Pre1 Server_Startup
begin

text \<open>
  The rest of \<open>driver.c\<close>: the table of functions a driver hands over (\<open>driverImpl\<close> of \<open>driverapi.h\<close>) and the calls
  through it, with the tables of the two drivers.  The types of the table stand for what each driver
  reads from its library: the bus, a configuration, the result of a transfer.  The \<open>implementation\<close> is
  \<open>None\<close> until a driver is loaded.
\<close>

section \<open>The table\<close>

record ('bus, 'conf, 'transfer) driverImpl =
  i_initializeDriver :: bool
  i_cleanupDriver :: "unit option"     \<comment> \<open>may be NULL\<close>
  i_findDeviceEndpoints :: "'conf \<Rightarrow> (bool \<times> nat option) res"
  i_interruptRecv :: "'transfer \<Rightarrow> usbDevice \<Rightarrow> int \<Rightarrow> int \<times> usbDevice \<times> int"
  i_interruptSend :: "'transfer \<Rightarrow> usbDevice \<Rightarrow> int \<Rightarrow> int \<times> usbDevice \<times> int"
  i_clearHalt :: "(nat \<Rightarrow> int) \<Rightarrow> nat \<times> nat \<Rightarrow> nat \<Rightarrow> int"
  i_getDeviceLocation :: "usbDevice \<Rightarrow> byte \<times> byte"
  i_prepareDeviceList :: "usbId list \<Rightarrow> usbDeviceList"
  i_claimDevices :: "(bool \<Rightarrow> bool \<Rightarrow> usbDeviceList \<Rightarrow> usbDeviceList) option"     \<comment> \<open>may be NULL\<close>
  i_updateDeviceList :: "'bus \<Rightarrow> usbDeviceList \<Rightarrow> (bool \<times> usbDeviceList) option"
  i_stopDevices :: "usbDeviceList \<Rightarrow> nat \<times> usbDeviceList"
  i_releaseDevices :: "usbDeviceList \<Rightarrow> nat option"

type_synonym ('bus, 'conf, 'transfer) loaded = "('bus, 'conf, 'transfer) driverImpl option"

section \<open>Calls through the table\<close>

definition callDriver :: "('bus, 'conf, 'transfer) loaded \<Rightarrow> (('bus, 'conf, 'transfer) driverImpl \<Rightarrow> 'a) \<Rightarrow> 'a res" where
  "callDriver implementation f = (case implementation of None \<Rightarrow> Inl NullDeref | Some i \<Rightarrow> Inr (f i))"

definition callInitialize :: "('bus, 'conf, 'transfer) loaded \<Rightarrow> bool res" where
  "callInitialize implementation = callDriver implementation i_initializeDriver"

text \<open>Whether the driver's routine ran.\<close>

definition callCleanup :: "('bus, 'conf, 'transfer) loaded \<Rightarrow> bool" where
  "callCleanup implementation = (case implementation of None \<Rightarrow> False | Some i \<Rightarrow> i_cleanupDriver i \<noteq> None)"

definition callEndpoints :: "('bus, 'conf, 'transfer) loaded \<Rightarrow> 'conf \<Rightarrow> (bool \<times> nat option) res" where
  "callEndpoints implementation c = bind_res (callDriver implementation i_findDeviceEndpoints) (\<lambda>f. f c)"

definition callRecv :: "('bus, 'conf, 'transfer) loaded \<Rightarrow> 'transfer \<Rightarrow> usbDevice \<Rightarrow> int \<Rightarrow> (int \<times> usbDevice \<times> int) res" where
  "callRecv implementation t h e = callDriver implementation (\<lambda>i. i_interruptRecv i t h e)"

definition callSend :: "('bus, 'conf, 'transfer) loaded \<Rightarrow> 'transfer \<Rightarrow> usbDevice \<Rightarrow> int \<Rightarrow> (int \<times> usbDevice \<times> int) res" where
  "callSend implementation t h e = callDriver implementation (\<lambda>i. i_interruptSend i t h e)"

definition callClearHalt :: "('bus, 'conf, 'transfer) loaded \<Rightarrow> (nat \<Rightarrow> int) \<Rightarrow> nat \<times> nat \<Rightarrow> nat \<Rightarrow> int res" where
  "callClearHalt implementation halt addresses ep = callDriver implementation (\<lambda>i. i_clearHalt i halt addresses ep)"

definition callLocation :: "('bus, 'conf, 'transfer) loaded \<Rightarrow> usbDevice \<Rightarrow> (byte \<times> byte) res" where
  "callLocation implementation d = callDriver implementation (\<lambda>i. i_getDeviceLocation i d)"

definition callPrepare :: "('bus, 'conf, 'transfer) loaded \<Rightarrow> usbId list \<Rightarrow> usbDeviceList res" where
  "callPrepare implementation kinds = callDriver implementation (\<lambda>i. i_prepareDeviceList i kinds)"

definition callClaim :: "('bus, 'conf, 'transfer) loaded \<Rightarrow> bool \<Rightarrow> bool \<Rightarrow> usbDeviceList \<Rightarrow> usbDeviceList res" where
  "callClaim implementation claim unbindOthers l =
     callDriver implementation (\<lambda>i. case i_claimDevices i of None \<Rightarrow> l | Some f \<Rightarrow> f claim unbindOthers l)"

definition callUpdate :: "('bus, 'conf, 'transfer) loaded \<Rightarrow> 'bus \<Rightarrow> usbDeviceList \<Rightarrow> (bool \<times> usbDeviceList) option res" where
  "callUpdate implementation bus l = callDriver implementation (\<lambda>i. i_updateDeviceList i bus l)"

definition callStop :: "('bus, 'conf, 'transfer) loaded \<Rightarrow> usbDeviceList \<Rightarrow> (nat \<times> usbDeviceList) res" where
  "callStop implementation l = callDriver implementation (\<lambda>i. i_stopDevices i l)"

definition callRelease :: "('bus, 'conf, 'transfer) loaded \<Rightarrow> usbDeviceList \<Rightarrow> nat option res" where
  "callRelease implementation l = callDriver implementation (\<lambda>i. i_releaseDevices i l)"

section \<open>The rest of the driver for libusb 0.1\<close>

definition prepareDeviceListPre1 :: "usbId list \<Rightarrow> usbDeviceList" where
  "prepareDeviceListPre1 kinds = \<lparr>deviceList = [], ids = kinds, describeOnly = False, force = False\<rparr>"

definition stopDevicesPre1 :: "usbDeviceList \<Rightarrow> nat \<times> usbDeviceList" where
  "stopDevicesPre1 l = (length (deviceList l), l\<lparr>deviceList := map (\<lambda>d. d\<lparr>u_stopped := True\<rparr>) (deviceList l)\<rparr>)"

text \<open>As long as the head is new it is released, else the loop waits, for ever when nobody takes it off the list.\<close>

fun releaseLoopPre1 :: "usbDevice list \<Rightarrow> usbDevice list option" where
  "releaseLoopPre1 [] = Some []"
| "releaseLoopPre1 (d # ds) =
     (case releasePre1 (0, 0) 0 [] 0 (d # ds) of (e, shut, r) \<Rightarrow> if r = d # ds then None else releaseLoopPre1 ds)"

definition releaseDevicesPre1 :: "usbDeviceList \<Rightarrow> nat option" where
  "releaseDevicesPre1 l = map_option (\<lambda>_. length (deviceList l)) (releaseLoopPre1 (deviceList l))"

fun clearHaltPre1 :: "(nat \<Rightarrow> int) \<Rightarrow> nat \<times> nat \<Rightarrow> nat \<Rightarrow> int" where
  "clearHaltPre1 halt (inAddress, outAddress) ep =
     (if ep = EP_IN then halt inAddress else if ep = EP_OUT then halt outAddress else - 1)"

section \<open>The tables of the drivers\<close>

definition impl_libusb :: "(probe list, configDesc option, int \<times> int) driverImpl" where
  "impl_libusb =
     \<lparr>i_initializeDriver = True, i_cleanupDriver = Some (), i_findDeviceEndpoints = findDeviceEndpoints,
      i_interruptRecv = usbRecv, i_interruptSend = usbSend, i_clearHalt = clearHalt,
      i_getDeviceLocation = getDeviceLocation, i_prepareDeviceList = prepareDeviceList,
      i_claimDevices = Some claimDevices,
      i_updateDeviceList = (\<lambda>bus l. map_option (\<lambda>(l, newCount, n). (True, l)) (updateDeviceList bus l)),
      i_stopDevices = stopDevices, i_releaseDevices = releaseDevices\<rparr>"

definition impl_libusbpre1 :: "(probePre1 list, nat \<times> configDesc, (int \<times> int) \<times> string) driverImpl" where
  "impl_libusbpre1 =
     \<lparr>i_initializeDriver = True, i_cleanupDriver = None,
      i_findDeviceEndpoints = (\<lambda>(n, c). Inr (findDeviceEndpointsPre1 n c)),
      i_interruptRecv = (\<lambda>(t, txt) h e. usbRecvPre1 t txt h), i_interruptSend = (\<lambda>(t, txt) h e. usbSendPre1 t txt h),
      i_clearHalt = clearHaltPre1, i_getDeviceLocation = getDeviceLocationPre1,
      i_prepareDeviceList = prepareDeviceListPre1, i_claimDevices = None,
      i_updateDeviceList = (\<lambda>bus l. Some (case updateDeviceListPre1 bus l of (ok, l, newCount, n) \<Rightarrow> (ok, l))),
      i_stopDevices = stopDevicesPre1, i_releaseDevices = releaseDevicesPre1\<rparr>"

section \<open>The server and its driver\<close>

text \<open>
  What \<open>initServer\<close> asks of the driver (\<open>claiming\<close>), and the scan \<open>waitOnCommPipe\<close> starts
  with; \<open>None\<close> when the driver does not start or goes on trying to claim a device.
\<close>

definition firstScan ::
  "('bus, 'conf, 'transfer) loaded \<Rightarrow> usbId list \<Rightarrow> serverRun \<Rightarrow> 'bus \<Rightarrow> (bool \<times> usbDeviceList) option res" where
  "firstScan implementation kinds r bus =
     bind_res (callInitialize implementation) (\<lambda>ok.
     if \<not> ok then Inr None
     else bind_res (callPrepare implementation kinds) (\<lambda>l.
     bind_res (case claiming r of None \<Rightarrow> Inr l | Some (claim, unbindOthers) \<Rightarrow> callClaim implementation claim unbindOthers l) (\<lambda>l.
       callUpdate implementation bus l)))"

lemma releaseLoopPre1_eq: "releaseLoopPre1 ds = releaseLoop ds"
  by (induction ds) (auto simp: releasePre1_def Let_def dest: arg_cong [of _ _ length])

lemma drivers_stop_alike:
  "callStop (Some impl_libusbpre1) l = callStop (Some impl_libusb) l"
  "callRelease (Some impl_libusbpre1) l = callRelease (Some impl_libusb) l"
  by (simp_all add: callStop_def callRelease_def callDriver_def impl_libusb_def impl_libusbpre1_def stopDevicesPre1_def
      stopDevices_def releaseDevicesPre1_def releaseDevices_def releaseLoopPre1_eq)

lemma describing_claims_nothing:
  "matchAll ps (l, m, n) = Some (l', m', n') \<Longrightarrow> describeOnly l \<Longrightarrow> deviceList l = [] \<Longrightarrow> deviceList l' = []"
proof (induction ps arbitrary: l m n)
  case (Cons a ps)
  obtain p t where a: "a = (p, t)" by (cases a)
  have "matchDevice p t (l, m, n) = Some (if p_id p \<noteq> t then (l, m, n) else (l\<lparr>deviceList := []\<rparr>, m, n + 1))"
    using Cons.prems(2,3) by (simp add: matchDevice_def clearFirst_def)
  then show ?case using Cons a by (auto split: if_splits)
qed simp

lemma describing_ends: "describeOnly l \<Longrightarrow> \<exists>s. matchAll ps (l, m, n) = Some s"
proof (induction ps arbitrary: l m n)
  case (Cons a ps)
  obtain p t where a: "a = (p, t)" by (cases a)
  have "\<exists>k m' n'. matchDevice p t (l, m, n) = Some (k, m', n') \<and> describeOnly k"
    using Cons.prems by (simp add: matchDevice_def Let_def)
  then show ?case using Cons.IH a by auto
qed simp

text \<open>
  C39.  A daemon that shall only list the devices (\<open>--devices\<close>) claims none of them with the driver for libusb 1.0,
  whatever is on the bus.  The driver for libusb 0.1 has no \<open>claimDevices\<close> in its table, so the call is
  left out and the scan claims a device it finds, as if the daemon were to serve it.
\<close>

theorem listing_claims_with_libusb01:
  assumes "initServer e s = (True, r)" "justDescribe s" "q_id q = t" "claimErrorPre1 q = None"
  shows "(\<exists>l. firstScan (Some impl_libusb) kinds r bus = Inr (Some (True, l)) \<and> deviceList l = [])
    \<and> (\<exists>l. firstScan (Some impl_libusbpre1) [t] r [q] = Inr (Some (True, l)) \<and> map u_type (deviceList l) = [t])"
proof -
  have r: "claiming r = Some (False, unbind s)"
    using assms(1,2) by (auto simp: initServer_def Let_def split: if_splits)
  define l0 where "l0 = claimDevices False (unbind s) (prepareDeviceList kinds)"
  have d: "describeOnly l0" "deviceList l0 = []" by (simp_all add: l0_def claimDevices_def prepareDeviceList_def)
  obtain l m n where u: "updateDeviceList bus l0 = Some (l, m, n)"
    using describing_ends [OF d(1)] unfolding updateDeviceList_def by (metis prod_cases3)
  then have "deviceList l = []" using describing_claims_nothing d unfolding updateDeviceList_def by blast
  then have "\<exists>l. firstScan (Some impl_libusb) kinds r bus = Inr (Some (True, l)) \<and> deviceList l = []"
    using u by (simp add: firstScan_def callInitialize_def callPrepare_def callClaim_def callUpdate_def callDriver_def
        impl_libusb_def r flip: l0_def)
  moreover have "\<exists>l. firstScan (Some impl_libusbpre1) [t] r [q] = Inr (Some (True, l)) \<and> map u_type (deviceList l) = [t]"
    using assms(3,4) by (simp add: firstScan_def callInitialize_def callPrepare_def callClaim_def callUpdate_def callDriver_def
        impl_libusbpre1_def r prepareDeviceListPre1_def updateDeviceListPre1_def matchPre1_def clearFirstPre1_def newDevicePre1_def)
  ultimately show ?thesis by blast
qed

theorem listing_claims_with_libusb01_witness:
  "\<exists>r l. initServer \<lparr>scanThreadStarts = True, ctlPipeMade = True, ctlThreadStarts = True, ctlListens = True, commPipeMade = True,
             driverLoads = True, driverInits = True, listMade = True\<rparr> (initServerSettings\<lparr>justDescribe := True\<rparr>) = (True, r)
     \<and> firstScan (Some impl_libusbpre1) [\<lparr>idVendor = 0x1781, idProduct = 0x938\<rparr>] r [probePre1Of 4] = Inr (Some (True, l))
     \<and> deviceList l \<noteq> []"
proof -
  let ?s = "initServerSettings\<lparr>justDescribe := True\<rparr>"
  let ?e = "\<lparr>scanThreadStarts = True, ctlPipeMade = True, ctlThreadStarts = True, ctlListens = True, commPipeMade = True,
             driverLoads = True, driverInits = True, listMade = True\<rparr>"
  obtain r where r: "initServer ?e ?s = (True, r)" by (simp add: initServer_def initServerSettings_def Let_def)
  have "\<exists>l. firstScan (Some impl_libusbpre1) [\<lparr>idVendor = 0x1781, idProduct = 0x938\<rparr>] r [probePre1Of 4] = Inr (Some (True, l))
      \<and> map u_type (deviceList l) = [\<lparr>idVendor = 0x1781, idProduct = 0x938\<rparr>]"
    using listing_claims_with_libusb01 [OF r, of "probePre1Of 4" "\<lparr>idVendor = 0x1781, idProduct = 0x938\<rparr>"]
    by (simp add: probePre1Of_def claimErrorPre1_def)
  then show ?thesis using r by fastforce
qed

end
