(* ===== verification/Lirc_Driver.thy ===== *)
theory Lirc_Driver
  imports Client_Library
begin

text \<open>
  \<open>lirc-drv-iguanair/iguanair.c\<close>, the plug-in that lets lirc use a device of the daemon.  A child process
  receives: it turns the daemon's packets into a stream of \<open>lirc_t\<close> words on a pipe.  The parent sends,
  selects transmitters and lists devices.  The static variables are the record \<open>lirc\<close>; the daemon on the
  other end of the connection is an argument \<open>ask\<close> that takes a request to the response that is read, if
  any, and to the daemon's next state.  A \<open>lirc_t\<close> is a C \<open>int\<close>, here its 32 bits.
\<close>

section \<open>Transactions\<close>

text \<open>The two constants of \<open>lirc.h\<close>.\<close>

abbreviation (input) PULSE_BIT :: u32 where "PULSE_BIT \<equiv> 0x01000000"
abbreviation (input) PULSE_MASK :: u32 where "PULSE_MASK \<equiv> 0x00FFFFFF"

record lirc =
  sendConn :: int
  child :: int
  currentCarrier :: u32
  l_features :: byte
  drvFd :: int
  openFds :: nat     \<comment> \<open>descriptors the process holds for the pipes of the plug-in\<close>

definition lirc0 :: lirc where
  "lirc0 = \<lparr>sendConn = - 1, child = 0, currentCarrier = - 1, l_features = 0, drvFd = - 1, openFds = 0\<rparr>"

type_synonym 'd daemon = "dataPacket \<Rightarrow> 'd \<Rightarrow> (dataPacket option \<times> 'd) res"

definition daemonTransaction :: "'d daemon \<Rightarrow> byte \<Rightarrow> byte list option \<Rightarrow> 'd \<Rightarrow> lirc \<Rightarrow> (bool \<times> 'd \<times> lirc) res" where
  "daemonTransaction ask c v d s =
     bind_res (ask (iguanaCreateRequest c (case v of None \<Rightarrow> 0 | Some bs \<Rightarrow> word_of_nat (length bs)) v) d) (\<lambda>(resp, d).
       if iguanaResponseIsError resp then Inr (False, d, s)
       else case (if c = IG_DEV_GETFEATURES then fst (iguanaRemoveData resp) else None) of
              None \<Rightarrow> Inr (True, d, s)
            | Some bs \<Rightarrow> bind_res (byte_at (Some bs) 0) (\<lambda>f. Inr (True, d, s\<lparr>l_features := f\<rparr>)))"

section \<open>The receiving child\<close>

definition lircCode :: "u32 \<Rightarrow> u32" where
  "lircCode c =
     (let p = c AND IG_PULSE_MASK; p = (if PULSE_MASK < p then PULSE_MASK else p)
      in if c AND IG_PULSE_BIT \<noteq> 0 then p OR PULSE_BIT else p)"

definition sameLevel :: "u32 \<Rightarrow> u32 \<Rightarrow> bool" where
  "sameLevel prev c \<longleftrightarrow>
     (prev AND PULSE_BIT \<noteq> 0 \<and> c AND IG_PULSE_BIT \<noteq> 0) \<or> (prev AND PULSE_BIT = 0 \<and> c AND IG_PULSE_BIT = 0)"

definition lengthen :: "u32 \<Rightarrow> u32 \<Rightarrow> u32" where
  "lengthen prev c =
     (if PULSE_MASK < (prev AND PULSE_MASK) + (c AND IG_PULSE_MASK) then (prev AND PULSE_BIT) OR PULSE_MASK
      else prev + (c AND IG_PULSE_MASK))"

text \<open>The loop over the codes of a packet, with the local array of eight words it fills.\<close>

fun translateCodes :: "u32 list \<Rightarrow> u32 \<Rightarrow> u32 list \<Rightarrow> (u32 \<times> u32 list) res" where
  "translateCodes [] prev buffer = Inr (prev, buffer)"
| "translateCodes (c # cs) prev buffer =
     (if prev = - 1 then translateCodes cs (lircCode c) buffer
      else if sameLevel prev c then translateCodes cs (lengthen prev c) buffer
      else if length buffer < 8 then translateCodes cs (lircCode c) (buffer @ [prev])
      else Inl OutOfBounds)"

text \<open>One read of the connection: whether a signal has set \<open>recvDone\<close> by then, the packet, and \<open>errno\<close> if there is none.\<close>

record lircRead =
  quitSeen :: bool
  resp :: "dataPacket option"
  readErrno :: int

definition timedOut :: "lircRead \<Rightarrow> bool" where
  "timedOut r \<longleftrightarrow> (resp r = None \<and> readErrno r = ETIMEDOUT)
     \<or> (iguanaResponseIsError (resp r) \<and> snd (packetIsError (resp r)) = ETIMEDOUT)"

definition packetCodes :: "dataPacket option \<Rightarrow> u32 list res" where
  "packetCodes p =
     (case iguanaRemoveData p of (dat, len, _) \<Rightarrow>
        let n = (case len of None \<Rightarrow> 0 | Some l \<Rightarrow> 4 * (unat l div 4))
        in bind_res (read_bytes dat (int n)) (\<lambda>bs. Inr (words32 bs)))"

text \<open>
  The loop of the child over the reads: whether it has ended, the pending word and what was written to
  the pipe.  With no read left it still waits.
\<close>

fun recvCodes :: "lircRead list \<Rightarrow> u32 \<Rightarrow> u32 list \<Rightarrow> (bool \<times> u32 \<times> u32 list) res" where
  "recvCodes [] prev out = Inr (False, prev, out)"
| "recvCodes (r # rs) prev out =
     (if \<not> quitSeen r \<and> timedOut r then recvCodes rs prev out
      else if iguanaResponseIsError (resp r) then Inr (True, prev, out)
      else bind_res (packetCodes (resp r)) (\<lambda>cs.
           bind_res (translateCodes cs prev []) (\<lambda>(prev, buffer).
             if quitSeen r then Inr (True, prev, out @ buffer) else recvCodes rs prev (out @ buffer))))"

text \<open>The whole child: the words written before its pipe was closed, or up to now.\<close>

definition recv_loop :: "'d daemon \<Rightarrow> 'd option \<Rightarrow> lirc \<Rightarrow> lircRead list \<Rightarrow> (bool \<times> u32 list) res" where
  "recv_loop ask conn s reads =
     (case conn of None \<Rightarrow> Inr (True, [])
      | Some d \<Rightarrow> bind_res (daemonTransaction ask IG_DEV_RECVON None d s) (\<lambda>(ok, _, _).
          if \<not> ok then Inr (True, [])
          else bind_res (recvCodes reads (- 1) []) (\<lambda>(ended, _, out). Inr (ended, out))))"

section \<open>Starting and stopping\<close>

text \<open>Whether \<open>kill\<close> fails and whether \<open>waitpid\<close> does, after the retries on EINTR.\<close>

definition killChildProcess :: "bool \<times> bool \<Rightarrow> lirc \<Rightarrow> lirc" where
  "killChildProcess r s = (if 0 < child s \<and> (fst r \<or> \<not> snd r) then s\<lparr>child := 0\<rparr> else s)"

text \<open>
  What starting up meets: the results of the two calls of \<open>pipe\<close>, of \<open>fork\<close>, and of connecting; the
  number is the descriptor of the receive pipe's reading end.
\<close>

record startup =
  recvPipe :: "int option"
  notifyPipe :: bool
  forked :: int
  connected :: int
  killed :: "bool \<times> bool"

definition iguana_init :: "startup \<Rightarrow> lirc \<Rightarrow> int \<times> lirc" where
  "iguana_init e s =
     (case recvPipe e of
        None \<Rightarrow> (0, s)
      | Some f \<Rightarrow>
          if \<not> notifyPipe e then (0, s)
          else let s = s\<lparr>openFds := openFds s + 4, drvFd := f, child := forked e\<rparr>
               in if forked e = - 1 then (0, s)
                  else let s = s\<lparr>openFds := openFds s - 3, sendConn := connected e\<rparr>
                       in if connected e = - 1 then (0, killChildProcess (killed e) s) else (1, s))"

definition iguana_deinit :: "bool \<times> bool \<Rightarrow> lirc \<Rightarrow> bool \<times> lirc" where
  "iguana_deinit r s =
     (let s = (if sendConn s \<noteq> - 1 then s\<lparr>sendConn := - 1\<rparr> else s);
          s = killChildProcess r s;
          s = s\<lparr>openFds := (if drvFd s = - 1 then openFds s else openFds s - 1), drvFd := - 1\<rparr>
      in (child s = 0, s))"

text \<open>What \<open>poll\<close> and then \<open>read\<close> give: nothing in time, a failed or empty read, or a word.\<close>

datatype polled = PollTimeout | ReadFailed "bool \<times> bool" | ReadWord u32

definition readdata :: "polled \<Rightarrow> lirc \<Rightarrow> u32 \<times> lirc" where
  "readdata p s =
     (case p of PollTimeout \<Rightarrow> (0, s) | ReadFailed r \<Rightarrow> (0, snd (iguana_deinit r s)) | ReadWord w \<Rightarrow> (w, s))"

section \<open>Sending\<close>

definition packSignal :: "u32 \<Rightarrow> u32" where
  "packSignal x = (if x AND PULSE_BIT \<noteq> 0 then (x AND PULSE_MASK) OR IG_PULSE_BIT else x AND PULSE_MASK)"

text \<open>\<open>signals\<close> is what lirc's transmit buffer holds for the code, \<open>None\<close> if it could not be filled.\<close>

definition iguana_send :: "'d daemon \<Rightarrow> u32 \<Rightarrow> u32 list option \<Rightarrow> 'd \<Rightarrow> lirc \<Rightarrow> (int \<times> 'd \<times> lirc) res" where
  "iguana_send ask freq signals d s =
     bind_res
       (if freq \<noteq> currentCarrier s \<and> 25000 \<le> freq \<and> freq \<le> 100000
        then bind_res (daemonTransaction ask IG_DEV_SETCARRIER (Some (be_bytes 4 (unat freq))) d s) (\<lambda>(ok, d, s).
               Inr (d, if ok then s\<lparr>currentCarrier := freq\<rparr> else s))
        else Inr (d, s))
       (\<lambda>(d, s). case signals of None \<Rightarrow> Inr (0, d, s)
         | Some xs \<Rightarrow> bind_res (daemonTransaction ask IG_DEV_SEND (Some (pulseBytes (map packSignal xs))) d s) (\<lambda>(ok, d, s).
             Inr (if ok then 1 else 0, d, s)))"

section \<open>Transmitters\<close>

definition transmitterMask :: "byte \<Rightarrow> int \<times> u32" where
  "transmitterMask f = (if f = IG_SLOT_DEV then (6, 0x3F) else (4, 0x0F))"

definition set_transmitters :: "'d daemon \<Rightarrow> u32 \<Rightarrow> 'd \<Rightarrow> lirc \<Rightarrow> (int \<times> 'd \<times> lirc) res" where
  "set_transmitters ask chans d s =
     bind_res
       (if l_features s = 0
        then bind_res (daemonTransaction ask IG_DEV_GETFEATURES None d s) (\<lambda>(_, d, s). Inr (d, s)) else Inr (d, s))
       (\<lambda>(d, s). let (maxCount, m) = transmitterMask (l_features s)
         in if chans AND NOT m \<noteq> 0 then Inr (maxCount, d, s)
            else bind_res (daemonTransaction ask IG_DEV_SETCHANNELS (Some [ucast chans]) d s) (\<lambda>(ok, d, s).
                   Inr (if ok then 0 else - 1, d, s)))"

section \<open>Devices\<close>

text \<open>Where an entry of the daemon's list ends: at a bar, and before a comma for the first two kinds.\<close>

definition endOfEntry :: "byte \<Rightarrow> byte \<Rightarrow> bool" where
  "endOfEntry type b \<longleftrightarrow> b = bar_char \<or> ((type = 0x69 \<or> type = 0x6C) \<and> b = comma_char)"

text \<open>
  The path for one entry, with the description for the device or its alias.  The name is copied into 13
  cleared bytes, \<open>idx\<close> is the path of the last device and has no value before the first.
\<close>

definition listEntry :: "byte \<Rightarrow> cstring \<Rightarrow> cstring option \<Rightarrow> (cstring \<times> cstring option) res" where
  "listEntry type name idx =
     (if 12 < length name then Inl OutOfBounds
      else let s = IGSOCK_NAME @ name;
               idx = (if type = 0x69 then Some s else idx);
               cap = 2 * length IGSOCK_NAME + length name + 50
           in bind_res
                (if type = 0x69 then Inr (s @ str '' [1781:0938]'')
                 else if type = 0x6C \<or> type = 0x75
                 then (case idx of None \<Rightarrow> Inl OutOfBounds | Some i \<Rightarrow> Inr (s @ str '' ->'' @ i))
                 else Inr s)
                (\<lambda>s. if length s < cap then Inr (s, idx) else Inl OutOfBounds))"

text \<open>
  The loop over the list, which ends at its terminator.  Skipping the two characters of the kind steps
  over the terminator when only one is left.
\<close>

function listLoop :: "cstring \<Rightarrow> cstring option \<Rightarrow> cstring list \<Rightarrow> cstring list res" where
  "listLoop pos idx devices =
     (case pos of
        [] \<Rightarrow> Inr devices
      | [type] \<Rightarrow> Inl OutOfBounds
      | type # _ # pos \<Rightarrow>
          let name = takeWhile (\<lambda>b. \<not> endOfEntry type b) pos; pos = drop 1 (dropWhile (\<lambda>b. \<not> endOfEntry type b) pos)
          in if name = [] then listLoop pos idx devices
             else case listEntry type name idx of
                    Inl f \<Rightarrow> Inl f
                  | Inr (s, idx) \<Rightarrow> listLoop pos idx (devices @ [s]))"
  by pat_completeness auto
termination
proof (relation "measure (\<lambda>(pos, _, _). length pos)", goal_cases)
  case 1
  then show ?case by simp
qed (auto simp: less_Suc_eq_le intro!: le_trans [OF diff_le_self] le_trans [OF length_dropWhile_le])

declare listLoop.simps [simp del]

definition list_devices :: "cstring option \<Rightarrow> cstring list res" where
  "list_devices listing = (case listing of None \<Rightarrow> Inr [] | Some t \<Rightarrow> listLoop t None [])"

text \<open>The control calls of lirc that reach the plug-in; others are not implemented.\<close>

datatype drvctl = DRVCTL_GET_DEVICES | DRVCTL_FREE_DEVICES | LIRC_SET_TRANSMITTER_MASK u32 | DRVCTL_OTHER

definition drvctl_func :: "int \<Rightarrow> 'd daemon \<Rightarrow> cstring option \<Rightarrow> drvctl \<Rightarrow> 'd \<Rightarrow> lirc \<Rightarrow> (int \<times> cstring list \<times> 'd \<times> lirc) res" where
  "drvctl_func notImplemented ask listing cmd d s =
     (case cmd of
        DRVCTL_GET_DEVICES \<Rightarrow> bind_res (list_devices listing) (\<lambda>ds. Inr (0, ds, d, s))
      | DRVCTL_FREE_DEVICES \<Rightarrow> Inr (0, [], d, s)
      | LIRC_SET_TRANSMITTER_MASK m \<Rightarrow> bind_res (set_transmitters ask m d s) (\<lambda>(r, d, s). Inr (r, [], d, s))
      | DRVCTL_OTHER \<Rightarrow> Inr (notImplemented, [], d, s))"

end
