(* ===== verification/Lirc_Properties.thy ===== *)
theory Lirc_Properties
  imports Lirc_Driver Client_Daemon
begin

text \<open>
  What lirc gets from the plug-in: the received signal without a trace of how it was cut into packets,
  transmissions that the device plays, the transmitters it selects and the paths of all devices.
\<close>

section \<open>Words of lirc\<close>

text \<open>A pulse or space of a duration, which is cut at the largest one a word holds.\<close>

definition lircWord :: "bool \<times> nat \<Rightarrow> u32" where
  "lircWord r = (if fst r then PULSE_BIT else 0) + word_of_nat (min (snd r) 0xFFFFFF)"

definition level :: "u32 \<Rightarrow> bool" where
  "level c \<longleftrightarrow> c AND IG_PULSE_BIT \<noteq> 0"

definition duration :: "u32 \<Rightarrow> nat" where
  "duration c = unat (c AND IG_PULSE_MASK)"

lemma unat_lircWord: "unat (lircWord r) = min (snd r) 0xFFFFFF + (if fst r then 2 ^ 24 else 0)"
proof -
  have u: "unat (word_of_nat (min (snd r) 0xFFFFFF) :: u32) = min (snd r) 0xFFFFFF"
    by (rule unat_of_nat32) simp
  show ?thesis
  proof (cases "fst r")
    case True
    then show ?thesis using u by (simp add: lircWord_def unat_word_ariths)
  next
    case False
    then show ?thesis using u by (simp add: lircWord_def)
  qed
qed

lemma mask24: "unat (w AND 0xFFFFFF :: u32) = unat w mod 2 ^ 24"
proof -
  have "w AND 0xFFFFFF = take_bit 24 w" by (simp add: take_bit_eq_mask mask_numeral)
  moreover have "unat (take_bit 24 w) = unat w mod 2 ^ 24"
    by (simp only: unsigned_take_bit_eq) (simp only: take_bit_eq_mod)
  ultimately show ?thesis by simp
qed

lemma bit_pulse: "bit (0x1000000 :: u32) n \<longleftrightarrow> n = 24"
proof -
  have "(0x1000000 :: u32) = 2 ^ 24" by simp
  then show ?thesis by (simp only: bit_exp_iff) auto
qed

lemma bit24: "w AND 0x1000000 \<noteq> 0 \<longleftrightarrow> odd (unat (w :: u32) div 2 ^ 24)"
proof -
  have "w AND 0x1000000 \<noteq> 0 \<longleftrightarrow> bit w 24"
    using and_exp_eq_0_iff_not_bit [of w 24] by simp
  also have "\<dots> \<longleftrightarrow> bit (unat w) 24" by (simp add: bit_unsigned_iff)
  finally show ?thesis by (simp add: bit_iff_odd)
qed

lemma lircWord_parts:
  "lircWord (p, t) AND PULSE_BIT \<noteq> 0 \<longleftrightarrow> p" "unat (lircWord (p, t) AND PULSE_MASK) = min t 0xFFFFFF" "lircWord (p, t) \<noteq> - 1"
proof -
  note u = unat_lircWord [of "(p, t)"]
  show "lircWord (p, t) AND PULSE_BIT \<noteq> 0 \<longleftrightarrow> p" unfolding bit24 u by (cases p) (simp_all add: div_add_self2)
  show "unat (lircWord (p, t) AND PULSE_MASK) = min t 0xFFFFFF" unfolding mask24 u by (cases p) simp_all
  have "unat (- 1 :: u32) = 2 ^ 32 - 1" by (simp add: unsigned_minus_1_eq_mask mask_eq_exp_minus_1)
  moreover have "unat (lircWord (p, t)) < 2 ^ 32 - 1" unfolding u by (cases p) simp_all
  ultimately show "lircWord (p, t) \<noteq> - 1" by (metis less_irrefl)
qed

lemma or_bit24: "unat w < 2 ^ 24 \<Longrightarrow> unat (w OR 0x1000000 :: u32) = unat w + 2 ^ 24"
  using or_pow2_nat [of "unat w" 24] by (simp add: unsigned_or_eq)

lemma lircWord_eqI: "unat w = min t 0xFFFFFF + (if p then 2 ^ 24 else 0) \<Longrightarrow> w = lircWord (p, t)"
  using unat_lircWord [of "(p, t)"] by (simp add: word_unat_eq_iff)

lemma duration_bound: "duration c < 2 ^ 24"
  unfolding duration_def mask24 by simp

lemma lircCode_word: "lircCode c = lircWord (level c, duration c)"
proof -
  have "c AND IG_PULSE_MASK \<le> PULSE_MASK" by (rule word_and_le1)
  then have m: "\<not> PULSE_MASK < c AND IG_PULSE_MASK" by simp
  have b: "unat (c AND IG_PULSE_MASK) < 2 ^ 24" "duration c = unat (c AND IG_PULSE_MASK)"
    using duration_bound [of c] by (simp_all add: duration_def)
  show ?thesis
  proof (rule lircWord_eqI, cases "level c")
    case True
    then show "unat (lircCode c) = min (duration c) 0xFFFFFF + (if level c then 2 ^ 24 else 0)"
      using m b or_bit24 [OF b(1)] by (simp add: lircCode_def level_def)
  next
    case False
    then show "unat (lircCode c) = min (duration c) 0xFFFFFF + (if level c then 2 ^ 24 else 0)"
      using m b by (simp add: lircCode_def level_def)
  qed
qed

lemma sameLevel_word: "sameLevel (lircWord (p, t)) c \<longleftrightarrow> level c = p"
  using lircWord_parts(1) [of p t] by (auto simp: sameLevel_def level_def)

lemma lengthen_word: "lengthen (lircWord (p, t)) c = lircWord (p, t + duration c)"
proof (rule lircWord_eqI)
  let ?w = "lircWord (p, t)"
  have d: "duration c < 2 ^ 24" "unat (c AND IG_PULSE_MASK) = duration c"
    using duration_bound by (simp_all add: duration_def)
  have s: "unat ((?w AND PULSE_MASK) + (c AND IG_PULSE_MASK)) = min t 0xFFFFFF + duration c"
    using lircWord_parts(2) [of p t] d by (simp add: unat_word_ariths)
  have over: "PULSE_MASK < (?w AND PULSE_MASK) + (c AND IG_PULSE_MASK) \<longleftrightarrow> 0xFFFFFF < min t 0xFFFFFF + duration c"
    unfolding word_less_nat_alt s by simp
  have k: "?w AND PULSE_BIT = (if p then PULSE_BIT else 0)"
  proof (rule bit_word_eqI)
    fix n assume "n < LENGTH(32)"
    show "bit (?w AND PULSE_BIT) n \<longleftrightarrow> bit (if p then PULSE_BIT else 0 :: u32) n"
    proof (cases "n = 24")
      case True
      have "bit ?w 24 \<longleftrightarrow> p" using lircWord_parts(1) [of p t] and_exp_eq_0_iff_not_bit [of ?w 24] by simp
      then show ?thesis using True bit_pulse [of 24]
        by (cases p) (simp_all only: bit_and_iff if_True if_False bit_0_eq bot_apply bot_bool_def simp_thms)
    next
      case False
      then show ?thesis using bit_pulse [of n] by (cases p) (simp_all only: bit_and_iff if_True if_False bit_0_eq bot_apply bot_bool_def simp_thms)
    qed
  qed
  show "unat (lengthen ?w c) = min (t + duration c) 0xFFFFFF + (if p then 2 ^ 24 else 0)"
  proof (cases "0xFFFFFF < min t 0xFFFFFF + duration c")
    case True
    then have "lengthen ?w c = (if p then PULSE_BIT else 0) OR PULSE_MASK" using over k by (simp add: lengthen_def)
    then show ?thesis using True by (cases p) auto
  next
    case False
    then have "lengthen ?w c = ?w + (c AND IG_PULSE_MASK)" using over by (simp add: lengthen_def)
    moreover have "min (t + duration c) 0xFFFFFF = min t 0xFFFFFF + duration c" using False by auto
    ultimately show ?thesis using unat_lircWord [of "(p, t)"] d False by (cases p) (simp_all add: unat_word_ariths)
  qed
qed

section \<open>Receiving\<close>

text \<open>The runs of a signal: neighbouring codes of the same level are one run of their total duration.\<close>

fun joinedFrom :: "bool \<Rightarrow> nat \<Rightarrow> u32 list \<Rightarrow> (bool \<times> nat) list" where
  "joinedFrom p t [] = [(p, t)]"
| "joinedFrom p t (c # cs) =
     (if level c = p then joinedFrom p (t + duration c) cs else (p, t) # joinedFrom (level c) (duration c) cs)"

fun joinedRuns :: "u32 list \<Rightarrow> (bool \<times> nat) list" where
  "joinedRuns [] = []"
| "joinedRuns (c # cs) = joinedFrom (level c) (duration c) cs"

lemma joinedFrom_nonempty [simp]: "joinedFrom p t cs \<noteq> []"
  by (induction cs arbitrary: p t) auto

lemma joinedRuns_Nil [simp]: "joinedRuns cs = [] \<longleftrightarrow> cs = []"
  by (cases cs) auto

lemma length_joinedFrom: "length (joinedFrom p t cs) \<le> Suc (length cs)"
proof (induction cs arbitrary: p t)
  case (Cons c cs)
  show ?case using Cons.IH [of p "t + duration c"] Cons.IH [of "\<not> p" "duration c"] by auto
qed simp

lemma joinedFrom_append:
  "joinedFrom p t (xs @ ys)
     = butlast (joinedFrom p t xs) @ joinedFrom (fst (last (joinedFrom p t xs))) (snd (last (joinedFrom p t xs))) ys"
  by (induction xs arbitrary: p t) auto

lemma joinedRuns_append:
  "xs \<noteq> [] \<Longrightarrow> joinedRuns (xs @ ys)
     = butlast (joinedRuns xs) @ joinedFrom (fst (last (joinedRuns xs))) (snd (last (joinedRuns xs))) ys"
  by (cases xs) (simp_all add: joinedFrom_append)

lemma hd_joinedFrom: "fst (hd (joinedFrom p t cs)) = p"
  by (induction cs arbitrary: p t) auto

lemma alternating: "successively (\<lambda>a b. fst a \<noteq> fst b) (joinedFrom p t cs)"
proof (induction cs arbitrary: p t)
  case (Cons c cs)
  show ?case
    using Cons.IH hd_joinedFrom [of "level c" "duration c" cs] by (auto simp: successively_Cons)
qed simp

lemma translateCodes_from:
  assumes "length buffer + length (joinedFrom p t cs) \<le> 9"
  shows "translateCodes cs (lircWord (p, t)) buffer
    = Inr (lircWord (last (joinedFrom p t cs)), buffer @ map lircWord (butlast (joinedFrom p t cs)))"
  using assms
proof (induction cs arbitrary: p t buffer)
  case (Cons c cs)
  note w = lircWord_parts(3) [of p t] sameLevel_word [of p t c] lengthen_word [of p t c] lircCode_word [of c]
  show ?case
  proof (cases "level c = p")
    case True
    then show ?thesis using Cons.IH [of buffer p "t + duration c"] Cons.prems w by simp
  next
    case False
    have "Suc 0 \<le> length (joinedFrom (\<not> p) (duration c) cs)" by (simp add: Suc_le_eq)
    moreover have "length buffer + length (joinedFrom (\<not> p) (duration c) cs) \<le> 8" using Cons.prems False by simp
    ultimately have "length buffer < 8" by linarith
    then show ?thesis
      using False Cons.IH [of "buffer @ [lircWord (p, t)]" "level c" "duration c"] Cons.prems w by simp
  qed
qed simp

text \<open>The pending word of the child after the codes \<open>cs\<close>, and what it has written.\<close>

definition pendingWord :: "u32 list \<Rightarrow> u32" where
  "pendingWord cs = (if cs = [] then - 1 else lircWord (last (joinedRuns cs)))"

definition written :: "u32 list \<Rightarrow> u32 list" where
  "written cs = map lircWord (butlast (joinedRuns cs))"

lemma translateCodes_next:
  assumes "length cs \<le> 8"
  shows "\<exists>buffer. translateCodes cs (pendingWord ds) [] = Inr (pendingWord (ds @ cs), buffer) \<and> written ds @ buffer = written (ds @ cs)"
proof (cases "ds = []")
  case True
  then show ?thesis
  proof (cases cs)
    case (Cons c cs')
    have "length (joinedFrom (level c) (duration c) cs') \<le> 9"
      using length_joinedFrom [of "level c" "duration c" cs'] assms Cons by simp
    then show ?thesis
      using translateCodes_from [of "[]" "level c" "duration c" cs'] True Cons lircCode_word [of c]
      by (simp add: pendingWord_def written_def)
  qed (simp add: pendingWord_def written_def)
next
  case False
  obtain p t where l: "last (joinedRuns ds) = (p, t)" by (cases "last (joinedRuns ds)")
  have "length (joinedFrom p t cs) \<le> 9" using length_joinedFrom [of p t cs] assms by simp
  then show ?thesis
    using translateCodes_from [of "[]" p t cs] False l joinedRuns_append [OF False, of cs]
    by (simp add: pendingWord_def written_def butlast_append)
qed

text \<open>A packet of the daemon with the codes \<open>cs\<close>, as one read of the child.\<close>

definition signalPacket :: "u32 list \<Rightarrow> dataPacket" where
  "signalPacket cs = \<lparr>code = IG_DEV_RECV, dataLen = int (4 * length cs), data = Some (pulseBytes cs)\<rparr>"

definition readOf :: "dataPacket \<Rightarrow> lircRead" where
  "readOf p = \<lparr>quitSeen = False, resp = Some p, readErrno = 0\<rparr>"

lemma packetCodes_signal:
  assumes "length cs < 2 ^ 29"
  shows "packetCodes (Some (signalPacket cs)) = Inr cs"
proof (cases cs)
  case (Cons c cs')
  have "unat (word_of_int (int (4 * length cs)) :: u32) = 4 * length cs"
    using assms by (simp only: of_int_of_nat_eq) (rule unat_of_nat32, simp)
  then show ?thesis
    using length_pulseBytes [of cs] words32_pulseBytes [of cs] Cons
    by (simp add: packetCodes_def iguanaRemoveData_def signalPacket_def read_bytes_def Let_def del: of_nat_Suc)
qed (simp add: packetCodes_def iguanaRemoveData_def signalPacket_def read_bytes_def)

lemma read_is_signal:
  "\<not> timedOut (readOf (signalPacket cs))" "\<not> iguanaResponseIsError (Some (signalPacket cs))"
  by (simp_all add: timedOut_def readOf_def iguanaResponseIsError_def packetIsError_def signalPacket_def)

lemma recvCodes_signals:
  assumes "list_all (\<lambda>cs. length cs \<le> 8) css"
  shows "recvCodes (map (\<lambda>cs. readOf (signalPacket cs)) css) (pendingWord ds) (written ds)
    = Inr (False, pendingWord (ds @ concat css), written (ds @ concat css))"
  using assms
proof (induction css arbitrary: ds)
  case (Cons cs css)
  obtain buffer where b: "translateCodes cs (pendingWord ds) [] = Inr (pendingWord (ds @ cs), buffer)"
    "written ds @ buffer = written (ds @ cs)"
    using translateCodes_next [of cs ds] Cons.prems by auto
  have "packetCodes (Some (signalPacket cs)) = Inr cs" using Cons.prems by (intro packetCodes_signal) simp
  then show ?case using b Cons.IH [of "ds @ cs"] Cons.prems read_is_signal [of cs] by (simp add: readOf_def)
qed simp

text \<open>
  lirc sees a signal the way it was sent, however the daemon cut it into packets: the words written
  to its pipe are the runs of the whole signal, neighbouring codes of one level joined across packets
  and cut at the largest duration, pulses and spaces in turn.  The last run is held back, since the
  next packet may continue it.  Packets of up to eight codes fit the plug-in's array.
\<close>

theorem lirc_joins_packets:
  assumes "list_all (\<lambda>cs. length cs \<le> 8) css"
  shows "\<exists>prev. recvCodes (map (\<lambda>cs. readOf (signalPacket cs)) css) (- 1) []
      = Inr (False, prev, map lircWord (butlast (joinedRuns (concat css))))
    \<and> successively (\<lambda>a b. fst a \<noteq> fst b) (joinedRuns (concat css))"
proof -
  have "successively (\<lambda>a b. fst a \<noteq> fst b) (joinedRuns cs)" for cs by (cases cs) (simp_all only: joinedRuns.simps successively.simps alternating)
  then show ?thesis using recvCodes_signals [OF assms, of "[]"] by (simp add: pendingWord_def written_def)
qed

theorem lirc_joins_packets_witness:
  "\<exists>prev. recvCodes (map (\<lambda>cs. readOf (signalPacket cs)) [[0x01000200, 100], [50, 0x01000300], [0x01000001, 7]]) (- 1) []
      = Inr (False, prev, [0x01000200, 150, 0x01000301])"
  using lirc_joins_packets [of "[[0x01000200, 100], [50, 0x01000300], [0x01000001, 7]]"]
  by (auto simp: level_def duration_def lircWord_def)

text \<open>
  A ninth change of level inside of one packet is written past the end of the plug-in's array: its
  size rests on the daemon's device sending at most eight bytes at a time.
\<close>

theorem lirc_array_overflows:
  "recvCodes [readOf (signalPacket [0x01000010, 32, 0x01000010, 32, 0x01000010, 32, 0x01000010, 32, 0x01000010, 32])] (- 1) []
     = Inl OutOfBounds"
proof -
  let ?cs = "[0x01000010, 32, 0x01000010, 32, 0x01000010, 32, 0x01000010, 32, 0x01000010, 32] :: u32 list"
  have p: "packetCodes (Some (signalPacket ?cs)) = Inr ?cs"
    by (rule packetCodes_signal) simp
  have "lircCode 0x01000010 = 0x01000010" "lircCode 32 = 32" "\<not> sameLevel 0x01000010 32" "\<not> sameLevel 32 0x01000010"
    by (simp_all add: lircCode_def sameLevel_def)
  then have "translateCodes ?cs (- 1) [] = Inl OutOfBounds" by simp
  then show ?thesis using p read_is_signal [of ?cs] by (simp add: readOf_def)
qed

section \<open>From the device to lirc\<close>

definition signalCodes :: "byte list \<Rightarrow> u32 list" where
  "signalCodes bs = map (\<lambda>r. word_of_nat (run_word r)) (signal_runs (butlast bs))"

definition packetsFor :: "nat \<Rightarrow> (nat \<times> dataPacket) list \<Rightarrow> dataPacket list" where
  "packetsFor n ps = map snd (filter (\<lambda>x. fst x = n) ps)"

lemma length_signal_runs: "length (signal_runs bs) \<le> length bs"
proof -
  have "length (merge_runs p t bs) \<le> Suc (length bs)" for p t bs
  proof (induction bs arbitrary: p t)
    case (Cons b bs)
    show ?case using Cons.IH [of p "t + ticks b"] Cons.IH [of "\<not> p" "ticks b"] by auto
  qed simp
  then show ?thesis by (cases bs) auto
qed

lemma runPacket_codes:
  assumes "1 < length bs" "length bs \<le> 768"
  shows "runPacket bs = signalPacket (signalCodes bs)"
proof -
  have "0 < length (butlast bs)" "length (butlast bs) \<le> 767" using assms unfolding length_butlast by linarith+
  from decoded_runs [OF this] obtain ps :: "u32 list" where ps: "map unat ps = map run_word (signal_runs (butlast bs))" by blast
  have "map word_of_nat (map unat ps) = ps" by (simp add: comp_def map_idI)
  then have c: "signalCodes bs = ps" unfolding ps by (simp add: signalCodes_def comp_def)
  have "pulseBytes ps = concat (map (le_bytes 4) (map unat ps))" by (simp add: pulseBytes_def comp_def)
  moreover have "length ps = length (signal_runs (butlast bs))" using ps by (metis length_map)
  ultimately show ?thesis using c ps by (simp add: runPacket_def signalPacket_def)
qed

lemma packetsFor_told:
  assumes "receiving c = IG_DEV_RECVON" "c_version c = 1" "list_all (\<lambda>x. fd x \<noteq> fd c) (cs @ cs')" "code p = IG_DEV_RECV"
  shows "packetsFor (fd c) (told p (cs @ c # cs')) = [p]"
proof -
  have no: "packetsFor (fd c) (told p ds) = []" if "list_all (\<lambda>x. fd x \<noteq> fd c) ds" for ds
    using that by (induction ds) (simp_all add: packetsFor_def told_def)
  have "packetsFor (fd c) (told p (cs @ c # cs')) = packetsFor (fd c) (told p cs) @ packetsFor (fd c) (told p [c]) @ packetsFor (fd c) (told p cs')"
    using assms(1) by (simp add: packetsFor_def told_def)
  then show ?thesis using no assms by (simp add: packetsFor_def told_def recvWire_def)
qed

lemma packetsFor_goneOut: "(\<And>k. w k f) \<Longrightarrow> packetsFor f (goneOut w n ps) = packetsFor f ps"
  by (induction w n ps rule: goneOut.induct) (auto simp: packetsFor_def)

lemma packetsFor_all:
  assumes "\<And>bs. bs \<in> set bss \<Longrightarrow> packetsFor n (f bs) = [g bs]"
  shows "packetsFor n (concat (map f bss)) = map g bss"
  using assms by (induction bss) (simp_all add: packetsFor_def)

text \<open>
  C12.  A signal reaches lirc: the packets a device sends go through the reader, the queue and the worker of
  the daemon to the plug-in's connection, and what the plug-in writes for lirc are the runs of the
  signal in microseconds, neighbouring runs of one level joined where a packet ended inside of one.  The
  condition is that the writes of the daemon to the plug-in's connection succeed, each within its 100 ms;
  the writes to other clients may fail.
\<close>

theorem signal_reaches_lirc:
  assumes "list_all is_signal bss" "list_all (\<lambda>bs. 1 < length bs \<and> length bs \<le> 9) bss"
    and "idev L = Some d" "\<not> fixToggle d" "recvList d = []" "readerPipe d = 0"
    and "modes_ok (clientList L)" "list_all (\<lambda>c. receiving c \<noteq> 0 \<longrightarrow> known c) (clientList L)"
    and "clientList L = cs @ c # cs'" "receiving c = IG_DEV_RECVON" "c_version c = 1" "list_all (\<lambda>x. fd x \<noteq> fd c) (cs @ cs')"
    and "\<And>k. pipeTakes L k (fd c)"
  shows "\<exists>d' L' prev. handleIncomingPackets (map got bss) d = Inr (False, d')
    \<and> listenLoop (replicate (length bss) ReaderReady) (setDev d' L) = Inr (False, L')
    \<and> recvCodes (map readOf (packetsFor (fd c) (drop (length (delivered L)) (delivered L')))) (- 1) []
        = Inr (False, prev, map lircWord (butlast (joinedRuns (concat (map signalCodes bss)))))"
proof -
  have sizes: "1 < length bs" "length bs \<le> 9" if "bs \<in> set bss" for bs using that assms(2) by (auto simp: list_all_iff)
  have l: "list_all (\<lambda>bs. 1 < length bs \<and> length bs \<le> 768) bss" using sizes by (force simp: list_all_iff)
  obtain d' L' where run: "handleIncomingPackets (map got bss) d = Inr (False, d')"
    "listenLoop (replicate (length bss) ReaderReady) (setDev d' L) = Inr (False, L')"
    "delivered L' = delivered L @ goneOut (pipeTakes L) (pipeTries L) (concat (map (\<lambda>bs. told (runPacket bs) (clientList L)) bss))"
    using signals_reach [OF assms(1) l assms(3-8)] by blast
  have "packetsFor (fd c) (told (runPacket bs) (clientList L)) = [signalPacket (signalCodes bs)]" if "bs \<in> set bss" for bs
    using packetsFor_told [OF assms(10-12), of "runPacket bs"] runPacket_codes [of bs] sizes [OF that] assms(9)
    by (simp add: signalPacket_def)
  then have p: "packetsFor (fd c) (drop (length (delivered L)) (delivered L')) = map (\<lambda>bs. signalPacket (signalCodes bs)) bss"
    using run(3) packetsFor_all [of bss "fd c" "\<lambda>bs. told (runPacket bs) (clientList L)"]
      packetsFor_goneOut [of "pipeTakes L" "fd c"] assms(13) by simp
  have "length (signalCodes bs) \<le> 8" if "bs \<in> set bss" for bs
    using length_signal_runs [of "butlast bs"] sizes [OF that] by (simp add: signalCodes_def)
  then have "list_all (\<lambda>cs. length cs \<le> 8) (map signalCodes bss)" by (simp add: list_all_iff)
  from recvCodes_signals [OF this, of "[]"] show ?thesis
    using run p by (auto simp: pendingWord_def written_def comp_def)
qed

theorem signal_reaches_lirc_witness:
  "\<exists>d' L' prev. handleIncomingPackets (map got [[0x03, 0x04, 0x82, 7], [0x82, 0x05, 7]]) devWorld0 = Inr (False, d')
    \<and> listenLoop (replicate 2 ReaderReady) (setDev d' (listenerOf (Some devWorld0) [\<lparr>fd = 5, receiving = IG_DEV_RECVON, c_version = 1\<rparr>]))
        = Inr (False, L')
    \<and> recvCodes (map readOf (packetsFor 5 (delivered L'))) (- 1) [] = Inr (False, prev, [0x010000C0, 128])"
proof -
  let ?L = "listenerOf (Some devWorld0) [\<lparr>fd = 5, receiving = IG_DEV_RECVON, c_version = 1\<rparr>]"
  let ?bss = "[[0x03, 0x04, 0x82, 7], [0x82, 0x05, 7]] :: byte list list"
  have c: "concat (map signalCodes ?bss) = [0x010000C0, 64, 64, 0x01000080]"
    by (simp add: signalCodes_def is_pulse_def ticks_def run_word_def)
  have w: "map lircWord (butlast (joinedRuns [0x010000C0, 64, 64, 0x01000080])) = [0x010000C0, 128]"
    by (simp add: level_def duration_def lircWord_def)
  have "\<exists>d' L' prev. handleIncomingPackets (map got ?bss) devWorld0 = Inr (False, d')
    \<and> listenLoop (replicate (length ?bss) ReaderReady) (setDev d' ?L) = Inr (False, L')
    \<and> recvCodes (map readOf (packetsFor (fd \<lparr>fd = 5, receiving = IG_DEV_RECVON, c_version = 1\<rparr>) (drop (length (delivered ?L)) (delivered L')))) (- 1) []
        = Inr (False, prev, map lircWord (butlast (joinedRuns (concat (map signalCodes ?bss)))))"
    by (rule signal_reaches_lirc [where cs = "[]" and cs' = "[]"])
       (simp_all add: is_signal_def listenerOf_def devWorld0_def modes_ok_def known_def)
  then show ?thesis unfolding c w by (simp add: listenerOf_def numeral_2_eq_2)
qed

section \<open>Sending\<close>

text \<open>
  What the plug-in needs of the daemon to send: a carrier can be set, it stays until it is set again, and
  a transmission that is confirmed is played with it.  \<open>transmitted d d' w\<close> says that the device was made
  to play \<open>w\<close> between the two states; \<open>encodes d f ps\<close> that the daemon can encode \<open>ps\<close> at a carrier.
\<close>

definition setCarrierRequest :: "nat \<Rightarrow> dataPacket" where
  "setCarrierRequest f = \<lparr>code = IG_DEV_SETCARRIER, dataLen = 4, data = Some (be_bytes 4 f)\<rparr>"

definition sendOf :: "u32 list \<Rightarrow> dataPacket" where
  "sendOf ps = \<lparr>code = IG_DEV_SEND, dataLen = int (4 * length ps), data = Some (pulseBytes ps)\<rparr>"

locale infrared_daemon =
  fixes ask :: "'d daemon" and ready :: "'d \<Rightarrow> bool" and carrierOf :: "'d \<Rightarrow> nat"
    and encodes :: "'d \<Rightarrow> nat \<Rightarrow> u32 list \<Rightarrow> bool" and transmitted :: "'d \<Rightarrow> 'd \<Rightarrow> bool list \<Rightarrow> bool"
  assumes sets_carrier: "ready d \<Longrightarrow> 25000 \<le> f \<Longrightarrow> f \<le> 150000 \<Longrightarrow>
      \<exists>p e. ask (setCarrierRequest f) d = Inr (Some p, e) \<and> code p \<noteq> IG_DEV_ERROR \<and> ready e \<and> carrierOf e = f
        \<and> encodes e = encodes d \<and> transmitted e = transmitted d"
    and sends_signal: "ready d \<Longrightarrow> length ps < 2 ^ 29 \<Longrightarrow> encodes d (carrierOf d) ps \<Longrightarrow> ask (sendOf ps) d = Inr (Some p, e) \<Longrightarrow>
      code p \<noteq> IG_DEV_ERROR \<Longrightarrow> transmitted d e (waveform (carrierOf d) False ps) \<and> carrierOf e = carrierOf d"
begin

text \<open>The carrier the plug-in remembers is the daemon's, once it has set one.\<close>

definition coherent :: "lirc \<Rightarrow> 'd \<Rightarrow> bool" where
  "coherent s d \<longleftrightarrow> currentCarrier s = - 1 \<or> carrierOf d = unat (currentCarrier s)"

lemma create_send: "length ps < 2 ^ 29 \<Longrightarrow> iguanaCreateRequest IG_DEV_SEND (word_of_nat (length (pulseBytes ps))) (Some (pulseBytes ps)) = sendOf ps"
proof -
  assume l: "length ps < 2 ^ 29"
  have "unat (word_of_nat (4 * length ps) :: u32) = 4 * length ps" using l by (intro unat_of_nat32) simp
  then have "uint (word_of_nat (4 * length ps) :: u32) = int (4 * length ps)" by (simp only: uint_nat)
  moreover have "in_s32 (int (4 * length ps))" using l by (simp add: in_s32_def)
  ultimately show ?thesis by (simp add: iguanaCreateRequest_def sendOf_def length_pulseBytes)
qed

lemma create_carrier: "iguanaCreateRequest IG_DEV_SETCARRIER (word_of_nat (length (be_bytes 4 f))) (Some (be_bytes 4 f)) = setCarrierRequest f"
  by (simp add: iguanaCreateRequest_def setCarrierRequest_def in_s32_def)

lemma carrier_transaction:
  assumes "ready d" "25000 \<le> f" "f \<le> 150000"
  shows "\<exists>e. daemonTransaction ask IG_DEV_SETCARRIER (Some (be_bytes 4 f)) d s = Inr (True, e, s) \<and> ready e \<and> carrierOf e = f
    \<and> encodes e = encodes d \<and> transmitted e = transmitted d"
  using sets_carrier [OF assms] create_carrier [of f]
  by (auto simp: daemonTransaction_def iguanaResponseIsError_def packetIsError_def)

lemma confirmed_send:
  assumes "daemonTransaction ask IG_DEV_SEND (Some (pulseBytes ps)) d s = Inr (ok, e, s')" "ready d" "length ps < 2 ^ 29"
    "encodes d (carrierOf d) ps" "ok"
  shows "transmitted d e (waveform (carrierOf d) False ps) \<and> carrierOf e = carrierOf d \<and> s' = s"
proof -
  obtain q f where q: "ask (sendOf ps) d = Inr (q, f)" "\<not> iguanaResponseIsError q" "f = e" "s' = s"
    using assms(1,5) create_send [OF assms(3)] by (auto simp: daemonTransaction_def res_simps split: if_splits)
  then obtain p where p: "q = Some p" "code p \<noteq> IG_DEV_ERROR"
    by (cases q) (auto simp: iguanaResponseIsError_def packetIsError_def split: if_splits)
  then show ?thesis using sends_signal [OF assms(2-4), of p f] q by simp
qed

lemma send_plays:
  assumes "iguana_send ask freq (Some xs) d s = Inr (r, e, s')" "ready d" "coherent s d" "25000 \<le> freq" "freq \<le> 100000"
    and "length xs < 2 ^ 29" "encodes d (unat freq) (map packSignal xs)" "r = 1"
  shows "transmitted d e (waveform (unat freq) False (map packSignal xs)) \<and> coherent s' e \<and> currentCarrier s' = freq"
proof -
  have f: "25000 \<le> unat freq" "unat freq \<le> 150000" using assms(4,5) by (auto simp: word_le_nat_alt)
  have "unat (- 1 :: u32) = 2 ^ 32 - 1" by (simp add: unsigned_minus_1_eq_mask mask_eq_exp_minus_1)
  then have n: "freq \<noteq> - 1" using f(2) by auto
  have "\<exists>d1 s1. (if freq \<noteq> currentCarrier s \<and> 25000 \<le> freq \<and> freq \<le> 100000
        then bind_res (daemonTransaction ask IG_DEV_SETCARRIER (Some (be_bytes 4 (unat freq))) d s) (\<lambda>(ok, d, s).
               Inr (d, if ok then s\<lparr>currentCarrier := freq\<rparr> else s))
        else Inr (d, s)) = Inr (d1, s1) \<and> ready d1 \<and> carrierOf d1 = unat freq \<and> currentCarrier s1 = freq
      \<and> encodes d1 = encodes d \<and> transmitted d1 = transmitted d"
  proof (cases "freq = currentCarrier s")
    case True
    then show ?thesis using assms(2,3) n by (auto simp: coherent_def)
  next
    case False
    then show ?thesis using carrier_transaction [OF assms(2) f(1,2), of s] assms(4,5) by auto
  qed
  then obtain d1 s1 where 1: "bind_res (daemonTransaction ask IG_DEV_SEND (Some (pulseBytes (map packSignal xs))) d1 s1)
        (\<lambda>(ok, d, s). Inr (if ok then 1 else 0, d, s)) = Inr (r, e, s')"
      "ready d1" "carrierOf d1 = unat freq" "currentCarrier s1 = freq" "encodes d1 = encodes d" "transmitted d1 = transmitted d"
    using assms(1) by (auto simp: iguana_send_def)
  then obtain ok where ok: "daemonTransaction ask IG_DEV_SEND (Some (pulseBytes (map packSignal xs))) d1 s1 = Inr (ok, e, s')" "ok"
    using assms(8) by (auto simp: res_simps split: if_splits)
  from confirmed_send [OF ok(1) 1(2) _ _ ok(2)] show ?thesis
    using 1 assms(6,7) by (simp add: coherent_def)
qed

end

text \<open>The daemon the plug-in talks to is the listener of the device; the plug-in is its client at position \<open>i\<close>.\<close>

definition daemonAsk :: "nat \<Rightarrow> listener daemon" where
  "daemonAsk i r L = bind_res (handleClient i (Some r) True L) (\<lambda>(_, L). Inr (Some (snd (last (delivered L))), L))"

definition readyFor :: "nat \<Rightarrow> listener \<Rightarrow> bool" where
  "readyFor i L \<longleftrightarrow> i < length (clientList L) \<and> c_version (clientList L ! i) = 1
     \<and> (case idev L of None \<Rightarrow> False | Some d \<Rightarrow> current d \<and> 0x101 \<le> version d)"

definition carrierAt :: "listener \<Rightarrow> nat" where
  "carrierAt L = (case idev L of None \<Rightarrow> 0 | Some d \<Rightarrow> unat (carrier d))"

definition encodesAt :: "listener \<Rightarrow> nat \<Rightarrow> u32 list \<Rightarrow> bool" where
  "encodesAt L f ps \<longleftrightarrow> waveform f False ps \<noteq> [] \<and> sendFits L f ps
     \<and> (case idev L of None \<Rightarrow> False | Some d \<Rightarrow> 8 \<le> version d AND 0xFF \<longrightarrow> ver1_faithful f False ps)"

definition transmittedBy :: "listener \<Rightarrow> listener \<Rightarrow> bool list \<Rightarrow> bool" where
  "transmittedBy L L' w \<longleftrightarrow> (\<exists>d d' msg chunks. idev L = Some d \<and> idev L' = Some d' \<and> sent d' = sent d @ msg # chunks
     \<and> (\<forall>fw. plays d fw (msg # chunks) = Some (True, w)))"

lemma daemonAsk_carrier:
  assumes "readyFor i L" "25000 \<le> f" "f \<le> 150000"
  shows "\<exists>p L'. daemonAsk i (setCarrierRequest f) L = Inr (Some p, L') \<and> code p \<noteq> IG_DEV_ERROR \<and> readyFor i L' \<and> carrierAt L' = f
    \<and> encodesAt L' = encodesAt L \<and> transmittedBy L' = transmittedBy L"
proof -
  obtain d where d: "idev L = Some d" "current d" "0x101 \<le> version d"
    using assms(1) by (auto simp: readyFor_def split: option.splits)
  let ?c = "clientList L ! i" and ?v = "clampCarrier (word_of_nat (be_nat (be_bytes 4 f)))"
  let ?p = "\<lparr>code = IG_DEV_SETCARRIER, dataLen = 4, data = Some (be_bytes 4 (unat ?v))\<rparr>"
  let ?d = "d\<lparr>errno := EINVAL, carrier := ?v\<rparr>"
  have c: "c_version ?c = 1" "i < length (clientList L)" using assms(1) by (simp_all add: readyFor_def)
  have "handleClientRequest (setCarrierRequest f) ?c L = Inr (True, ?p, ?c, L\<lparr>idev := Some ?d\<rparr>)"
    using setCarrier_run [OF c(1) d(1,3), of "be_bytes 4 f"] by (simp add: setCarrierRequest_def)
  then have run: "daemonAsk i (setCarrierRequest f) L
      = Inr (Some ?p, L\<lparr>idev := Some ?d, delivered := delivered L @ [(fd ?c, ?p)]\<rparr>)"
    by (simp add: daemonAsk_def handleClient_def)
  have b: "word_of_nat (be_nat (be_bytes 4 f)) = (word_of_nat f :: u32)"
    using assms(3) by (simp add: be_nat_be_bytes)
  have u: "unat (word_of_nat f :: u32) = f" using assms(3) by (intro unat_of_nat32) simp
  have "unat ?v = f" using assms(2,3) u unfolding b by (simp add: clampCarrier_def word_less_nat_alt)
  moreover have "current ?d \<longleftrightarrow> current d" by (simp add: current_def)
  moreover have "plays ?d = plays d" by (simp add: plays_def fun_eq_iff split: list.split)
  ultimately show ?thesis
    using run d c by (simp add: readyFor_def carrierAt_def encodesAt_def transmittedBy_def sendFits_def compressionOf_def fun_eq_iff)
qed

lemma daemonAsk_send:
  assumes "readyFor i L" "length ps < 2 ^ 29" "encodesAt L (carrierAt L) ps" "daemonAsk i (sendOf ps) L = Inr (Some p, L')"
    "code p \<noteq> IG_DEV_ERROR"
  shows "transmittedBy L L' (waveform (carrierAt L) False ps) \<and> carrierAt L' = carrierAt L"
proof -
  obtain d where d: "idev L = Some d" "current d" using assms(1) by (auto simp: readyFor_def split: option.splits)
  let ?c = "clientList L ! i"
  have c: "c_version ?c = 1" using assms(1) by (simp add: readyFor_def)
  obtain ok r' c' M where M: "handleClientRequest (sendOf ps) ?c L = Inr (ok, r', c', M)"
    using assms(4) by (cases "handleClientRequest (sendOf ps) ?c L") (auto simp: daemonAsk_def handleClient_def)
  have ok
  proof (rule ccontr)
    assume "\<not> ok"
    then show False using assms(4,5) M by (auto simp: daemonAsk_def handleClient_def errorAnswer_def)
  qed
  then have run: "handleClientRequest \<lparr>code = IG_DEV_SEND, dataLen = int (4 * length ps), data = Some (pulseBytes ps)\<rparr> ?c L
      = Inr (True, r', c', M)" using M by (simp add: sendOf_def)
  obtain d' control chunks where d': "idev M = Some d'" "carrier d' = carrier d" "c' = ?c" "code r' = IG_DEV_SEND"
    "sent d' = sent d @ control # chunks"
    "\<And>fw. plays d fw (control # chunks) = Some (True, waveform (unat (carrier d)) False ps)"
    using send_arrives [OF c d assms(2) _ _ _ run] assms(3) d(1) by (auto simp: encodesAt_def carrierAt_def)
  have "idev L' = idev M" using assms(4) M \<open>ok\<close> d'(4) by (auto simp: daemonAsk_def handleClient_def)
  then show ?thesis using d d' by (auto simp: transmittedBy_def carrierAt_def)
qed

interpretation served: infrared_daemon "daemonAsk i" "readyFor i" carrierAt encodesAt transmittedBy for i
  by unfold_locales (fact daemonAsk_carrier, fact daemonAsk_send)

lemma packSignal_duration: "packSignal x AND IG_PULSE_MASK = x AND IG_PULSE_MASK"
proof -
  have "(0x1000000 :: u32) AND 0xFFFFFF = 0" by simp
  then show ?thesis by (simp add: packSignal_def and.assoc bit.conj_disj_distrib2)
qed

lemma waveform_packed: "waveform f p (map packSignal xs) = waveform f p xs"
  by (induction xs arbitrary: p) (simp_all add: pulseCycles_def packSignal_duration)


definition lircListener :: listener where
  "lircListener = listenerOf (Some sendWorld) [\<lparr>fd = 5, receiving = 0, c_version = 1\<rparr>]"

lemma lircListener_sel:
  "clientList lircListener = [\<lparr>fd = 5, receiving = 0, c_version = 1\<rparr>]" "idev lircListener = Some sendWorld"
  by (simp_all add: lircListener_def listenerOf_def)

lemma pack_800: "packSignal 0x01000320 = 0x01000320"
  by (simp add: packSignal_def)

lemma lircListener_sends:
  "\<exists>L'. daemonTransaction (daemonAsk 0) IG_DEV_SEND (Some (pulseBytes [0x01000320])) lircListener s = Inr (True, L', s)"
proof -
  obtain r' c' M where h: "handleClientRequest \<lparr>code = IG_DEV_SEND, dataLen = int (4 * length [0x01000320 :: u32]), data = Some (pulseBytes [0x01000320])\<rparr>
      \<lparr>fd = 5, receiving = 0, c_version = 1\<rparr> lircListener = Inr (True, r', c', M)"
    using sendWorld_request unfolding lircListener_def by blast
  have w: "waveform 38000 False [0x01000320] \<noteq> []" by (simp add: pulseCycles_eval)
  have c: "code r' = IG_DEV_SEND"
    using sendWorld_answered(1) [OF lircListener_sel h] .
  have q: "iguanaCreateRequest IG_DEV_SEND (word_of_nat (length (pulseBytes [0x01000320 :: u32]))) (Some (pulseBytes [0x01000320]))
      = \<lparr>code = IG_DEV_SEND, dataLen = int (4 * length [0x01000320 :: u32]), data = Some (pulseBytes [0x01000320])\<rparr>"
    by (simp add: iguanaCreateRequest_def length_pulseBytes in_s32_def)
  show ?thesis
    using h c by (simp add: daemonTransaction_def q daemonAsk_def handleClient_def lircListener_sel iguanaResponseIsError_def packetIsError_def)
qed


text \<open>
  The carrier the plug-in remembers is not the daemon's when another client has set one: a code for the
  remembered carrier is then sent without setting it, and success is reported for a signal that was
  played at the other client's carrier.
\<close>

theorem remembered_carrier_is_stale:
  assumes "readyFor i L" "currentCarrier s = freq" "carrierAt L \<noteq> unat freq" "length xs < 2 ^ 29"
    and "encodesAt L (carrierAt L) (map packSignal xs)" "iguana_send (daemonAsk i) freq (Some xs) L s = Inr (1, L', s')"
  shows "transmittedBy L L' (waveform (carrierAt L) False xs) \<and> carrierAt L' \<noteq> unat freq"
proof -
  obtain ok where "daemonTransaction (daemonAsk i) IG_DEV_SEND (Some (pulseBytes (map packSignal xs))) L s = Inr (ok, L', s')" "ok"
    using assms(2,6) by (auto simp: iguana_send_def res_simps split: if_splits)
  from served.confirmed_send [OF this(1) assms(1) _ assms(5) this(2)] show ?thesis
    using assms(3,4) by (simp add: waveform_packed)
qed

theorem remembered_carrier_is_stale_witness:
  "\<exists>L'. iguana_send (daemonAsk 0) 56000 (Some [0x01000320]) lircListener (lirc0\<lparr>currentCarrier := 56000\<rparr>)
      = Inr (1, L', lirc0\<lparr>currentCarrier := 56000\<rparr>)
    \<and> transmittedBy lircListener L' (replicate 30 True)"
proof -
  let ?s = "lirc0\<lparr>currentCarrier := 56000\<rparr>"
  obtain L' where "daemonTransaction (daemonAsk 0) IG_DEV_SEND (Some (pulseBytes [0x01000320])) lircListener ?s = Inr (True, L', ?s)"
    using lircListener_sends by blast
  then have run: "iguana_send (daemonAsk 0) 56000 (Some [0x01000320]) lircListener ?s = Inr (1, L', ?s)"
    by (simp add: iguana_send_def pack_800)
  have w: "waveform 38000 False [0x01000320] = replicate 30 True" by (simp add: pulseCycles_eval)
  have "readyFor 0 lircListener" by (simp add: readyFor_def lircListener_sel sendWorld_sel)
  moreover have c: "carrierAt lircListener = 38000" by (simp add: carrierAt_def lircListener_sel sendWorld_sel)
  moreover have "encodesAt lircListener 38000 [0x01000320]"
    using w sendWorld_fits [OF lircListener_sel(2)] by (simp add: encodesAt_def lircListener_sel sendWorld_sel)
  ultimately show ?thesis using remembered_carrier_is_stale [OF _ _ _ _ _ run] run w pack_800 by simp
qed

section \<open>Transmitters\<close>

definition featuresRequest :: dataPacket where
  "featuresRequest = \<lparr>code = IG_DEV_GETFEATURES, dataLen = 0, data = None\<rparr>"

lemma version_bounds: "current d \<Longrightarrow> 4 \<le> version d" "current d \<Longrightarrow> 5 \<le> version d"
  by (simp_all add: current_def word_le_nat_alt)

lemma daemonAsk_features:
  assumes "readyFor i L" "idev L = Some d"
  shows "daemonAsk i featuresRequest L = Inr (Some \<lparr>code = IG_DEV_GETFEATURES, dataLen = 1, data = Some [features d]\<rparr>,
    L\<lparr>idev := Some (d\<lparr>errno := EINVAL\<rparr>),
      delivered := delivered L @ [(fd (clientList L ! i), \<lparr>code = IG_DEV_GETFEATURES, dataLen = 1, data = Some [features d]\<rparr>)]\<rparr>)"
proof -
  have d: "current d" "0x101 \<le> version d" "c_version (clientList L ! i) = 1" "i < length (clientList L)"
    using assms by (simp_all add: readyFor_def)
  have v: "516 \<le> version d \<or> (version d \<le> 515 \<and> \<not> 516 \<le> version d)" by (auto simp: word_le_nat_alt)
  have known: "checkFeatures (d\<lparr>errno := EINVAL\<rparr>) UNKNOWN_FEATURES = Inr (True, d\<lparr>errno := EINVAL\<rparr>)"
    using d(1) by (auto simp: checkFeatures_def current_def)
  have "handleClientRequest featuresRequest (clientList L ! i) L
      = Inr (True, \<lparr>code = IG_DEV_GETFEATURES, dataLen = 1, data = Some [features d]\<rparr>, clientList L ! i, L\<lparr>idev := Some (d\<lparr>errno := EINVAL\<rparr>)\<rparr>)"
    using d(1-3) assms(2) v known
    by (elim disjE) (simp_all add: featuresRequest_def switch_simps getFeatures_def answer_def)
  then show ?thesis by (simp add: daemonAsk_def handleClient_def)
qed

lemma daemonAsk_channels:
  assumes "readyFor i L" "idev L = Some d"
  shows "daemonAsk i \<lparr>code = IG_DEV_SETCHANNELS, dataLen = 1, data = Some [b]\<rparr> L
    = Inr (Some \<lparr>code = IG_DEV_SETCHANNELS, dataLen = 1, data = Some [b]\<rparr>,
        L\<lparr>idev := Some (d\<lparr>errno := EINVAL, channels := push_bit (if features d = IG_SLOT_DEV then 2 else 4) b\<rparr>),
          delivered := delivered L @ [(fd (clientList L ! i), \<lparr>code = IG_DEV_SETCHANNELS, dataLen = 1, data = Some [b]\<rparr>)]\<rparr>)"
proof -
  have d: "current d" "c_version (clientList L ! i) = 1" "i < length (clientList L)"
    using assms by (simp_all add: readyFor_def)
  have "handleClientRequest \<lparr>code = IG_DEV_SETCHANNELS, dataLen = 1, data = Some [b]\<rparr> (clientList L ! i) L
      = Inr (True, \<lparr>code = IG_DEV_SETCHANNELS, dataLen = 1, data = Some [b]\<rparr>, clientList L ! i,
          L\<lparr>idev := Some (d\<lparr>errno := EINVAL, channels := push_bit (if features d = IG_SLOT_DEV then 2 else 4) b\<rparr>)\<rparr>)"
    using d(1,2) assms(2) version_bounds [OF d(1)]
    by (simp add: switch_simps known_features setChannels_def byte_at_def current_def)
  then show ?thesis by (simp add: daemonAsk_def handleClient_def)
qed

lemma channels_fit:
  assumes "chans AND NOT (snd (transmitterMask f)) = 0"
  shows "drop_bit (if f = IG_SLOT_DEV then 2 else 4) (push_bit (if f = IG_SLOT_DEV then 2 else 4) (ucast chans) :: byte) = ucast (chans :: u32)"
proof -
  define k where "k = (if f = IG_SLOT_DEV then 2 else 4 :: nat)"
  have m: "snd (transmitterMask f) = mask (8 - k)" by (simp add: transmitterMask_def k_def mask_numeral)
  have "\<not> bit chans n" if "8 - k \<le> n" "n < 8" for n
  proof
    assume "bit chans n"
    then have "bit (chans AND NOT (mask (8 - k))) n" using that by (simp add: bit_simps)
    then show False using assms m by simp
  qed
  then have high: "bit chans n \<Longrightarrow> n < 8 \<Longrightarrow> n < 8 - k" for n by (meson not_less)
  have "drop_bit k (push_bit k (ucast chans) :: byte) = ucast chans"
  proof (rule bit_word_eqI)
    fix n assume "n < LENGTH(8)"
    then have "n < 8" by simp
    then show "bit (drop_bit k (push_bit k (ucast chans)) :: byte) n \<longleftrightarrow> bit (ucast chans :: byte) n"
      using high [of n] by (cases "bit chans n") (auto simp: bit_simps)
  qed
  then show ?thesis by (simp only: k_def)
qed

text \<open>
  Selecting transmitters selects them: a mask the device has channels for is accepted and stored in the
  device's record, every bit at the channel's place, whether the plug-in knows the kind of device already
  or has to ask; a mask with any other bit gets the number of transmitters and changes no channel.
\<close>

theorem transmitters_are_selected:
  assumes "readyFor i L" "idev L = Some d" "l_features s = 0 \<or> l_features s = features d"
  shows "\<exists>r L' s' d'. set_transmitters (daemonAsk i) chans L s = Inr (r, L', s') \<and> idev L' = Some d' \<and> l_features s' = features d
    \<and> (if chans AND NOT (snd (transmitterMask (features d))) = 0
       then r = 0 \<and> drop_bit (if features d = IG_SLOT_DEV then 2 else 4) (channels d') = ucast chans
       else r = fst (transmitterMask (features d)) \<and> channels d' = channels d)"
proof -
  have "\<exists>M s1. (if l_features s = 0
        then bind_res (daemonTransaction (daemonAsk i) IG_DEV_GETFEATURES None L s) (\<lambda>(_, d, s). Inr (d, s)) else Inr (L, s)) = Inr (M, s1)
      \<and> l_features s1 = features d \<and> readyFor i M \<and> (\<exists>e. idev M = Some e \<and> features e = features d \<and> channels e = channels d)"
  proof (cases "l_features s = 0")
    case True
    have "iguanaCreateRequest IG_DEV_GETFEATURES 0 None = featuresRequest" by (simp add: iguanaCreateRequest_def featuresRequest_def in_s32_def)
    then show ?thesis
      using True daemonAsk_features [OF assms(1,2)] assms(1,2)
      by (simp add: daemonTransaction_def iguanaResponseIsError_def packetIsError_def iguanaRemoveData_def byte_at_def readyFor_def current_def)
  next
    case False
    then show ?thesis using assms by auto
  qed
  then obtain M s1 e where M: "(if l_features s = 0
        then bind_res (daemonTransaction (daemonAsk i) IG_DEV_GETFEATURES None L s) (\<lambda>(_, d, s). Inr (d, s)) else Inr (L, s)) = Inr (M, s1)"
    "l_features s1 = features d" "readyFor i M" "idev M = Some e" "features e = features d" "channels e = channels d" by blast
  have q: "iguanaCreateRequest IG_DEV_SETCHANNELS (word_of_nat (length [b])) (Some [b]) = \<lparr>code = IG_DEV_SETCHANNELS, dataLen = 1, data = Some [b]\<rparr>" for b
    by (simp add: iguanaCreateRequest_def in_s32_def)
  obtain n m where tm: "transmitterMask (features d) = (n, m)" by (cases "transmitterMask (features d)")
  show ?thesis
  proof (cases "chans AND NOT m = 0")
    case True
    then have fit: "drop_bit (if features d = IG_SLOT_DEV then 2 else 4) (push_bit (if features d = IG_SLOT_DEV then 2 else 4) (ucast chans) :: byte) = ucast chans"
      using channels_fit [of chans "features d"] tm by simp
    obtain N where N: "daemonTransaction (daemonAsk i) IG_DEV_SETCHANNELS (Some [ucast chans]) M s1 = Inr (True, N, s1)"
      "idev N = Some (e\<lparr>errno := EINVAL, channels := push_bit (if features d = IG_SLOT_DEV then 2 else 4) (ucast chans)\<rparr>)"
      using daemonAsk_channels [OF M(3,4), of "ucast chans"] M(5)
      by (simp add: daemonTransaction_def q [simplified] iguanaResponseIsError_def packetIsError_def)
    then have "set_transmitters (daemonAsk i) chans L s = Inr (0, N, s1)"
      using M(1,2) True tm by (simp add: set_transmitters_def)
    then show ?thesis using N(2) M(2) True tm fit by simp
  next
    case False
    then have "set_transmitters (daemonAsk i) chans L s = Inr (n, M, s1)" using M(1,2) tm by (simp add: set_transmitters_def)
    then show ?thesis using M(2,4,6) False tm by simp
  qed
qed

theorem transmitters_are_selected_witness:
  "\<exists>L' s' d'. set_transmitters (daemonAsk 0) 5 lircListener lirc0 = Inr (0, L', s') \<and> idev L' = Some d' \<and> drop_bit 4 (channels d') = 5"
proof -
  have "readyFor 0 lircListener" "features sendWorld = 0"
    by (simp_all add: readyFor_def lircListener_sel sendWorld_sel) (simp add: sendWorld_def)
  then show ?thesis
    using transmitters_are_selected [of 0 lircListener sendWorld lirc0 5]
    by (fastforce simp: lircListener_sel lirc0_def transmitterMask_def)
qed

section \<open>Devices\<close>

lemma takeWhile_stop:
  assumes "list_all (\<lambda>b. \<not> P b) xs" "ys = [] \<or> P (hd ys)"
  shows "takeWhile (\<lambda>b. \<not> P b) (xs @ ys) = xs" "dropWhile (\<lambda>b. \<not> P b) (xs @ ys) = ys"
proof -
  have "takeWhile (\<lambda>b. \<not> P b) ys = [] \<and> dropWhile (\<lambda>b. \<not> P b) ys = ys" using assms(2) by (cases ys) auto
  then show "takeWhile (\<lambda>b. \<not> P b) (xs @ ys) = xs" "dropWhile (\<lambda>b. \<not> P b) (xs @ ys) = ys"
    using assms(1) by (induction xs) auto
qed

lemma listLoop_fault:
  assumes "name \<noteq> []" "list_all (\<lambda>b. \<not> endOfEntry k b) name" "rest = [] \<or> endOfEntry k (hd rest)" "listEntry k name idx = Inl f"
  shows "listLoop (k # x # name @ rest) idx devices = Inl f"
  using assms takeWhile_stop [OF assms(2,3)] by (subst listLoop.simps) simp

lemma listLoop_entry:
  assumes "name \<noteq> []" "list_all (\<lambda>b. \<not> endOfEntry k b) name" "rest = [] \<or> endOfEntry k (hd rest)" "listEntry k name idx = Inr (p, idx')"
  shows "listLoop (k # x # name @ rest) idx devices = listLoop (drop 1 rest) idx' (devices @ [p])"
  using assms takeWhile_stop [OF assms(2,3)] by (subst listLoop.simps) simp

lemma path_lengths: "length IGSOCK_NAME = 18" "length (str '' [1781:0938]'') = 12" "length (str '' ->'') = 3"
  by (simp_all add: IGSOCK_NAME_def str_def)

text \<open>What lirc should be offered for a device: its socket, and its aliases with the socket they stand for.\<close>

definition aliasPath :: "cstring \<Rightarrow> cstring option \<Rightarrow> cstring list" where
  "aliasPath idx a = (case a of None \<Rightarrow> [] | Some n \<Rightarrow> [IGSOCK_NAME @ n @ str '' ->'' @ IGSOCK_NAME @ idx])"

definition devicePaths :: "'a iguanaDev_scheme \<Rightarrow> cstring list" where
  "devicePaths d =
     (IGSOCK_NAME @ dec (devId d) @ str '' [1781:0938]'') # aliasPath (dec (devId d)) (locAlias d) @ aliasPath (dec (devId d)) (userAlias d)"

text \<open>Aliases the list can carry: short, not empty, without the characters that end them.\<close>

definition listable :: "'a iguanaDev_scheme \<Rightarrow> bool" where
  "listable d \<longleftrightarrow> devId d < 10 ^ 7
     \<and> (case locAlias d of None \<Rightarrow> True | Some a \<Rightarrow> a \<noteq> [] \<and> length a \<le> 12 \<and> bar_char \<notin> set a \<and> comma_char \<notin> set a)
     \<and> (case userAlias d of None \<Rightarrow> True | Some a \<Rightarrow> a \<noteq> [] \<and> length a \<le> 12 \<and> bar_char \<notin> set a)"

lemma listEntry_device:
  assumes "n < 10 ^ 7"
  shows "listEntry 0x69 (dec n) idx = Inr (IGSOCK_NAME @ dec n @ str '' [1781:0938]'', Some (IGSOCK_NAME @ dec n))"
  using dec_length [of n 6] assms path_lengths by (simp add: listEntry_def)

lemma listEntry_alias:
  assumes "length a \<le> 12" "n < 10 ^ 7" "k = 0x6C \<or> k = 0x75"
  shows "listEntry k a (Some (IGSOCK_NAME @ dec n))
    = Inr (IGSOCK_NAME @ a @ str '' ->'' @ IGSOCK_NAME @ dec n, Some (IGSOCK_NAME @ dec n))"
  using dec_length [of n 6] assms path_lengths by (auto simp: listEntry_def)

lemma dec_entry: "list_all (\<lambda>b. \<not> endOfEntry 0x69 b) (dec n)"
  using dec_digits [of _ n] by (fastforce simp: list_all_iff endOfEntry_def isDigit_def)

lemma listLoop_alias:
  assumes "a = None \<or> (\<exists>t. a = Some t \<and> t \<noteq> [] \<and> length t \<le> 12 \<and> list_all (\<lambda>b. \<not> endOfEntry k b) t)"
    and "n < 10 ^ 7" "k = 0x6C \<or> k = 0x75" "rest = [] \<or> endOfEntry k (hd rest)"
  shows "listLoop (drop 1 ((case a of None \<Rightarrow> [] | Some t \<Rightarrow> comma_char # k # 0x3A # t) @ rest)) (Some (IGSOCK_NAME @ dec n)) devices
    = listLoop (drop 1 rest) (Some (IGSOCK_NAME @ dec n)) (devices @ aliasPath (dec n) a)"
proof (cases a)
  case (Some t)
  then show ?thesis
    using assms listLoop_entry [of t k rest, OF _ _ assms(4) listEntry_alias [OF _ assms(2,3)]] by (auto simp: aliasPath_def)
qed (simp add: aliasPath_def)

lemma listLoop_device:
  assumes "listable d" "rest = [] \<or> hd rest = bar_char"
  shows "listLoop (summaryOf d @ rest) idx devices
    = listLoop (drop 1 rest) (Some (IGSOCK_NAME @ dec (devId d))) (devices @ devicePaths d)"
proof -
  let ?loc = "case locAlias d of None \<Rightarrow> [] | Some t \<Rightarrow> comma_char # 0x6C # 0x3A # t"
  let ?user = "case userAlias d of None \<Rightarrow> [] | Some t \<Rightarrow> comma_char # 0x75 # 0x3A # t"
  let ?i = "Some (IGSOCK_NAME @ dec (devId d))"
  have n: "devId d < 10 ^ 7" using assms(1) by (simp add: listable_def)
  have t: "summaryOf d @ rest = 0x69 # 0x3A # dec (devId d) @ ?loc @ ?user @ rest"
    by (simp add: summaryOf_def aliasText_def str_def split: option.split)
  have e: "endOfEntry k bar_char" for k by (simp add: endOfEntry_def)
  have e2: "?user @ rest = [] \<or> endOfEntry 0x6C (hd (?user @ rest))"
    using assms(2) by (auto simp: endOfEntry_def split: option.split)
  have e1: "?loc @ ?user @ rest = [] \<or> endOfEntry 0x69 (hd (?loc @ ?user @ rest))"
    using e2 by (auto simp: endOfEntry_def split: option.split)
  have l: "locAlias d = None \<or> (\<exists>t. locAlias d = Some t \<and> t \<noteq> [] \<and> length t \<le> 12 \<and> list_all (\<lambda>b. \<not> endOfEntry 0x6C b) t)"
    using assms(1) by (auto simp: listable_def endOfEntry_def list_all_iff split: option.splits)
  have u: "userAlias d = None \<or> (\<exists>t. userAlias d = Some t \<and> t \<noteq> [] \<and> length t \<le> 12 \<and> list_all (\<lambda>b. \<not> endOfEntry 0x75 b) t)"
    using assms(1) by (auto simp: listable_def endOfEntry_def list_all_iff split: option.splits)
  have e3: "rest = [] \<or> endOfEntry 0x75 (hd rest)" using assms(2) e by auto
  let ?dev = "devices @ [IGSOCK_NAME @ dec (devId d) @ str '' [1781:0938]'']"
  have "listLoop (summaryOf d @ rest) idx devices = listLoop (drop 1 (?loc @ ?user @ rest)) ?i ?dev"
    unfolding t by (rule listLoop_entry [OF dec_nonempty dec_entry e1 listEntry_device [OF n]])
  also have "\<dots> = listLoop (drop 1 (?user @ rest)) ?i (?dev @ aliasPath (dec (devId d)) (locAlias d))"
    by (rule listLoop_alias [OF l n _ e2]) simp
  also have "\<dots> = listLoop (drop 1 rest) ?i ((?dev @ aliasPath (dec (devId d)) (locAlias d)) @ aliasPath (dec (devId d)) (userAlias d))"
    by (rule listLoop_alias [OF u n _ e3]) simp
  finally show ?thesis by (simp add: devicePaths_def)
qed

lemma listLoop_devices:
  "list_all listable (d # ds) \<Longrightarrow>
     listLoop (joinBar (map summaryOf (d # ds))) idx devices = Inr (devices @ concat (map devicePaths (d # ds)))"
proof (induction ds arbitrary: d idx devices)
  case Nil
  then show ?case using listLoop_device [of d "[]" idx devices] by (simp add: listLoop.simps [of "[]"])
next
  case (Cons e es)
  have "joinBar (map summaryOf (d # e # es)) = summaryOf d @ bar_char # joinBar (map summaryOf (e # es))" by simp
  then have "listLoop (joinBar (map summaryOf (d # e # es))) idx devices
      = listLoop (joinBar (map summaryOf (e # es))) (Some (IGSOCK_NAME @ dec (devId d))) (devices @ devicePaths d)"
    using listLoop_device [of d "bar_char # joinBar (map summaryOf (e # es))" idx devices] Cons.prems by simp
  then show ?case using Cons.IH [of e] Cons.prems by simp
qed

text \<open>
  lirc is offered every device the daemon knows: from the text the daemon lists its devices with, the
  plug-in makes the path of each device's socket and of each of its aliases, in order, and none else, and
  keeps inside of its buffers, for aliases of up to twelve characters.
\<close>

theorem lirc_lists_all_devices:
  assumes "list_all listable ds"
  shows "\<exists>t. deviceSummary ds = Inr t \<and> list_devices t = Inr (concat (map devicePaths ds))"
proof (cases ds)
  case Nil
  then show ?thesis by (simp add: deviceSummary_eq list_devices_def)
next
  case (Cons d es)
  have "list_all (\<lambda>d. length (dec (devId d)) < 8) ds"
    using assms dec_length [of _ 6] by (fastforce simp: list_all_iff listable_def)
  then have "deviceSummary ds = Inr (Some (joinBar (map summaryOf ds)))" using Cons by (simp add: deviceSummary_eq)
  then show ?thesis using listLoop_devices [of d es None "[]"] assms Cons by (simp add: list_devices_def)
qed

theorem lirc_lists_all_devices_witness:
  "\<exists>t. deviceSummary [exampleDev 3 ''1-2'' (Some ''tv'')] = Inr t
     \<and> list_devices t = Inr [str ''/var/run/iguanaIR/3 [1781:0938]'', str ''/var/run/iguanaIR/1-2 ->/var/run/iguanaIR/3'',
         str ''/var/run/iguanaIR/tv ->/var/run/iguanaIR/3'']"
  using lirc_lists_all_devices [of "[exampleDev 3 ''1-2'' (Some ''tv'')]"]
  by (simp add: example_simps listable_def devicePaths_def aliasPath_def IGSOCK_NAME_def dec.simps)

text \<open>
  A label of thirteen characters or more overruns the plug-in's buffer: the daemon itself cuts labels
  at twelve, but the plug-in copies whatever the list has.
\<close>

lemma lirc_long_alias_overflows:
  assumes "12 < length a" "bar_char \<notin> set a" "devId d < 10 ^ 7" "locAlias d = None" "userAlias d = Some a"
  shows "list_devices (Some (summaryOf d)) = Inl OutOfBounds"
proof -
  have t: "summaryOf d = 0x69 # 0x3A # dec (devId d) @ comma_char # 0x75 # 0x3A # a"
    using assms(4,5) by (simp add: summaryOf_def aliasText_def str_def)
  have "listLoop (summaryOf d) None [] = listLoop (0x75 # 0x3A # a) (Some (IGSOCK_NAME @ dec (devId d))) [IGSOCK_NAME @ dec (devId d) @ str '' [1781:0938]'']"
    unfolding t using listLoop_entry [OF dec_nonempty dec_entry _ listEntry_device [OF assms(3)], of "comma_char # 0x75 # 0x3A # a" "0x3A" None "[]"]
    by (simp add: endOfEntry_def)
  moreover have "listLoop (0x75 # 0x3A # a @ []) i ds = Inl OutOfBounds" for i ds
    by (rule listLoop_fault) (use assms(1,2) in \<open>auto simp: list_all_iff endOfEntry_def listEntry_def\<close>)
  ultimately show ?thesis by (simp add: list_devices_def)
qed

section \<open>Starting and stopping\<close>

text \<open>Stopping undoes starting: no descriptor, child or connection is left, if the child can be waited for.\<close>

lemma start_and_stop:
  assumes "iguana_init e s = (1, t)" "recvPipe e \<noteq> Some (- 1)" "0 < forked e" "fst r \<or> \<not> snd r"
  shows "iguana_deinit r t = (True, s\<lparr>sendConn := - 1, child := 0, drvFd := - 1\<rparr>)"
  using assms by (auto simp: iguana_init_def iguana_deinit_def killChildProcess_def Let_def split: option.splits if_splits)

text \<open>A failed start leaves descriptors open: all four when \<open>fork\<close> fails, one when the daemon is not there.\<close>

lemma failed_fork_leaks:
  "recvPipe e = Some f \<Longrightarrow> notifyPipe e \<Longrightarrow> forked e = - 1 \<Longrightarrow>
     iguana_init e s = (0, s\<lparr>openFds := openFds s + 4, drvFd := f, child := - 1\<rparr>)"
  by (simp add: iguana_init_def)

lemma refused_connection_leaks:
  "recvPipe e = Some f \<Longrightarrow> notifyPipe e \<Longrightarrow> 0 < forked e \<Longrightarrow> connected e = - 1 \<Longrightarrow>
     fst (iguana_init e s) = 0 \<and> openFds (snd (iguana_init e s)) = openFds s + 1"
  by (simp add: iguana_init_def killChildProcess_def Let_def)

end
