(* ===== verification/Example_Program.thy ===== *)
theory Example_Program
  imports Lirc_Properties
begin

text \<open>
  \<open>examples/example1.c\<close>, the program the repository gives as a pattern for clients: it asks a device for the
  version of its firmware and sends a signal.  The daemon is an argument, as for the lirc plug-in, and so is
  whether a request can be written.
\<close>

datatype said = ConnectFailed | WriteFailed | ResponseFailed | FirmwareVersion u32 | SendSuccessful

text \<open>The two bytes of the answer as a \<open>short\<close>, in the way \<open>printf\<close> gets it.\<close>

definition versionShown :: "byte list \<Rightarrow> u32" where
  "versionShown bs = scast (word_of_nat (le_nat bs) :: u16)"

definition exampleVersion :: "'d daemon \<Rightarrow> bool \<Rightarrow> 'd \<Rightarrow> (said \<times> 'd) res" where
  "exampleVersion ask writable d =
     (if \<not> writable then Inr (WriteFailed, d)
      else bind_res (ask (iguanaCreateRequest IG_DEV_GETVERSION 0 None) d) (\<lambda>(resp, d).
        if iguanaResponseIsError resp then Inr (ResponseFailed, d)
        else bind_res (read_bytes (fst (iguanaRemoveData resp)) 2) (\<lambda>bs. Inr (FirmwareVersion (versionShown bs), d))))"

definition exampleBuffer :: "u32 list" where
  "exampleBuffer = [8000 OR IG_PULSE_BIT, 1000, 8000 OR IG_PULSE_BIT, 100, 800 OR IG_PULSE_BIT, 100, 800 OR IG_PULSE_BIT, 100,
     8000 OR IG_PULSE_BIT, 1000, 8000 OR IG_PULSE_BIT]"

definition exampleSend :: "'d daemon \<Rightarrow> bool \<Rightarrow> 'd \<Rightarrow> (said \<times> 'd) res" where
  "exampleSend ask writable d =
     (if \<not> writable then Inr (WriteFailed, d)
      else bind_res (ask (iguanaCreateRequest IG_DEV_SEND 44 (Some (pulseBytes exampleBuffer))) d) (\<lambda>(resp, d).
        Inr (if iguanaResponseIsError resp then ResponseFailed else SendSuccessful, d)))"

definition exampleMain :: "bool \<Rightarrow> bool \<Rightarrow> bool \<Rightarrow> 'd daemon \<Rightarrow> 'd \<Rightarrow> (said list \<times> 'd) res" where
  "exampleMain dialed writable1 writable2 ask d =
     (if \<not> dialed then Inr ([ConnectFailed], d)
      else bind_res (exampleVersion ask writable1 d) (\<lambda>(a, d).
           bind_res (exampleSend ask writable2 d) (\<lambda>(b, d). Inr ([a, b], d))))"

section \<open>Properties\<close>

lemma length_example: "length exampleBuffer = 11"
  by (simp add: exampleBuffer_def)

lemma example_request: "iguanaCreateRequest IG_DEV_SEND 44 (Some (pulseBytes exampleBuffer)) = sendOf exampleBuffer"
  by (simp add: iguanaCreateRequest_def sendOf_def length_example in_s32_def)

text \<open>
  The example says that its signal was sent only when the device has played it, on every device that is
  ready and can encode it.
\<close>

theorem example_signal_is_played:
  assumes "exampleSend (daemonAsk i) True L = Inr (SendSuccessful, L')" "readyFor i L" "encodesAt L (carrierAt L) exampleBuffer"
  shows "transmittedBy L L' (waveform (carrierAt L) False exampleBuffer)"
proof -
  obtain resp where a: "daemonAsk i (sendOf exampleBuffer) L = Inr (resp, L')" "\<not> iguanaResponseIsError resp"
    using assms(1) unfolding exampleSend_def example_request by (auto simp: res_simps split: if_splits)
  then obtain p where p: "resp = Some p" "code p \<noteq> IG_DEV_ERROR"
    by (cases resp) (auto simp: iguanaResponseIsError_def packetIsError_def split: if_splits)
  show ?thesis using daemonAsk_send [OF assms(2) _ assms(3), of p L'] a(1) p length_example by simp
qed

section \<open>The recorded run\<close>

text \<open>The device of the run, which answers one request after the other.\<close>

definition exampleWorld :: devWorld where
  "exampleWorld = (answering 0x306 (\<lambda>n. if n = 0 then \<lparr>code = IG_DEV_GETVERSION, dataLen = 2, data = Some [0x06, 0x03]\<rparr>
     else \<lparr>code = IG_DEV_SEND, dataLen = 0, data = None\<rparr>))\<lparr>features := 0, cycles := 65\<rparr>"

lemma twice: "replicate 2 x = [x, x]"
  by (simp add: numeral_2_eq_2)

lemma example_encoded:
  "encoded 38000 COMPRESS_VER0 exampleBuffer False 0 =
   [0x7f, 0x7f, 0x32, 0xa6, 0x7f, 0x7f, 0x32, 0x84, 0x1e, 0x84, 0x1e, 0x84, 0x7f, 0x7f, 0x32, 0xa6, 0x7f, 0x7f, 0x32]"
  by (simp add: exampleBuffer_def pulseCycles_eval splitCycles_def runBytes_def twice)

definition askedVersion :: devWorld where
  "askedVersion = exampleWorld\<lparr>errno := EINVAL, sent := [[0, 0, 0xcd, 0x01]], waits := 1, flushes := 1\<rparr>"

lemma version_run:
  "deviceTransaction (exampleWorld\<lparr>errno := EINVAL\<rparr>) (requestOf IG_DEV_GETVERSION) False None
     = Inr (True, askedVersion, requestOf IG_DEV_GETVERSION, Some \<lparr>code = IG_DEV_GETVERSION, dataLen = 2, data = Some [0x06, 0x03]\<rparr>)"
  by (simp add: exampleWorld_def askedVersion_def run_simps streamArgs_def carrierBytes_def loopCycles_def checkFeatures_def restOfData_def
      sendData_def split: prod.split)

definition exampleTrace :: "byte list list" where
  "exampleTrace = [[0x00, 0x00, 0xcd, 0x01],
     [0x00, 0x00, 0xcd, 0x15, 0x13, 0x00, 0x06, 0x31],
     [0x7f, 0x7f, 0x32, 0xa6, 0x7f, 0x7f, 0x32, 0x84],
     [0x1e, 0x84, 0x1e, 0x84, 0x7f, 0x7f, 0x32, 0xa6],
     [0x7f, 0x7f, 0x32]]"

lemma example_delays: "computeCarrierDelays 38000 65 = (6, 49)"
  using delays_nat [of 251 1 38000 65] carrierCycles_nat(1) [of 38000] by simp

lemma send_run:
  "\<exists>t r2. deviceTransaction askedVersion \<lparr>code = IG_DEV_SEND, dataLen = 19, data = Some (encoded 38000 COMPRESS_VER0 exampleBuffer False 0)\<rparr> False None
     = Inr (True, t, r2, Some \<lparr>code = IG_DEV_SEND, dataLen = 0, data = None\<rparr>) \<and> sent t = exampleTrace \<and> code r2 = IG_DEV_SEND"
  unfolding example_encoded
  by (simp add: askedVersion_def exampleWorld_def exampleTrace_def run_simps streamArgs_def carrierBytes_def loopCycles_def checkFeatures_def
      restOfData_def sendData_def example_delays upt_rec split: prod.split)

definition exampleListener :: listener where
  "exampleListener = listenerOf (Some exampleWorld) [\<lparr>fd = 5, receiving = 0, c_version = 1\<rparr>]"

lemma ask_version:
  "\<exists>L. daemonAsk 0 (requestOf IG_DEV_GETVERSION) exampleListener
       = Inr (Some \<lparr>code = IG_DEV_GETVERSION, dataLen = 2, data = Some [0x06, 0x03]\<rparr>, L)
     \<and> idev L = Some askedVersion \<and> clientList L = clientList exampleListener"
proof -
  let ?r = "requestOf IG_DEV_GETVERSION" and ?c = "\<lparr>fd = 5, receiving = 0, c_version = 1\<rparr>"
  have "checkIncomingProtocol (Some exampleWorld) ?r False \<noteq> None"
    by (simp add: checkIncomingProtocol_def findTypeEntry_def types_def vt_def payloadMatch_def uchar_def requestOf_def DATA_PACKET_INIT_def)
  then have "handleClientRequest ?r ?c exampleListener
      = Inr (True, \<lparr>code = IG_DEV_GETVERSION, dataLen = 2, data = Some [0x06, 0x03]\<rparr>, ?c, exampleListener\<lparr>idev := Some askedVersion\<rparr>)"
    using version_run
    by (simp add: handleClientRequest_def exampleListener_def listenerOf_def setErrno_def requestSwitch_def passToDevice_def
        noteReceiver_def takeResponse_def setDev_def requestOf_def DATA_PACKET_INIT_def Let_def)
  then show ?thesis by (simp add: daemonAsk_def handleClient_def exampleListener_def listenerOf_def)
qed

lemma ask_send:
  assumes "idev L = Some askedVersion" "clientList L = clientList exampleListener"
  shows "\<exists>p L' d'. daemonAsk 0 (sendOf exampleBuffer) L = Inr (Some p, L') \<and> code p \<noteq> IG_DEV_ERROR \<and> idev L' = Some d' \<and> sent d' = exampleTrace"
proof -
  let ?r = "sendOf exampleBuffer" and ?c = "\<lparr>fd = 5, receiving = 0, c_version = 1\<rparr>" and ?M = "setErrno EINVAL L"
  have M: "idev ?M = Some askedVersion" "compressionOf ?M = COMPRESS_VER0" "carrier askedVersion = 38000"
    using assms(1) by (simp_all add: setErrno_def compressionOf_def askedVersion_def exampleWorld_def answering_def devWorld0_def)
  have ps: "requestPulses ?r = Inr exampleBuffer"
    by (rule requestPulses_pulseBytes) (simp_all add: sendOf_def length_example)
  have "sendPulses ?r ?c ?M = Inr (False, ?r\<lparr>dataLen := 19, data := Some (encoded 38000 COMPRESS_VER0 exampleBuffer False 0)\<rparr>, ?c, ?M)"
    using sendPulses_run [OF M(1) ps] M(2,3) example_encoded by simp
  then have sw: "requestSwitch ?r ?c ?M = Inr (False, \<lparr>code = IG_DEV_SEND, dataLen = 19, data = Some (encoded 38000 COMPRESS_VER0 exampleBuffer False 0)\<rparr>, ?c, ?M)"
    by (simp add: requestSwitch_def sendOf_def)
  obtain t r2 where t: "deviceTransaction askedVersion \<lparr>code = IG_DEV_SEND, dataLen = 19, data = Some (encoded 38000 COMPRESS_VER0 exampleBuffer False 0)\<rparr> False None
     = Inr (True, t, r2, Some \<lparr>code = IG_DEV_SEND, dataLen = 0, data = None\<rparr>)" "sent t = exampleTrace" "code r2 = IG_DEV_SEND"
    using send_run by blast
  have "checkIncomingProtocol (idev L) ?r False \<noteq> None" using send_type [of ?r askedVersion] assms(1) by (simp add: sendOf_def)
  then have "handleClientRequest ?r ?c L = Inr (True, r2\<lparr>code := IG_DEV_SEND, dataLen := 0, data := None\<rparr>, ?c, setDev t ?M)"
    using sw t(1,3) M(1) by (auto simp: handleClientRequest_def passToDevice_def noteReceiver_def takeResponse_def sendOf_def Let_def)
  then show ?thesis using assms(2) t(2)
    by (simp add: daemonAsk_def handleClient_def exampleListener_def listenerOf_def setDev_def)
qed

text \<open>
  C16.  The program, the daemon and the firmware's protocol reproduce the run that \<open>example1.c\<close> records in its
  comment: the example prints version 0x306 and its success, and the device has been sent just the five
  packets of that log, byte for byte.
\<close>

theorem example_run_as_recorded:
  "\<exists>L' d'. exampleMain True True True (daemonAsk 0) exampleListener = Inr ([FirmwareVersion 0x306, SendSuccessful], L')
     \<and> idev L' = Some d'
     \<and> sent d' = [[0x00, 0x00, 0xcd, 0x01], [0x00, 0x00, 0xcd, 0x15, 0x13, 0x00, 0x06, 0x31],
         [0x7f, 0x7f, 0x32, 0xa6, 0x7f, 0x7f, 0x32, 0x84], [0x1e, 0x84, 0x1e, 0x84, 0x7f, 0x7f, 0x32, 0xa6], [0x7f, 0x7f, 0x32]]"
proof -
  obtain L where L: "daemonAsk 0 (requestOf IG_DEV_GETVERSION) exampleListener
       = Inr (Some \<lparr>code = IG_DEV_GETVERSION, dataLen = 2, data = Some [0x06, 0x03]\<rparr>, L)"
      "idev L = Some askedVersion" "clientList L = clientList exampleListener"
    using ask_version by blast
  obtain p L' d' where s: "daemonAsk 0 (sendOf exampleBuffer) L = Inr (Some p, L')" "code p \<noteq> IG_DEV_ERROR" "idev L' = Some d'" "sent d' = exampleTrace"
    using ask_send [OF L(2,3)] by blast
  have r: "iguanaCreateRequest IG_DEV_GETVERSION 0 None = requestOf IG_DEV_GETVERSION"
    by (simp add: iguanaCreateRequest_def requestOf_def DATA_PACKET_INIT_def in_s32_def)
  have v: "versionShown [0x06, 0x03] = 0x306" by (simp add: versionShown_def)
  have "exampleVersion (daemonAsk 0) True exampleListener = Inr (FirmwareVersion 0x306, L)"
    using L(1) v by (simp add: exampleVersion_def r iguanaResponseIsError_def packetIsError_def iguanaRemoveData_def read_bytes_def)
  moreover have "exampleSend (daemonAsk 0) True L = Inr (SendSuccessful, L')"
    using s(1,2) by (simp add: exampleSend_def example_request iguanaResponseIsError_def packetIsError_def)
  ultimately show ?thesis using s(3,4) by (simp add: exampleMain_def exampleTrace_def)
qed

end
