(* ===== verification/Windows_Pipes.thy ===== *)
theory Windows_Pipes
  imports Server_Startup
begin

text \<open>
  \<open>win32/pipes.c\<close>: reads and writes with a timeout on named pipes.  What the system calls answer is an
  argument; a transfer that is pending when the time is up may still have completed.
\<close>

abbreviation (input) MAX_PATH :: nat where "MAX_PATH \<equiv> 260"
abbreviation (input) ERROR_HANDLE_EOF :: int where "ERROR_HANDLE_EOF \<equiv> 38"
abbreviation (input) ERROR_BROKEN_PIPE :: int where "ERROR_BROKEN_PIPE \<equiv> 109"
abbreviation (input) ERROR_IO_PENDING :: int where "ERROR_IO_PENDING \<equiv> 997"

datatype started = Completed nat | StartFailed int     \<comment> \<open>with the bytes moved, or the last error\<close>
datatype waited = WaitTimeout | WaitObject | WaitFailed

record transfer =
  started :: started
  waited :: waited
  overlapped :: "nat option"     \<comment> \<open>the bytes of a pending transfer, if it completed\<close>

text \<open>The return value, and \<open>errno\<close> where it is set.\<close>

definition winTimedOperation :: "nat \<Rightarrow> transfer \<Rightarrow> int \<times> int option" where
  "winTimedOperation amt t =
     (case started t of
        Completed n \<Rightarrow> (int amt, None)
      | StartFailed e \<Rightarrow>
          if e = ERROR_HANDLE_EOF \<or> e = ERROR_BROKEN_PIPE then (0, None)
          else if e = ERROR_IO_PENDING
          then (let amount = (case overlapped t of None \<Rightarrow> - 1 | Some n \<Rightarrow> int n)
                in case waited t of
                     WaitTimeout \<Rightarrow> (amount, Some ETIMEDOUT)
                   | WaitObject \<Rightarrow> (amount, None)
                   | WaitFailed \<Rightarrow> (- 1, None))
          else (- 1, None))"

definition winReadPipeTimed :: "nat \<Rightarrow> transfer \<Rightarrow> int \<times> int option" where
  "winReadPipeTimed = winTimedOperation"

definition winWritePipeTimed :: "nat \<Rightarrow> transfer \<Rightarrow> int \<times> int option" where
  "winWritePipeTimed = winTimedOperation"

definition winNotified :: "transfer \<Rightarrow> int \<times> int option" where
  "winNotified t = winReadPipeTimed 1 t"

definition winWritePipe :: "nat option \<Rightarrow> int" where
  "winWritePipe res = (case res of None \<Rightarrow> - 1 | Some n \<Rightarrow> int n)"

definition winNotify :: "nat option \<Rightarrow> bool" where
  "winNotify res \<longleftrightarrow> winWritePipe res = 1"

section \<open>Properties\<close>

text \<open>A transfer that completes at once is reported as a full one, however many bytes it moved.\<close>

lemma short_transfer_counts_as_full: "started t = Completed n \<Longrightarrow> winTimedOperation amt t = (int amt, None)"
  by (simp add: winTimedOperation_def)

definition timedOutTransfer :: transfer where
  "timedOutTransfer = \<lparr>started = StartFailed ERROR_IO_PENDING, waited = WaitTimeout, overlapped = None\<rparr>"

text \<open>
  On Windows the scan timer never asks for a scan: a read whose time is up answers -1 there, and not 0 as
  the Unix version does, so the timer thread takes the end of its first period for its shutdown.
\<close>

theorem windows_timer_never_scans:
  assumes "waited (t 0) = WaitTimeout" "started (t 0) = StartFailed ERROR_IO_PENDING" "overlapped (t 0) = None" "0 < n"
  shows "scanTrigger (map (\<lambda>i. fst (winReadPipeTimed 1 (t i))) [0..<n]) ws = (True, ws)
    \<and> scanTrigger (replicate n 0) ws = (False, ws @ concat (replicate n (triggerCommand SCAN_TRIGGER)))"
proof -
  have "map (\<lambda>i. fst (winReadPipeTimed 1 (t i))) [0..<n] = (- 1) # map (\<lambda>i. fst (winReadPipeTimed 1 (t i))) [1..<n]"
    using assms by (simp add: upt_conv_Cons winReadPipeTimed_def winTimedOperation_def)
  then show ?thesis using timer_scans by simp
qed

theorem windows_timer_never_scans_witness:
  "scanTrigger (map (\<lambda>i. fst (winReadPipeTimed 1 timedOutTransfer)) [0..<24]) [] = (True, [])"
  using windows_timer_never_scans [of "\<lambda>_. timedOutTransfer" 24 "[]"] by (simp add: timedOutTransfer_def)

end
