(* ===== verification/Windows_Listener.thy ===== *)
theory Windows_Listener
  imports Windows_Pipes Listener_Properties
begin

text \<open>
  \<open>listenToClients\<close> and \<open>setAlias\<close> of \<open>win32/service.c\<close>: the loop of a listener over overlapped actions and
  events, where Unix has \<open>select\<close>.  A listener has two named pipes, one under its number and one under the
  alias of its device, and an event for each pending action.  The state has the parts of the static
  arrays that belong to this listener, the local arrays, the handles of events by number, and the \<open>listener\<close>
  the requests work on (\<open>wCore\<close>; its \<open>links_to\<close>, which is the Unix way to keep aliases, plays no role here).
  What Windows decides in a pass is a \<open>pass\<close>: whether a pipe can be made, which events are signalled and
  what then is on the pipes.
\<close>

abbreviation (input) MAX_DEVICES :: nat where "MAX_DEVICES \<equiv> 64"

section \<open>State\<close>

datatype handleSlot = HUnset | HNull | HEvent nat     \<comment> \<open>not written yet, NULL, the handle of an event\<close>

record winListener =
  wCore :: listener
  wId :: nat
  wAliases :: "cstring list"        \<comment> \<open>\<open>aliases\<close>\<close>
  wPipes :: "nat option list"       \<comment> \<open>\<open>listeners[id]\<close>\<close>
  wNames :: "cstring list"          \<comment> \<open>the names the two pipes were created under\<close>
  wOver :: "nat option list"        \<comment> \<open>the events of \<open>over\<close>\<close>
  wHandles :: "handleSlot list"
  wClients :: "nat \<Rightarrow> nat option"    \<comment> \<open>the event of the client with that pipe\<close>
  wNext :: nat                      \<comment> \<open>the event the next call of \<open>CreateEvent\<close> gives\<close>
  wClosed :: "nat list"             \<comment> \<open>the events that were closed, in order\<close>

datatype clientWake = Quiet | HungUp | Spurious | Sent "dataPacket option" bool

record pass =
  made :: "nat \<Rightarrow> nat option"        \<comment> \<open>the pipe, when its security attributes could be set up\<close>
  readerWake :: bool
  wakeOf :: "nat \<Rightarrow> clientWake"      \<comment> \<open>by the pipe of the client; one that is broken before the wait hangs up\<close>
  connects :: "nat \<Rightarrow> bool"

definition setCore :: "listener \<Rightarrow> winListener \<Rightarrow> winListener" where
  "setCore L W = W\<lparr>wCore := L\<rparr>"

section \<open>Aliases\<close>

text \<open>\<open>scanned\<close> is the number the target reads as; a listener sets the alias of its own device only.\<close>

definition aliasAt :: "nat \<Rightarrow> winListener \<Rightarrow> cstring res" where
  "aliasAt n W = (if n < length (wAliases W) then Inr (wAliases W ! n) else Inl OutOfBounds)"

definition winSetAlias :: "nat option \<Rightarrow> cstring option \<Rightarrow> winListener \<Rightarrow> winListener res" where
  "winSetAlias scanned alias W =
     (case scanned of None \<Rightarrow> Inr W
      | Some n \<Rightarrow>
          let W = W\<lparr>wPipes := (wPipes W)[1 := None]\<rparr>; name = (case alias of None \<Rightarrow> [] | Some a \<Rightarrow> a)
          in if n < length (wAliases W) \<and> length name < MAX_PATH
             then Inr (W\<lparr>wAliases := (wAliases W)[n := name]\<rparr>) else Inl OutOfBounds)"

text \<open>
  \<open>getID\<close> on Windows: what it does to the device, and its calls of \<open>setAlias\<close>, one for the location and one
  for the label when that was read.
\<close>

definition labelSet :: "listener \<Rightarrow> listener \<Rightarrow> cstring option" where
  "labelSet L L' =
     (case (idev L, idev L') of
        (Some d, Some d') \<Rightarrow> if readLabels L \<and> \<not> hasNoId (version d) then userAlias d' else None
      | _ \<Rightarrow> None)"

definition winGetID :: "winListener \<Rightarrow> winListener res" where
  "winGetID W =
     bind_res (getID (wCore W)) (\<lambda>L.
     bind_res (winSetAlias (Some (wId W)) (Some (locationAlias (wCore W))) (setCore L W)) (\<lambda>V.
       case labelSet (wCore W) L of None \<Rightarrow> Inr V
       | Some label \<Rightarrow> winSetAlias (Some (wId W)) (Some label) V))"

definition winHandleClient :: "nat \<Rightarrow> dataPacket option \<Rightarrow> bool \<Rightarrow> winListener \<Rightarrow> (bool \<times> winListener) res" where
  "winHandleClient i request writeOk W =
     (let L = wCore W
      in case request of
        None \<Rightarrow> bind_res (releaseClient i L) (\<lambda>L. Inr (False, setCore L W))
      | Some r \<Rightarrow>
          bind_res (handleClientRequest r (clientList L ! i) L) (\<lambda>(ok, r, c, L).
            let r = (if ok then r else errorAnswer L r);
                L = L\<lparr>clientList := (clientList L)[i := c]\<rparr>
            in if writeOk
               then let W = setCore (L\<lparr>delivered := delivered L @ [(fd c, r)]\<rparr>) W
                    in bind_res (if code r = IG_DEV_SETID then winGetID W else Inr W) (\<lambda>W. Inr (True, W))
               else bind_res (releaseClient i L) (\<lambda>L.
                      if code r = IG_DEV_SETID then Inl UseAfterFree else Inr (False, setCore L W))))"

section \<open>Before the wait\<close>

text \<open>\<open>startOverlappedAction\<close>: an action gets an event when it has none, else its event is reset.\<close>

definition startOverlappedAction :: "nat option \<Rightarrow> winListener \<Rightarrow> nat \<times> winListener" where
  "startOverlappedAction ev W = (case ev of None \<Rightarrow> (wNext W, W\<lparr>wNext := wNext W + 1\<rparr>) | Some e \<Rightarrow> (e, W))"

definition startOver :: "nat \<Rightarrow> winListener \<Rightarrow> winListener" where
  "startOver x W =
     (let (e, W) = startOverlappedAction (wOver W ! x) W
      in W\<lparr>wOver := (wOver W)[x := Some e], wHandles := (wHandles W)[x := HEvent e]\<rparr>)"

definition startClient :: "nat \<Rightarrow> winListener \<Rightarrow> winListener" where
  "startClient n W = (let (e, W) = startOverlappedAction (wClients W n) W in W\<lparr>wClients := (wClients W)(n := Some e)\<rparr>)"

definition growHandles :: "winListener \<Rightarrow> winListener" where
  "growHandles W =
     (let n = 3 + length (clientList (wCore W))
      in W\<lparr>wHandles := take n (wHandles W) @ replicate (n - length (wHandles W)) HUnset\<rparr>)"

definition pipeName :: "nat \<Rightarrow> winListener \<Rightarrow> cstring res" where
  "pipeName x W =
     (case idev (wCore W) of None \<Rightarrow> Inr (str ''ctl'')
      | Some d \<Rightarrow> if x = 1 then aliasAt (devId d) W else sprintfInt 4 (devId d))"

definition preparePipe :: "nat \<Rightarrow> bool \<Rightarrow> (nat \<Rightarrow> nat option) \<Rightarrow> winListener \<Rightarrow> winListener res" where
  "preparePipe x firstPass pipeMade W =
     (if firstPass \<or> wPipes W ! x = None
      then case pipeMade x of None \<Rightarrow> Inr W
           | Some h \<Rightarrow> bind_res (pipeName x W) (\<lambda>name.
               Inr (startOver (x + 1) (W\<lparr>wPipes := (wPipes W)[x := Some h], wNames := (wNames W)[x := name]\<rparr>)))
      else Inr W)"

definition preparePipes :: "bool \<Rightarrow> (nat \<Rightarrow> nat option) \<Rightarrow> winListener \<Rightarrow> (nat \<times> winListener) res" where
  "preparePipes firstPass pipeMade W =
     bind_res (preparePipe 0 firstPass pipeMade W) (\<lambda>W.
     bind_res (aliasAt (wId W) W) (\<lambda>a.
       if a = [] then Inr (2, W\<lparr>wHandles := (wHandles W)[2 := HNull]\<rparr>)
       else bind_res (preparePipe 1 firstPass pipeMade W) (\<lambda>W. Inr (3, W))))"

fun prepareClients :: "client list \<Rightarrow> nat \<Rightarrow> winListener \<Rightarrow> nat \<times> winListener" where
  "prepareClients [] n W = (n, W)"
| "prepareClients (c # cs) n W =
     (let W = (if wClients W (fd c) = None then startClient (fd c) W else W);
          h = (case wClients W (fd c) of None \<Rightarrow> HNull | Some e \<Rightarrow> HEvent e)
      in prepareClients cs (n + 1) (W\<lparr>wHandles := (wHandles W)[n := h]\<rparr>))"

text \<open>The wait reads all handles that were counted.\<close>

definition prepare :: "bool \<Rightarrow> (nat \<Rightarrow> nat option) \<Rightarrow> winListener \<Rightarrow> winListener res" where
  "prepare firstPass pipeMade W =
     (let W = growHandles W; W = (if firstPass then startOver 0 W else W)
      in bind_res (preparePipes firstPass pipeMade W) (\<lambda>(n, W).
           let (n, W) = prepareClients (clientList (wCore W)) n W
           in if HUnset \<in> set (take n (wHandles W)) then Inl OutOfBounds else Inr W))"

section \<open>After the wait\<close>

text \<open>The flag tells that the loop goes on.\<close>

definition serveReader :: "pass \<Rightarrow> winListener \<Rightarrow> (bool \<times> winListener) res" where
  "serveReader p W =
     (if \<not> readerWake p then Inr (True, W)
      else if idev (wCore W) = None then Inr (False, W)
      else bind_res (handleReader (wCore W)) (\<lambda>(ok, L). Inr (ok, setCore L W)))"

definition serveClient :: "clientWake \<Rightarrow> nat \<Rightarrow> winListener \<Rightarrow> (bool \<times> winListener) res" where
  "serveClient wake i W =
     (case wake of
        Quiet \<Rightarrow> Inr (True, W)
      | Spurious \<Rightarrow> Inr (True, W)
      | HungUp \<Rightarrow> bind_res (releaseClient i (wCore W)) (\<lambda>L. Inr (False, setCore L W))
      | Sent request writeOk \<Rightarrow>
          (let n = fd (clientList (wCore W) ! i)
           in bind_res (winHandleClient i request writeOk W) (\<lambda>(ok, V).
                if ok then Inr (True, startClient n V)
                else Inr (False, V\<lparr>wClosed := wClosed V @ (case wClients W n of None \<Rightarrow> [] | Some e \<Rightarrow> [e])\<rparr>))))"

text \<open>The first argument counts the clients that are left; it starts with their number.\<close>

fun serveClients :: "nat \<Rightarrow> (nat \<Rightarrow> clientWake) \<Rightarrow> nat \<Rightarrow> winListener \<Rightarrow> winListener res" where
  "serveClients 0 wake i W = Inr W"
| "serveClients (Suc n) wake i W =
     (if i < length (clientList (wCore W))
      then bind_res (serveClient (wake (fd (clientList (wCore W) ! i))) i W) (\<lambda>(stays, W).
             serveClients n wake (if stays then i + 1 else i) W)
      else Inr W)"

definition acceptPipe :: "nat \<Rightarrow> winListener \<Rightarrow> winListener" where
  "acceptPipe x W =
     (let h = wPipes W ! x
      in W\<lparr>wCore := clientConnected h (wCore W),
           wClients := (case h of None \<Rightarrow> wClients W | Some n \<Rightarrow> (wClients W)(n := None)),
           wClosed := wClosed W @ (case wOver W ! (x + 1) of None \<Rightarrow> [] | Some e \<Rightarrow> [e]),
           wOver := (wOver W)[x + 1 := None], wPipes := (wPipes W)[x := None]\<rparr>)"

definition signalled :: "pass \<Rightarrow> nat \<Rightarrow> winListener \<Rightarrow> bool" where
  "signalled p x W \<longleftrightarrow> connects p x \<and> wHandles W ! (x + 1) \<noteq> HNull"

definition acceptPipes :: "pass \<Rightarrow> winListener \<Rightarrow> winListener res" where
  "acceptPipes p W =
     (let W = (if signalled p 0 W then acceptPipe 0 W else W)
      in bind_res (aliasAt (wId W) W) (\<lambda>a.
           Inr (if a \<noteq> [] \<and> signalled p 1 W then acceptPipe 1 W else W)))"

section \<open>The loop\<close>

definition eventsOf :: "handleSlot list \<Rightarrow> nat list" where
  "eventsOf hs = concat (map (\<lambda>h. case h of HEvent e \<Rightarrow> [e] | _ \<Rightarrow> []) hs)"

fun winReleaseAll :: "nat \<Rightarrow> winListener \<Rightarrow> winListener res" where
  "winReleaseAll 0 W = Inr W"
| "winReleaseAll (Suc n) W =
     (let W = W\<lparr>wClosed := wClosed W @ (case wClients W (fd (hd (clientList (wCore W)))) of None \<Rightarrow> [] | Some e \<Rightarrow> [e])\<rparr>
      in bind_res (releaseClient 0 (wCore W)) (\<lambda>L. winReleaseAll n (setCore L W)))"

definition winClose :: "winListener \<Rightarrow> winListener res" where
  "winClose W =
     (let W = W\<lparr>wClosed := wClosed W @ eventsOf (take 3 (wHandles W)), wHandles := []\<rparr>
      in bind_res (winReleaseAll (length (clientList (wCore W))) W) (\<lambda>W. Inr (W\<lparr>wPipes := [None, None]\<rparr>)))"

definition winPass :: "bool \<Rightarrow> pass \<Rightarrow> winListener \<Rightarrow> (bool \<times> winListener) res" where
  "winPass firstPass p W =
     bind_res (prepare firstPass (made p) W) (\<lambda>W.
     bind_res (serveReader p W) (\<lambda>(goOn, W).
       if \<not> goOn then bind_res (winClose W) (\<lambda>W. Inr (True, W))
       else bind_res (serveClients (length (clientList (wCore W))) (wakeOf p) 0 W) (\<lambda>W.
            bind_res (acceptPipes p W) (\<lambda>W. Inr (False, W)))))"

fun winLoop :: "bool \<Rightarrow> pass list \<Rightarrow> winListener \<Rightarrow> (bool \<times> winListener) res" where
  "winLoop firstPass [] W = Inr (False, W)"
| "winLoop firstPass (p # ps) W =
     bind_res (winPass firstPass p W) (\<lambda>(ended, W). if ended then Inr (True, W) else winLoop False ps W)"

text \<open>Unlike the Unix version it does not note an address (\<open>addrStr\<close>) in the device.\<close>

definition winListenToClients :: "pass list \<Rightarrow> winListener \<Rightarrow> (bool \<times> winListener) res" where
  "winListenToClients ps W =
     bind_res (case idev (wCore W) of
         None \<Rightarrow> Inr (W\<lparr>wId := MAX_DEVICES\<rparr>)
       | Some d \<Rightarrow> winGetID (W\<lparr>wId := devId d\<rparr>)) (\<lambda>W.
       winLoop True ps (W\<lparr>wOver := [None, None, None], wHandles := []\<rparr>))"

end
