(* ===== verification/Windows_Refinement.thy ===== *)
theory Windows_Refinement
  imports Windows_Listener
begin

text \<open>
  The listener of the Windows service does to its clients and its device what the Unix loop does: a run of
  \<open>winLoop\<close> is a run of \<open>listenLoop\<close> over the events of its passes, so what is proved of that loop holds on
  Windows too.
\<close>

section \<open>The events of a run\<close>

fun wakeEvents :: "clientWake \<Rightarrow> nat \<Rightarrow> listenEvent list" where
  "wakeEvents HungUp i = [ClientReady i None False]"
| "wakeEvents (Sent r writeOk) i = [ClientReady i r writeOk]"
| "wakeEvents Quiet i = []"
| "wakeEvents Spurious i = []"

fun servedEvents :: "nat \<Rightarrow> (nat \<Rightarrow> clientWake) \<Rightarrow> nat \<Rightarrow> winListener \<Rightarrow> listenEvent list" where
  "servedEvents 0 wake i W = []"
| "servedEvents (Suc n) wake i W =
     (if i < length (clientList (wCore W))
      then let w = wake (fd (clientList (wCore W) ! i))
           in wakeEvents w i @ (case serveClient w i W of Inl e \<Rightarrow> []
                | Inr (stays, V) \<Rightarrow> servedEvents n wake (if stays then i + 1 else i) V)
      else [])"

definition acceptedEvents :: "pass \<Rightarrow> winListener \<Rightarrow> listenEvent list" where
  "acceptedEvents p W =
     (if signalled p 0 W then [Accepted (wPipes W ! 0)] else [])
     @ (let V = (if signalled p 0 W then acceptPipe 0 W else W)
        in case aliasAt (wId V) V of Inl e \<Rightarrow> []
           | Inr a \<Rightarrow> if a \<noteq> [] \<and> signalled p 1 V then [Accepted (wPipes V ! 1)] else [])"

definition passEvents :: "bool \<Rightarrow> pass \<Rightarrow> winListener \<Rightarrow> listenEvent list" where
  "passEvents firstPass p W =
     (case prepare firstPass (made p) W of Inl e \<Rightarrow> []
      | Inr W \<Rightarrow> (if readerWake p then [ReaderReady] else [])
          @ (case serveReader p W of Inr (True, W) \<Rightarrow>
               (let n = length (clientList (wCore W))
                in servedEvents n (wakeOf p) 0 W
                   @ (case serveClients n (wakeOf p) 0 W of Inl e \<Rightarrow> [] | Inr W \<Rightarrow> acceptedEvents p W))
             | _ \<Rightarrow> []))"

fun runEvents :: "bool \<Rightarrow> pass list \<Rightarrow> winListener \<Rightarrow> listenEvent list" where
  "runEvents firstPass [] W = []"
| "runEvents firstPass (p # ps) W =
     passEvents firstPass p W
     @ (case winPass firstPass p W of Inr (False, V) \<Rightarrow> runEvents False ps V | _ \<Rightarrow> [])"

section \<open>Runs of the Unix loop\<close>

lemma listenLoop_append:
  "listenLoop (xs @ ys) L
   = bind_res (listenLoop xs L) (\<lambda>(ended, M). if ended then Inr (True, M) else listenLoop ys M)"
  by (induction xs L rule: listenLoop.induct) (auto simp: bind_res_def split: sum.split)

lemma listenLoop_appendI:
  "listenLoop xs L = Inr (False, M) \<Longrightarrow> listenLoop ys M = r \<Longrightarrow> listenLoop (xs @ ys) L = r"
  by (simp add: listenLoop_append)

section \<open>One pass\<close>

lemma setCore_core [simp]: "wCore (setCore L W) = L"
  by (simp add: setCore_def)

lemma winSetAlias_core: "winSetAlias sc a W = Inr V \<Longrightarrow> wCore V = wCore W"
  by (auto simp: winSetAlias_def Let_def split: option.splits if_splits)

lemma winGetID_core: "winGetID W = Inr V \<Longrightarrow> getID (wCore W) = Inr (wCore V)"
  by (auto simp: winGetID_def res_simps split: option.splits dest!: winSetAlias_core)

lemma winHandleClient_core:
  "winHandleClient i request writeOk W = Inr (ok, V) \<Longrightarrow> handleClient i request writeOk (wCore W) = Inr (ok, wCore V)"
proof (cases request)
  case (Some r)
  assume run: "winHandleClient i request writeOk W = Inr (ok, V)"
  obtain v r' c' M where M: "handleClientRequest r (clientList (wCore W) ! i) (wCore W) = Inr (v, r', c', M)"
    using run Some by (cases "handleClientRequest r (clientList (wCore W) ! i) (wCore W)") (auto simp: winHandleClient_def Let_def)
  show ?thesis
  proof (cases "code (if v then r' else errorAnswer M r') = IG_DEV_SETID")
    case True
    then show ?thesis using run Some M
      by (cases writeOk) (auto simp: winHandleClient_def handleClient_def Let_def res_simps dest!: winGetID_core)
  next
    case False
    then show ?thesis using run Some M
      by (cases writeOk) (auto simp: winHandleClient_def handleClient_def Let_def res_simps)
  qed
qed (auto simp: winHandleClient_def handleClient_def res_simps)

lemma startOver_core [simp]: "wCore (startOver x W) = wCore W"
  by (simp add: startOver_def startOverlappedAction_def split: option.split)

lemma startClient_core [simp]: "wCore (startClient n W) = wCore W"
  by (simp add: startClient_def startOverlappedAction_def split: option.split)

lemma preparePipe_core: "preparePipe x f m W = Inr V \<Longrightarrow> wCore V = wCore W"
  by (auto simp: preparePipe_def res_simps split: if_splits option.splits)

lemma preparePipes_core: "preparePipes f m W = Inr (n, V) \<Longrightarrow> wCore V = wCore W"
  by (auto simp: preparePipes_def res_simps split: if_splits dest!: preparePipe_core)

lemma prepareClients_core: "wCore (snd (prepareClients cs n W)) = wCore W"
  by (induction cs n W rule: prepareClients.induct) (auto simp: Let_def)

lemma prepare_core: "prepare f m W = Inr V \<Longrightarrow> wCore V = wCore W"
proof -
  assume p: "prepare f m W = Inr V"
  let ?W = "if f then startOver 0 (growHandles W) else growHandles W"
  obtain n U where U: "preparePipes f m ?W = Inr (n, U)"
    using p by (cases "preparePipes f m ?W") (auto simp: prepare_def Let_def)
  then have "V = snd (prepareClients (clientList (wCore U)) n U)"
    using p by (simp add: prepare_def Let_def split: prod.splits if_splits)
  moreover have "wCore ?W = wCore W" by (simp add: growHandles_def Let_def)
  ultimately show ?thesis using preparePipes_core [OF U] prepareClients_core by metis
qed

lemma serveClient_core:
  assumes "serveClient wake i W = Inr (stays, V)" "i < length (clientList (wCore W))"
  shows "listenLoop (wakeEvents wake i) (wCore W) = Inr (False, wCore V)"
proof (cases wake)
  case HungUp
  then show ?thesis using assms by (auto simp: serveClient_def handleClient_def res_simps)
next
  case (Sent r w)
  then show ?thesis using assms
    by (auto simp: serveClient_def Let_def res_simps split: if_splits dest!: winHandleClient_core)
qed (use assms in \<open>auto simp: serveClient_def\<close>)

lemma serveClients_core:
  "serveClients n wake i W = Inr V \<Longrightarrow> listenLoop (servedEvents n wake i W) (wCore W) = Inr (False, wCore V)"
proof (induction n wake i W rule: serveClients.induct)
  case (2 n wake i W)
  show ?case
  proof (cases "i < length (clientList (wCore W))")
    case True
    let ?w = "wake (fd (clientList (wCore W) ! i))"
    obtain k U where U: "serveClient ?w i W = Inr (k, U)"
      using 2(2) True by (cases "serveClient ?w i W") auto
    have "serveClients n wake (if k then i + 1 else i) U = Inr V" using 2(2) True U by simp
    then have "listenLoop (servedEvents n wake (if k then i + 1 else i) U) (wCore U) = Inr (False, wCore V)"
      using 2(1) [OF True] by simp
    then show ?thesis using listenLoop_appendI [OF serveClient_core [OF U True]] U True by (simp add: Let_def)
  qed (use 2 in simp)
qed simp

lemma releaseClient_length:
  assumes "releaseClient i L = Inr L'" "i < length (clientList L)"
  shows "length (clientList L') = length (clientList L) - 1"
  using assms by (auto simp: releaseClient_def withDev_def setDev_def Let_def res_simps split: if_splits option.splits)

lemma handleClient_length:
  assumes "handleClient i request writeOk L = Inr (ok, L')" "i < length (clientList L)"
  shows "length (clientList L') = (if ok then length (clientList L) else length (clientList L) - 1)"
proof (cases request)
  case None
  then show ?thesis using assms releaseClient_length by (auto simp: handleClient_def res_simps)
next
  case (Some r)
  obtain v r' c' M where M: "handleClientRequest r (clientList L ! i) L = Inr (v, r', c', M)"
    using assms(1) Some by (cases "handleClientRequest r (clientList L ! i) L") (auto simp: handleClient_def)
  have l: "clientList M = clientList L" using handleClientRequest_effect [OF M] kept_clients by blast
  define r2 where "r2 = (if v then r' else errorAnswer M r')"
  let ?M = "M\<lparr>clientList := (clientList L)[i := c']\<rparr>"
  let ?N = "?M\<lparr>delivered := delivered M @ [(fd c', r2)]\<rparr>"
  have run: "(if writeOk then bind_res (if code r2 = IG_DEV_SETID then getID ?N else Inr ?N) (\<lambda>L. Inr (True, L))
      else bind_res (releaseClient i ?M) (\<lambda>L. if code r2 = IG_DEV_SETID then Inl UseAfterFree else Inr (False, L)))
    = Inr (ok, L')"
    using assms(1) Some M l unfolding r2_def by (simp add: handleClient_def Let_def split del: if_split cong: if_cong)
  show ?thesis
  proof (cases writeOk)
    case True
    then have "ok \<and> (L' = ?N \<or> getID ?N = Inr L')" using run by (cases "getID ?N") (simp_all split: if_splits)
    then show ?thesis using getID_kept_ok(2) by fastforce
  next
    case False
    then have "\<not> ok \<and> releaseClient i ?M = Inr L'" using run by (cases "releaseClient i ?M") (simp_all split: if_splits)
    then show ?thesis using releaseClient_length [of i ?M L'] assms(2) by simp
  qed
qed

lemma serveClient_length:
  assumes "serveClient wake i W = Inr (stays, V)" "i < length (clientList (wCore W))"
  shows "length (clientList (wCore V)) - (if stays then i + 1 else i) = length (clientList (wCore W)) - i - 1"
proof (cases wake)
  case HungUp
  then show ?thesis using assms releaseClient_length by (auto simp: serveClient_def res_simps)
next
  case (Sent r w)
  then obtain U where "winHandleClient i r w W = Inr (stays, U)" "wCore V = wCore U"
    using assms(1) by (auto simp: serveClient_def Let_def res_simps split: if_splits)
  then show ?thesis using handleClient_length [OF winHandleClient_core assms(2)] by auto
qed (use assms in \<open>auto simp: serveClient_def\<close>)

text \<open>The count of the loop over the clients is enough: with a larger one it does the same.\<close>

lemma serveClients_enough:
  "length (clientList (wCore W)) - i \<le> n \<Longrightarrow> serveClients (n + k) wake i W = serveClients n wake i W"
proof (induction n arbitrary: i W)
  case 0
  then show ?case by (cases k) simp_all
next
  case (Suc n)
  show ?case
  proof (cases "serveClient (wake (fd (clientList (wCore W) ! i))) i W")
    case (Inr r)
    obtain stays V where r: "r = (stays, V)" by (cases r)
    show ?thesis
    proof (cases "i < length (clientList (wCore W))")
      case True
      have "length (clientList (wCore V)) - (if stays then i + 1 else i) \<le> n"
        using serveClient_length [OF Inr [unfolded r] True] Suc.prems by linarith
      then show ?thesis using Suc.IH Inr r True by simp
    qed simp
  qed simp
qed

lemma acceptPipe_core [simp]: "wCore (acceptPipe x W) = clientConnected (wPipes W ! x) (wCore W)"
  by (simp add: acceptPipe_def Let_def)

lemma acceptPipes_core:
  "acceptPipes p W = Inr V \<Longrightarrow> listenLoop (acceptedEvents p W) (wCore W) = Inr (False, wCore V)"
proof -
  assume run: "acceptPipes p W = Inr V"
  define U where "U = (if signalled p 0 W then acceptPipe 0 W else W)"
  obtain a where a: "aliasAt (wId U) U = Inr a"
    using run by (cases "aliasAt (wId U) U") (simp_all add: acceptPipes_def Let_def U_def)
  have V: "V = (if a \<noteq> [] \<and> signalled p 1 U then acceptPipe 1 U else U)"
    using run a by (simp add: acceptPipes_def Let_def flip: U_def)
  have "listenLoop (if signalled p 0 W then [Accepted (wPipes W ! 0)] else []) (wCore W) = Inr (False, wCore U)"
    by (simp add: U_def)
  then show ?thesis
    using listenLoop_appendI a unfolding acceptedEvents_def U_def [symmetric] Let_def by (simp add: V)
qed

lemma winReleaseAll_core: "winReleaseAll n W = Inr V \<Longrightarrow> releaseAll n (wCore W) = Inr (wCore V)"
  by (induction n W arbitrary: V rule: winReleaseAll.induct) (auto simp: Let_def res_simps)

lemma winClose_core: "winClose W = Inr V \<Longrightarrow> releaseAll (length (clientList (wCore W))) (wCore W) = Inr (wCore V)"
  by (auto simp: winClose_def Let_def res_simps dest!: winReleaseAll_core)

section \<open>Whole runs\<close>

text \<open>
  A run goes on as the Unix loop does, or it ends with a reader event in a state \<open>M\<close>, where the Unix loop
  closes the listener.
\<close>

definition ends_like :: "listenEvent list \<Rightarrow> listener \<Rightarrow> bool \<Rightarrow> listener \<Rightarrow> bool" where
  "ends_like evs L ended L' \<longleftrightarrow>
     (if ended
      then \<exists>before M0 M. evs = before @ [ReaderReady] \<and> listenLoop before L = Inr (False, M0)
         \<and> (idev M0 = None \<and> M = M0 \<or> idev M0 \<noteq> None \<and> handleReader M0 = Inr (False, M))
         \<and> releaseAll (length (clientList M)) M = Inr L'
      else listenLoop evs L = Inr (False, L'))"

lemma ends_like_append:
  assumes "listenLoop xs L = Inr (False, M)" "ends_like ys M ended L'"
  shows "ends_like (xs @ ys) L ended L'"
proof (cases ended)
  case True
  then obtain b M0 N where b: "ys = b @ [ReaderReady]" "listenLoop b M = Inr (False, M0)"
      "idev M0 = None \<and> N = M0 \<or> idev M0 \<noteq> None \<and> handleReader M0 = Inr (False, N)"
      "releaseAll (length (clientList N)) N = Inr L'"
    using assms(2) unfolding ends_like_def by auto
  then have "listenLoop (xs @ b) L = Inr (False, M0)" using listenLoop_appendI [OF assms(1)] by simp
  then show ?thesis using True b unfolding ends_like_def by auto
qed (use assms listenLoop_appendI in \<open>simp add: ends_like_def\<close>)

lemma serveReader_core:
  assumes "serveReader p W = Inr (True, V)"
  shows "listenLoop (if readerWake p then [ReaderReady] else []) (wCore W) = Inr (False, wCore V)"
proof (cases "readerWake p \<and> idev (wCore W) \<noteq> None")
  case True
  then obtain L where "handleReader (wCore W) = Inr (True, L)" "V = setCore L W"
    using assms by (cases "handleReader (wCore W)") (auto simp: serveReader_def)
  then show ?thesis using True by auto
qed (use assms in \<open>simp add: serveReader_def split: if_splits\<close>)

lemma winPass_core:
  assumes "winPass first p W = Inr (ended, V)"
  shows "ends_like (passEvents first p W) (wCore W) ended (wCore V)"
proof -
  obtain P where P: "prepare first (made p) W = Inr P"
    using assms by (cases "prepare first (made p) W") (simp_all add: winPass_def)
  then obtain go R where R: "serveReader p P = Inr (go, R)"
    using assms by (cases "serveReader p P") (auto simp: winPass_def)
  note c = prepare_core [OF P]
  show ?thesis
  proof (cases go)
    case False
    then have V: "winClose R = Inr V" "ended" using assms P R by (auto simp: winPass_def res_simps)
    have "readerWake p \<and> (idev (wCore W) = None \<and> wCore R = wCore W
        \<or> idev (wCore W) \<noteq> None \<and> handleReader (wCore W) = Inr (False, wCore R))"
      using R False c by (auto simp: serveReader_def res_simps split: if_splits)
    then show ?thesis using False P R V winClose_core [OF V(1)]
      by (auto simp: ends_like_def passEvents_def intro!: exI [of _ "[] :: listenEvent list"])
  next
    case True
    let ?n = "length (clientList (wCore R))"
    obtain S where S: "serveClients ?n (wakeOf p) 0 R = Inr S"
      using assms P R True by (cases "serveClients ?n (wakeOf p) 0 R") (simp_all add: winPass_def)
    then have V: "acceptPipes p S = Inr V" "\<not> ended" using assms P R True by (auto simp: winPass_def res_simps)
    have R': "serveReader p P = Inr (True, R)" using R True by simp
    have "listenLoop (passEvents first p W) (wCore W) = Inr (False, wCore V)"
      using listenLoop_appendI [OF serveReader_core [OF R'] listenLoop_appendI [OF serveClients_core [OF S] acceptPipes_core [OF V(1)]]]
        P R' S c by (simp add: passEvents_def Let_def)
    then show ?thesis using V(2) by (simp add: ends_like_def)
  qed
qed

lemma winLoop_core:
  "winLoop first ps W = Inr (ended, V) \<Longrightarrow> ends_like (runEvents first ps W) (wCore W) ended (wCore V)"
proof (induction first ps W rule: winLoop.induct)
  case (2 first p ps W)
  obtain e U where U: "winPass first p W = Inr (e, U)"
    using 2(2) by (cases "winPass first p W") auto
  note pass = winPass_core [OF U]
  show ?case
  proof (cases e)
    case True
    then show ?thesis using 2(2) U pass by simp
  next
    case False
    then have "ends_like (runEvents False ps U) (wCore U) ended (wCore V)" using 2(1) 2(2) U by simp
    moreover have "listenLoop (passEvents first p W) (wCore W) = Inr (False, wCore U)"
      using pass False by (simp add: ends_like_def)
    ultimately show ?thesis using ends_like_append U False by simp
  qed
qed (simp add: ends_like_def)

section \<open>Properties\<close>

text \<open>
  C15.  The Windows listener refines the Unix loop: as long as it runs, its device and clients are in the
  state the Unix loop has after the events of the passes, and where it ends the Unix loop closes the
  listener, in a state from which the Windows version releases all clients.
\<close>

theorem windows_run_is_unix_run:
  assumes "winLoop first ps W = Inr (ended, V)"
  shows "if ended
    then \<exists>M. listenLoop (runEvents first ps W) (wCore W) = bind_res (closeListener M) (\<lambda>L. Inr (True, L))
           \<and> releaseAll (length (clientList M)) M = Inr (wCore V)
    else listenLoop (runEvents first ps W) (wCore W) = Inr (False, wCore V)"
proof (cases ended)
  case True
  then obtain b M0 M where b: "runEvents first ps W = b @ [ReaderReady]" "listenLoop b (wCore W) = Inr (False, M0)"
      "idev M0 = None \<and> M = M0 \<or> idev M0 \<noteq> None \<and> handleReader M0 = Inr (False, M)"
      "releaseAll (length (clientList M)) M = Inr (wCore V)"
    using winLoop_core [OF assms] by (auto simp: ends_like_def)
  then have "listenLoop (runEvents first ps W) (wCore W) = bind_res (closeListener M) (\<lambda>L. Inr (True, L))"
    by (auto simp: listenLoop_append)
  then show ?thesis using True b(4) by auto
qed (use winLoop_core [OF assms] in \<open>simp add: ends_like_def\<close>)

lemma polite_run_append:
  "polite_run (xs @ ys) L \<Longrightarrow> listenLoop xs L = Inr (False, M) \<Longrightarrow> polite_run xs L \<and> polite_run ys M"
  by (induction xs L rule: listenLoop.induct) (auto simp: res_simps split: if_splits)

text \<open>
  A listener of the Windows service keeps its books: with polite clients the receiver count is the number
  of clients that receive and the carrier stays in its range, and when it ends no client is left and
  the count is zero, although it gets there by events of its own.
\<close>

theorem windows_listener_invariant:
  assumes "winLoop first ps W = Inr (ended, V)" "listener_ok (wCore W)" "polite_run (runEvents first ps W) (wCore W)"
  shows "countOf (wCore V) = word_of_nat (receivers (wCore V)) \<and> modes_ok (clientList (wCore V)) \<and> device_ok (wCore V)
    \<and> (ended \<longrightarrow> clientList (wCore V) = [] \<and> countOf (wCore V) = 0)"
proof -
  note run = winLoop_core [OF assms(1)]
  have "listener_ok (wCore V) \<and> (ended \<longrightarrow> clientList (wCore V) = [])"
  proof (cases ended)
    case True
    then obtain b M0 M where b: "runEvents first ps W = b @ [ReaderReady]" "listenLoop b (wCore W) = Inr (False, M0)"
        "idev M0 = None \<and> M = M0 \<or> idev M0 \<noteq> None \<and> handleReader M0 = Inr (False, M)"
        "releaseAll (length (clientList M)) M = Inr (wCore V)"
      using run by (auto simp: ends_like_def)
    have p: "polite_run b (wCore W)" "all_known M0" using polite_run_append [OF _ b(2), of "[ReaderReady]"] assms(3) b(1) by auto
    have "listener_ok M0" using listenLoop_ok [OF b(2) assms(2) p(1)] by simp
    then have "listener_ok M" using b(3) handleReader_ok [OF _ p(2)] by auto
    then show ?thesis using releaseAll_ok [OF b(4)] by simp
  qed (use run listenLoop_ok assms in \<open>auto simp: ends_like_def\<close>)
  then show ?thesis by (auto simp: listener_ok_def receivers_def)
qed

section \<open>A run\<close>

text \<open>A client connects to the first pipe and hangs up, then the reader ends.\<close>

definition winStart :: winListener where
  "winStart = \<lparr>wCore = listenerOf (Some devWorld0) [], wId = 0, wAliases = replicate 64 (str ''1-2''), wPipes = [None, None],
     wNames = [[], []], wOver = [None, None, None], wHandles = [], wClients = (\<lambda>_. None), wNext = 1, wClosed = []\<rparr>"

definition quietPass :: "nat \<Rightarrow> pass" where
  "quietPass h = \<lparr>made = (\<lambda>x. Some (h + x)), readerWake = False, wakeOf = (\<lambda>_. Quiet), connects = (\<lambda>_. False)\<rparr>"

definition hangUpRun :: "pass list" where
  "hangUpRun = [quietPass 10 \<lparr>connects := (\<lambda>x. x = 0)\<rparr>, quietPass 20 \<lparr>wakeOf := (\<lambda>_. HungUp)\<rparr>, quietPass 30 \<lparr>readerWake := True\<rparr>]"

lemmas pass_simps = winPass_def prepare_def growHandles_def Let_def startOver_def startOverlappedAction_def preparePipes_def
  preparePipe_def pipeName_def sprintfInt_def aliasAt_def quietPass_def serveReader_def serveClient_def acceptPipes_def
  signalled_def acceptPipe_def clientConnected_def startClient_def setCore_def listenerOf_def

definition afterAccept :: winListener where
  "afterAccept = winStart\<lparr>wCore := listenerOf (Some devWorld0) [\<lparr>fd = 10, receiving = 0, c_version = 0\<rparr>],
     wPipes := [None, Some 11], wNames := [str ''0'', str ''1-2''], wOver := [Some 1, None, Some 3],
     wHandles := [HEvent 1, HEvent 2, HEvent 3], wNext := 4, wClosed := [2]\<rparr>"

lemma three_unset [simp]: "replicate 3 HUnset = [HUnset, HUnset, HUnset]"
  by (simp add: numeral_3_eq_3)

lemma two_unset: "replicate 2 HUnset = [HUnset, HUnset]"
  by (simp add: numeral_2_eq_2)

lemma dec_0: "dec 0 = [48]"
  by (simp add: dec.simps)

lemma accept_pass: "winPass True (quietPass 10 \<lparr>connects := (\<lambda>x. x = 0)\<rparr>) winStart = Inr (False, afterAccept)"
  by (simp add: pass_simps winStart_def afterAccept_def devWorld0_def str_def dec_0)

definition afterHangUp :: winListener where
  "afterHangUp = afterAccept\<lparr>wCore := listenerOf (Some devWorld0) [], wPipes := [Some 20, Some 11],
     wOver := [Some 1, Some 4, Some 3], wHandles := [HEvent 1, HEvent 4, HEvent 3, HEvent 5],
     wClients := (\<lambda>_. None)(10 := Some 5), wNext := 6\<rparr>"

lemma hang_up_pass: "winPass False (quietPass 20 \<lparr>wakeOf := (\<lambda>_. HungUp)\<rparr>) afterAccept = Inr (False, afterHangUp)"
  by (simp add: pass_simps winStart_def afterAccept_def afterHangUp_def devWorld0_def str_def dec_0 releaseClient_def removeAt_def)

lemma end_pass:
  "winPass False (quietPass 30 \<lparr>readerWake := True\<rparr>) afterHangUp
   = Inr (True, afterHangUp\<lparr>wHandles := [], wPipes := [None, None], wClosed := [2, 1, 4, 3]\<rparr>)"
  by (simp add: pass_simps winStart_def afterAccept_def afterHangUp_def devWorld0_def str_def dec_0 handleReader_def withDev_def
      winClose_def eventsOf_def take_Cons')

text \<open>
  The Windows listener loses the event of a client that hangs up: it releases the client without closing
  the event, so when the listener has ended and all clients are gone one of the five events it
  made is still open.
\<close>

theorem hung_up_client_leaks_its_event:
  "\<exists>V. winLoop True hangUpRun winStart = Inr (True, V) \<and> clientList (wCore V) = []
     \<and> {e. 1 \<le> e \<and> e < wNext V} - set (wClosed V) = {5}"
proof -
  let ?V = "afterHangUp\<lparr>wHandles := [], wPipes := [None, None], wClosed := [2, 1, 4, 3]\<rparr>"
  have "winLoop True hangUpRun winStart = Inr (True, ?V)"
    by (simp add: hangUpRun_def accept_pass hang_up_pass end_pass)
  moreover have "clientList (wCore ?V) = []" "wNext ?V = 6" by (simp_all add: afterHangUp_def listenerOf_def)
  moreover have "{e :: nat. 1 \<le> e \<and> e < 6} - {2, 1, 4, 3} = {5}" by auto
  ultimately show ?thesis by auto
qed

theorem windows_run_is_unix_run_witness:
  "\<exists>M. listenLoop (runEvents True hangUpRun winStart) (wCore winStart) = bind_res (closeListener M) (\<lambda>L. Inr (True, L))
     \<and> releaseAll (length (clientList M)) M = Inr (listenerOf (Some devWorld0) [])"
  using windows_run_is_unix_run [of True hangUpRun winStart True
      "afterHangUp\<lparr>wHandles := [], wPipes := [None, None], wClosed := [2, 1, 4, 3]\<rparr>"]
  by (simp add: hangUpRun_def accept_pass hang_up_pass end_pass) (simp add: afterHangUp_def)

lemma accept_events:
  "runEvents True [quietPass 10 \<lparr>connects := (\<lambda>x. x = 0)\<rparr>] winStart = [Accepted (Some 10)]"
  by (simp add: accept_pass passEvents_def) (simp add: acceptedEvents_def pass_simps winStart_def devWorld0_def str_def dec_0)

theorem windows_listener_invariant_witness:
  "\<exists>V. winLoop True [quietPass 10 \<lparr>connects := (\<lambda>x. x = 0)\<rparr>] winStart = Inr (False, V) \<and> clientList (wCore V) \<noteq> []
     \<and> countOf (wCore V) = word_of_nat (receivers (wCore V)) \<and> device_ok (wCore V)"
proof -
  have run: "winLoop True [quietPass 10 \<lparr>connects := (\<lambda>x. x = 0)\<rparr>] winStart = Inr (False, afterAccept)"
    by (simp add: accept_pass)
  have "listener_ok (wCore winStart)"
    by (simp add: winStart_def listenerOf_def listener_ok_def countOf_def receivers_def modes_ok_def device_ok_def carrier_ok_def devWorld0_def)
  moreover have "polite_run (runEvents True [quietPass 10 \<lparr>connects := (\<lambda>x. x = 0)\<rparr>] winStart) (wCore winStart)"
    unfolding accept_events by (simp add: winStart_def listenerOf_def)
  moreover have "clientList (wCore afterAccept) \<noteq> []" by (simp add: afterAccept_def listenerOf_def)
  ultimately show ?thesis using windows_listener_invariant [OF run] run by blast
qed

section \<open>Aliases and names\<close>

text \<open>
  The control listener of the Windows service reads past the array of aliases: it has the index 64 there,
  and the array has 64 entries, so it goes wrong in its first pass whatever Windows answers.
\<close>

theorem control_listener_reads_past_aliases:
  assumes "idev (wCore W) = None" "length (wAliases W) = MAX_DEVICES"
  shows "winListenToClients (p # ps) W = Inl OutOfBounds"
proof -
  have same: "preparePipe 0 f m U = Inr U' \<Longrightarrow> wAliases U' = wAliases U \<and> wId U' = wId U" for f m U U'
    by (auto simp: preparePipe_def startOver_def startOverlappedAction_def Let_def res_simps split: if_splits option.splits)
  have made: "\<exists>U'. preparePipe 0 f m U = Inr U'" if "idev (wCore U) = None" for f m U
    using that by (auto simp: preparePipe_def pipeName_def split: option.split)
  have past: "preparePipes f m U = Inl OutOfBounds"
    if u: "idev (wCore U) = None" "wId U = MAX_DEVICES" "length (wAliases U) = MAX_DEVICES" for f m U
  proof -
    obtain U' where "preparePipe 0 f m U = Inr U'" using made u(1) by blast
    then show ?thesis using same u by (simp add: preparePipes_def aliasAt_def)
  qed
  show ?thesis using assms
    by (simp add: past winListenToClients_def winPass_def prepare_def startOver_def startOverlappedAction_def growHandles_def Let_def)
qed

theorem control_listener_reads_past_aliases_witness:
  "winListenToClients hangUpRun (winStart\<lparr>wCore := listenerOf None []\<rparr>) = Inl OutOfBounds"
  using control_listener_reads_past_aliases [of "winStart\<lparr>wCore := listenerOf None []\<rparr>" "quietPass 10 \<lparr>connects := (\<lambda>x. x = 0)\<rparr>"]
  by (simp add: hangUpRun_def winStart_def listenerOf_def)

definition pipesOf :: "winListener \<Rightarrow> nat option list \<times> cstring list \<times> nat \<times> cstring list" where
  "pipesOf W = (wPipes W, wNames W, wId W, wAliases W)"

lemma pipesOf_start [simp]: "pipesOf (startOver x W) = pipesOf W" "pipesOf (startClient n W) = pipesOf W"
    "pipesOf (growHandles W) = pipesOf W"
  by (simp_all add: pipesOf_def startOver_def startClient_def startOverlappedAction_def growHandles_def Let_def split: option.split)

lemma pipesOf_clients [simp]: "pipesOf (snd (prepareClients cs n W)) = pipesOf W"
proof (induction cs n W rule: prepareClients.induct)
  case (2 c cs n W)
  moreover have "pipesOf (X\<lparr>wHandles := hs\<rparr>) = pipesOf X" for X hs by (simp add: pipesOf_def)
  ultimately show ?case by (simp add: Let_def)
qed simp

text \<open>
  The listener of a device: its alias is the location or the label of the device, and the second pipe,
  whenever there is one, was created under the alias the device has now.
\<close>

definition called :: "devWorld \<Rightarrow> cstring \<Rightarrow> bool" where
  "called d a \<longleftrightarrow> locAlias d = Some a \<or> userAlias d = Some a"

definition ownDev :: "nat \<Rightarrow> cstring option \<Rightarrow> listener \<Rightarrow> bool" where
  "ownDev n x L \<longleftrightarrow> (\<exists>d. idev L = Some d \<and> devId d = n \<and> (\<forall>a. x = Some a \<longrightarrow> called d a))"

definition named :: "winListener \<Rightarrow> bool" where
  "named W \<longleftrightarrow> length (wPipes W) = 2 \<and> length (wNames W) = 2 \<and> wId W < length (wAliases W)
     \<and> ownDev (wId W) (Some (wAliases W ! wId W)) (wCore W)
     \<and> (wPipes W ! 1 \<noteq> None \<longrightarrow> wNames W ! 1 = wAliases W ! wId W)"

lemma named_cong: "pipesOf U = pipesOf W \<Longrightarrow> named W \<Longrightarrow> ownDev (wId W) (Some (wAliases W ! wId W)) (wCore U) \<Longrightarrow> named U"
  by (simp add: named_def pipesOf_def)

lemma named_own: "named W \<Longrightarrow> ownDev (wId W) (Some (wAliases W ! wId W)) (wCore W)"
  by (simp add: named_def)

section \<open>The device stays the same\<close>

lemma kept_own: "kept n L L' \<Longrightarrow> ownDev i x L \<Longrightarrow> ownDev i x L'"
  by (auto simp: kept_def ownDev_def dev_kept_def called_def)

lemma idev_tellAll [simp]: "idev (tellAll t p L) = idev L"
  by (simp add: tellAll_def split: prod.split)

lemma deliver_idev: "deliver p L = Inr L' \<Longrightarrow> idev L' = idev L"
  by (auto simp: deliver_def Let_def res_simps split: if_splits option.splits)

lemma handleReader_own:
  assumes "handleReader L = Inr (ok, L')" "ownDev i x L"
  shows "ownDev i x L'"
proof -
  obtain d where d: "idev L = Some d" "devId d = i" "\<forall>a. x = Some a \<longrightarrow> called d a" using assms(2) by (auto simp: ownDev_def)
  consider "L' = L" | p ps where "deliver p (setDev (d\<lparr>readerPipe := readerPipe d - 1, recvList := ps\<rparr>) L) = Inr L'"
    using assms(1) d(1)
    by (cases "readerPipe d = 0"; cases "recvList d") (auto simp: handleReader_def withDev_def removeNextPacket_def res_simps split: if_splits)
  then show ?thesis
  proof cases
    case 1
    then show ?thesis using assms(2) by simp
  next
    case 2
    from deliver_idev [OF this] show ?thesis using d by (simp add: ownDev_def setDev_def called_def)
  qed
qed

lemma releaseClient_own:
  assumes "releaseClient k L = Inr L'" "ownDev i x L"
  shows "ownDev i x L'"
proof -
  have "devId t = devId d \<and> locAlias t = locAlias d \<and> userAlias t = userAlias d" if "deviceTransaction d r null resp = Inr (ok, t, r', resp')" for d r null resp ok t r' resp'
    using deviceTransaction_same_env [OF that] by (simp add: same_env_def)
  then show ?thesis
    using assms by (fastforce simp: releaseClient_def withDev_def setDev_def ownDev_def called_def Let_def res_simps split: if_splits option.splits)
qed

lemma request_own: "handleClientRequest r c L = Inr (ok, r', c', L') \<Longrightarrow> ownDev i x L \<Longrightarrow> ownDev i x L'"
  using handleClientRequest_effect kept_own by blast

lemma ownDev_updates [simp]:
  "ownDev i x (L\<lparr>clientList := cs\<rparr>) = ownDev i x L" "ownDev i x (L\<lparr>delivered := out\<rparr>) = ownDev i x L"
  "ownDev i x (clientConnected f L) = ownDev i x L"
  by (simp_all add: ownDev_def clientConnected_def split: option.split)

section \<open>The steps of a pass keep the name\<close>

lemma winSetAlias_named:
  assumes "winSetAlias (Some (wId W)) (Some a) W = Inr V" "length (wPipes W) = 2" "length (wNames W) = 2" "ownDev (wId W) (Some a) (wCore W)"
  shows "named V \<and> wPipes V ! 1 = None \<and> wAliases V ! wId V = a \<and> wId V = wId W \<and> wCore V = wCore W"
  using assms by (auto simp: winSetAlias_def Let_def named_def split: if_splits)

text \<open>\<open>getID\<close> sets the alias to the label it read, or to the location, and drops the second pipe.\<close>

definition nameFor :: "listener \<Rightarrow> listener \<Rightarrow> cstring" where
  "nameFor L L' = (case labelSet L L' of None \<Rightarrow> locationAlias L | Some l \<Rightarrow> l)"

lemma setCore_sel [simp]:
  "wId (setCore L W) = wId W" "wPipes (setCore L W) = wPipes W" "wNames (setCore L W) = wNames W" "wCore (setCore L W) = L"
  by (simp_all add: setCore_def)

lemma winGetID_named:
  assumes "winGetID W = Inr V" "length (wPipes W) = 2" "length (wNames W) = 2" "ownDev (wId W) x (wCore W)"
  shows "named V \<and> wPipes V ! 1 = None \<and> wAliases V ! wId V = nameFor (wCore W) (wCore V) \<and> wId V = wId W"
proof -
  let ?L = "wCore V"
  obtain X where X: "winSetAlias (Some (wId W)) (Some (locationAlias (wCore W))) (setCore ?L W) = Inr X"
      "(case labelSet (wCore W) ?L of None \<Rightarrow> Inr X | Some l \<Rightarrow> winSetAlias (Some (wId W)) (Some l) X) = Inr V"
    using assms(1) winGetID_core [OF assms(1)] by (auto simp: winGetID_def res_simps)
  obtain d where d: "idev (wCore W) = Some d" "devId d = wId W" using assms(4) by (auto simp: ownDev_def)
  from getID_kept [OF winGetID_core [OF assms(1)] d(1)] obtain u where
    "kept 0 (relabelled u (Some (locationAlias (wCore W))) (wCore W)) ?L" by blast
  then have o: "ownDev (wId W) (Some (locationAlias (wCore W))) ?L"
    using d by (elim kept_own) (simp add: ownDev_def relabelled_def called_def)
  then have "named X \<and> wPipes X ! 1 = None \<and> wAliases X ! wId X = locationAlias (wCore W) \<and> wId X = wId W \<and> wCore X = ?L"
    using winSetAlias_named [of "setCore ?L W" "locationAlias (wCore W)" X] X(1) assms(2,3) o unfolding setCore_sel by blast
  then have x: "named X" "wPipes X ! 1 = None" "wAliases X ! wId X = locationAlias (wCore W)" "wId X = wId W" "wCore X = ?L"
    by blast+
  show ?thesis
  proof (cases "labelSet (wCore W) ?L")
    case None
    then show ?thesis using X(2) x by (simp add: nameFor_def)
  next
    case (Some l)
    then have "winSetAlias (Some (wId X)) (Some l) X = Inr V" using X(2) x(4) by simp
    moreover have "ownDev (wId X) (Some l) (wCore X)"
      using o Some x(4,5) by (auto simp: ownDev_def labelSet_def called_def split: option.splits if_splits)
    ultimately have "named V \<and> wPipes V ! 1 = None \<and> wAliases V ! wId V = l \<and> wId V = wId X"
      using x(1) winSetAlias_named [of X l V] unfolding named_def by blast
    then show ?thesis using x(4) unfolding nameFor_def Some option.case by metis
  qed
qed

lemma named_setCore: "named W \<Longrightarrow> ownDev (wId W) (Some (wAliases W ! wId W)) L \<Longrightarrow> named (setCore L W)"
  by (simp add: named_def setCore_def)

lemma winHandleClient_named:
  assumes "winHandleClient i request writeOk W = Inr (ok, V)" "named W"
  shows "named V"
proof (cases request)
  case None
  then obtain L where "releaseClient i (wCore W) = Inr L" "V = setCore L W"
    using assms(1) by (auto simp: winHandleClient_def res_simps)
  then show ?thesis using named_setCore releaseClient_own named_own assms(2) by metis
next
  case (Some r)
  obtain v r' c' M where M: "handleClientRequest r (clientList (wCore W) ! i) (wCore W) = Inr (v, r', c', M)"
    using assms(1) Some by (cases "handleClientRequest r (clientList (wCore W) ! i) (wCore W)") (auto simp: winHandleClient_def)
  have own: "ownDev (wId W) (Some (wAliases W ! wId W)) M" using request_own [OF M named_own [OF assms(2)]] .
  define r2 where "r2 = (if v then r' else errorAnswer M r')"
  let ?M = "M\<lparr>clientList := (clientList M)[i := c']\<rparr>"
  let ?N = "setCore (?M\<lparr>delivered := delivered M @ [(fd c', r2)]\<rparr>) W"
  have run: "(if writeOk then bind_res (if code r2 = IG_DEV_SETID then winGetID ?N else Inr ?N) (\<lambda>W. Inr (True, W))
      else bind_res (releaseClient i ?M) (\<lambda>L. if code r2 = IG_DEV_SETID then Inl UseAfterFree else Inr (False, setCore L W)))
    = Inr (ok, V)"
    using assms(1) Some M unfolding r2_def by (simp add: winHandleClient_def Let_def split del: if_split cong: if_cong)
  have n: "named ?N" using named_setCore [OF assms(2)] own by simp
  show ?thesis
  proof (cases writeOk)
    case True
    then have "V = ?N \<or> winGetID ?N = Inr V" using run by (cases "winGetID ?N") (simp_all split: if_splits)
    then show ?thesis using n winGetID_named [of ?N V] by (auto simp: named_def)
  next
    case False
    then obtain L where "releaseClient i ?M = Inr L" "V = setCore L W"
      using run by (cases "releaseClient i ?M") (simp_all split: if_splits)
    then show ?thesis using named_setCore [OF assms(2)] releaseClient_own own ownDev_updates(1) by metis
  qed
qed

lemma serveClient_named:
  assumes "serveClient wake i W = Inr (stays, V)" "named W"
  shows "named V"
proof (cases wake)
  case HungUp
  then obtain L where "releaseClient i (wCore W) = Inr L" "V = setCore L W"
    using assms(1) by (auto simp: serveClient_def res_simps)
  then show ?thesis using named_setCore releaseClient_own named_own assms(2) by metis
next
  case (Sent r w)
  then obtain U where U: "winHandleClient i r w W = Inr (stays, U)" "pipesOf V = pipesOf U" "wCore V = wCore U"
    using assms(1) by (auto simp: serveClient_def Let_def res_simps pipesOf_def [of "_\<lparr>wClosed := _\<rparr>"] simp flip: pipesOf_def split: if_splits)
  then show ?thesis using winHandleClient_named [OF U(1) assms(2)] named_cong named_own by metis
qed (use assms in \<open>auto simp: serveClient_def\<close>)

lemma serveClients_named: "serveClients n wake i W = Inr V \<Longrightarrow> named W \<Longrightarrow> named V"
proof (induction n wake i W rule: serveClients.induct)
  case (2 n wake i W)
  then show ?case
    by (cases "serveClient (wake (fd (clientList (wCore W) ! i))) i W") (auto dest: serveClient_named split: if_splits)
qed simp

lemma serveReader_named: "serveReader p W = Inr (goOn, V) \<Longrightarrow> named W \<Longrightarrow> named V"
  by (auto simp: serveReader_def res_simps split: if_splits dest!: handleReader_own intro!: named_setCore simp: named_own)

lemma acceptPipe_named: "named W \<Longrightarrow> named (acceptPipe x W)"
  by (cases "x = 1") (auto simp: named_def acceptPipe_def Let_def)

lemma acceptPipes_named: "acceptPipes p W = Inr V \<Longrightarrow> named W \<Longrightarrow> named V"
  by (auto simp: acceptPipes_def Let_def res_simps acceptPipe_named split: if_splits)

section \<open>The pipes at the wait\<close>

lemma prepare_pipes:
  assumes "prepare fp m W = Inr U"
  shows "\<exists>n X Y. preparePipes fp m Y = Inr (n, X) \<and> pipesOf Y = pipesOf W \<and> wCore Y = wCore W \<and> pipesOf U = pipesOf X"
proof -
  define Y where "Y = (if fp then startOver 0 (growHandles W) else growHandles W)"
  have Y: "pipesOf Y = pipesOf W" "wCore Y = wCore W" by (simp_all add: Y_def) (simp add: growHandles_def Let_def)
  obtain n X where X: "preparePipes fp m Y = Inr (n, X)"
    using assms by (cases "preparePipes fp m Y") (auto simp: prepare_def Y_def)
  then have "U = snd (prepareClients (clientList (wCore X)) n X)"
    using assms by (simp add: prepare_def Let_def split: prod.splits if_splits flip: Y_def)
  then show ?thesis using X Y by (metis pipesOf_clients)
qed

lemma preparePipe_pipes:
  assumes "preparePipe x fp m W = Inr X"
  shows "pipesOf X = pipesOf W \<and> \<not> (m x \<noteq> None \<and> (fp \<or> wPipes W ! x = None))
    \<or> (\<exists>h name. m x = Some h \<and> pipeName x W = Inr name
         \<and> pipesOf X = ((wPipes W)[x := Some h], (wNames W)[x := name], wId W, wAliases W))"
proof -
  have "X = W \<and> \<not> (m x \<noteq> None \<and> (fp \<or> wPipes W ! x = None)) \<or> (\<exists>h name. m x = Some h \<and> pipeName x W = Inr name
         \<and> X = startOver (x + 1) (W\<lparr>wPipes := (wPipes W)[x := Some h], wNames := (wNames W)[x := name]\<rparr>))"
    using assms by (auto simp: preparePipe_def res_simps split: if_splits option.splits)
  then show ?thesis by (auto simp: pipesOf_def [of "W\<lparr>wPipes := _, wNames := _\<rparr>"])
qed

lemma prepare_named:
  assumes "prepare fp m W = Inr U" "named W"
  shows "named U" and "m 1 \<noteq> None \<Longrightarrow> wAliases W ! wId W \<noteq> [] \<Longrightarrow>
    wPipes U ! 1 \<noteq> None \<and> wNames U ! 1 = wAliases W ! wId W \<and> wAliases U = wAliases W \<and> wId U = wId W"
proof -
  let ?a = "wAliases W ! wId W"
  obtain n X Y where X: "preparePipes fp m Y = Inr (n, X)" "pipesOf Y = pipesOf W" "wCore Y = wCore W" "pipesOf U = pipesOf X"
    using prepare_pipes [OF assms(1)] by blast
  have own: "ownDev (wId W) (Some ?a) (wCore W)" using assms(2) by (rule named_own)
  obtain Z where Z: "preparePipe 0 fp m Y = Inr Z" using X(1) by (cases "preparePipe 0 fp m Y") (simp_all add: preparePipes_def)
  have z: "\<exists>a b. pipesOf Z = ((wPipes W)[0 := a], (wNames W)[0 := b], wId W, wAliases W)"
  proof -
    have "\<exists>a. xs = xs[0 := a]" for xs :: "'a list" using list_update_id [of xs 0] by metis
    moreover have "\<exists>b. ys = ys[0 := b]" for ys :: "'b list" using list_update_id [of ys 0] by metis
    ultimately show ?thesis using preparePipe_pipes [OF Z] X(2) by (auto simp: pipesOf_def)
  qed
  have zc: "wCore Z = wCore W" using preparePipe_core [OF Z] X(3) by simp
  have nZ: "named Z" using z zc assms(2) own by (auto simp: named_def pipesOf_def)
  have i: "wId W < length (wAliases W)" using assms(2) by (simp add: named_def)
  have nm: "aliasAt (wId Z) Z = Inr ?a" "pipeName 1 Z = Inr ?a"
    using z zc own i by (auto simp: pipesOf_def aliasAt_def pipeName_def ownDev_def)
  have "pipesOf X = pipesOf Z \<and> (?a = [] \<or> \<not> (m 1 \<noteq> None \<and> (fp \<or> wPipes Z ! 1 = None)))
    \<or> (\<exists>h. m 1 = Some h \<and> pipesOf X = ((wPipes Z)[1 := Some h], (wNames Z)[1 := ?a], wId Z, wAliases Z))"
  proof (cases "?a = []")
    case True
    then have "X = Z\<lparr>wHandles := (wHandles Z)[2 := HNull]\<rparr>" using X(1) Z nm(1) by (simp add: preparePipes_def)
    then show ?thesis using True by (simp add: pipesOf_def)
  next
    case False
    then have "preparePipe 1 fp m Z = Inr X" using X(1) Z nm(1) by (auto simp: preparePipes_def res_simps)
    from preparePipe_pipes [OF this] show ?thesis using nm(2) by auto
  qed
  then have x: "(pipesOf U = pipesOf Z \<and> (?a = [] \<or> \<not> (m 1 \<noteq> None \<and> (fp \<or> wPipes Z ! 1 = None))))
    \<or> (\<exists>h. m 1 = Some h \<and> pipesOf U = ((wPipes Z)[1 := Some h], (wNames Z)[1 := ?a], wId Z, wAliases Z))"
    using X(4) by simp
  have a: "wAliases Z ! wId Z = ?a" "wAliases Z = wAliases W" "wId Z = wId W" using z by (auto simp: pipesOf_def)
  have uo: "ownDev (wId Z) (Some ?a) (wCore U)" using prepare_core [OF assms(1)] own a(3) by simp
  show "named U" using x nZ uo a by (auto simp: named_def pipesOf_def)
  show "wPipes U ! 1 \<noteq> None \<and> wNames U ! 1 = ?a \<and> wAliases U = wAliases W \<and> wId U = wId W" if "m 1 \<noteq> None" "?a \<noteq> []"
    using x nZ a that by (auto simp: named_def pipesOf_def)
qed

lemma winPass_named:
  assumes "winPass fp p W = Inr (False, V)" "named W"
  shows "named V"
proof -
  obtain U where U: "prepare fp (made p) W = Inr U" using assms(1) by (cases "prepare fp (made p) W") (simp_all add: winPass_def)
  obtain X where X: "serveReader p U = Inr (True, X)"
    using assms(1) U by (auto simp: winPass_def res_simps split: if_splits)
  then obtain Y where "serveClients (length (clientList (wCore X))) (wakeOf p) 0 X = Inr Y" "acceptPipes p Y = Inr V"
    using assms(1) U by (auto simp: winPass_def res_simps)
  then show ?thesis
    using prepare_named(1) [OF U assms(2)] serveReader_named [OF X] serveClients_named acceptPipes_named by blast
qed

lemma winLoop_named: "winLoop fp ps W = Inr (False, V) \<Longrightarrow> named W \<Longrightarrow> named V"
proof (induction ps arbitrary: fp W)
  case (Cons p ps)
  obtain ended U where U: "winPass fp p W = Inr (ended, U)" using Cons.prems(1) by (cases "winPass fp p W") auto
  then have "\<not> ended" using Cons.prems(1) by auto
  then show ?case using U Cons winPass_named by auto
qed simp

text \<open>
  C29.  A device on Windows is reachable under its label: after any number of passes in which nothing faults, the
  alias is the location of the device or the label the daemon holds for it, and the second pipe of its
  listener, if there is one, was created under that alias; the wait of the next pass has that pipe unless the
  alias is empty or Windows refuses it; and a \<open>getID\<close> after these passes makes the alias the label it read, or
  the location without one, drops the pipe under the old alias, and whatever passes follow, the second pipe
  again carries the alias.
\<close>

theorem labelled_device_gets_its_pipe:
  assumes "winListenToClients ps W = Inr (False, V)" "idev (wCore W) = Some d" "length (wPipes W) = 2" "length (wNames W) = 2"
  shows "(\<exists>e. idev (wCore V) = Some e \<and> called e (wAliases V ! wId V))
    \<and> (wPipes V ! 1 \<noteq> None \<longrightarrow> wNames V ! 1 = wAliases V ! wId V)
    \<and> (\<forall>m U. prepare (ps = []) m V = Inr U \<and> m 1 \<noteq> None \<and> wAliases V ! wId V \<noteq> [] \<longrightarrow>
          wPipes U ! 1 \<noteq> None \<and> wNames U ! 1 = wAliases V ! wId V)
    \<and> (\<forall>V'. winGetID V = Inr V' \<longrightarrow> wPipes V' ! 1 = None \<and> wAliases V' ! wId V' = nameFor (wCore V) (wCore V')
          \<and> (\<forall>qs X. winLoop (ps = []) qs V' = Inr (False, X) \<longrightarrow> wPipes X ! 1 \<noteq> None \<longrightarrow> wNames X ! 1 = wAliases X ! wId X))"
proof -
  obtain X where X: "winGetID (W\<lparr>wId := devId d\<rparr>) = Inr X" "winLoop True ps (X\<lparr>wOver := [None, None, None], wHandles := []\<rparr>) = Inr (False, V)"
    using assms(1,2) by (auto simp: winListenToClients_def res_simps)
  have "ownDev (devId d) None (wCore W)" using assms(2) by (simp add: ownDev_def)
  then have "named X" using winGetID_named [OF X(1)] assms(3,4) by simp
  then have "named (X\<lparr>wOver := [None, None, None], wHandles := []\<rparr>)" by (simp add: named_def)
  then have V: "named V" using winLoop_named [OF X(2)] by blast
  then have l: "length (wPipes V) = 2" "length (wNames V) = 2" "ownDev (wId V) (Some (wAliases V ! wId V)) (wCore V)" by (simp_all add: named_def)
  show ?thesis
  proof (intro conjI allI impI)
    show "\<exists>e. idev (wCore V) = Some e \<and> called e (wAliases V ! wId V)" using l(3) by (auto simp: ownDev_def)
  next
    show "wPipes V ! 1 \<noteq> None \<Longrightarrow> wNames V ! 1 = wAliases V ! wId V" using V by (simp add: named_def)
  next
    fix m U assume "prepare (ps = []) m V = Inr U \<and> m 1 \<noteq> None \<and> wAliases V ! wId V \<noteq> []"
    then show "wPipes U ! 1 \<noteq> None" "wNames U ! 1 = wAliases V ! wId V" using prepare_named(2) [OF _ V] by blast+
  next
    fix V' assume g: "winGetID V = Inr V'"
    show "wPipes V' ! 1 = None" "wAliases V' ! wId V' = nameFor (wCore V) (wCore V')" using winGetID_named [OF g l] by blast+
    fix qs X assume "winLoop (ps = []) qs V' = Inr (False, X)" "wPipes X ! 1 \<noteq> None"
    then show "wNames X ! 1 = wAliases X ! wId X" using winLoop_named winGetID_named [OF g l] by (metis named_def)
  qed
qed

text \<open>A device that has the label \<open>tv\<close>, and the first pass of its listener.\<close>

definition labelled :: devWorld where
  "labelled = answering 0x308 (\<lambda>n. \<lparr>code = IG_DEV_GETID, dataLen = 12, data = Some (str ''tv'' @ replicate 10 0)\<rparr>)"

definition winLabelled :: winListener where
  "winLabelled = winStart\<lparr>wCore := (listenerOf (Some labelled) [])\<lparr>readLabels := True\<rparr>\<rparr>"

lemma label_read:
  "\<exists>L e. getID (wCore winLabelled) = Inr L \<and> idev L = Some e \<and> devId e = 0 \<and> userAlias e = Some (str ''tv'') \<and> clientList L = []
     \<and> locationAlias (wCore winLabelled) = locationAlias (listenerOf None [])"
  by (simp add: winLabelled_def winStart_def listenerOf_def labelled_def getID_def withDev_def readLabel_def sprintfInt_def dec_0
      setDev_def hasNoId_def run_simps translateProtocol_def labelOf_def str_def locationAlias_def)

theorem labelled_device_gets_its_pipe_witness:
  "\<exists>V. winListenToClients [quietPass 10] winLabelled = Inr (False, V) \<and> wPipes V ! 1 = Some 11 \<and> wNames V ! 1 = str ''tv''
     \<and> wAliases V ! wId V = str ''tv''"
proof -
  obtain L e where L: "getID (wCore winLabelled) = Inr L" "idev L = Some e" "devId e = 0" "userAlias e = Some (str ''tv'')" "clientList L = []"
      "locationAlias (wCore winLabelled) = locationAlias (listenerOf None [])"
    using label_read by blast
  have z: "length (locationAlias (listenerOf None [])) < MAX_PATH"
    by (simp add: locationAlias_def listenerOf_def str_def dec.simps)
  define X where "X = winLabelled\<lparr>wCore := L, wAliases := (replicate 64 (str ''1-2''))[0 := str ''tv'']\<rparr>"
  have "labelSet (wCore winLabelled) L = Some (str ''tv'')"
    using L(2,4) by (simp add: labelSet_def winLabelled_def listenerOf_def labelled_def answering_def hasNoId_def)
  then have X: "winGetID (winLabelled\<lparr>wId := 0\<rparr>) = Inr X"
    using L(1,6) z by (simp add: winGetID_def winSetAlias_def setCore_def X_def) (simp add: winLabelled_def winStart_def str_def)
  have d: "idev (wCore winLabelled) = Some labelled" "devId labelled = 0" by (simp_all add: winLabelled_def listenerOf_def labelled_def answering_def devWorld0_def)
  obtain V where V: "winListenToClients [quietPass 10] winLabelled = Inr (False, V)" "wPipes V ! 1 = Some 11" "wAliases V ! wId V = str ''tv''"
    using L(2,3,5) by (simp add: winListenToClients_def d X winPass_def serveReader_def acceptPipes_def)
      (simp add: X_def pass_simps winLabelled_def winStart_def str_def dec_0 quietPass_def)
  show ?thesis
    using labelled_device_gets_its_pipe [OF V(1) d(1)] V by (auto simp: winLabelled_def winStart_def)
qed

section \<open>The address of a device\<close>

text \<open>
  Nothing on Windows notes the address of a device, so a client that asks for it takes the daemon down: the
  request copies the string at a null pointer.
\<close>

theorem address_request_ends_windows_daemon:
  assumes "idev (wCore W) = Some d" "addrStr d = None" "c_version (clientList (wCore W) ! i) = 1"
  shows "serveClient (Sent (Some (requestOf IG_DEV_GETADDRESS)) writeOk) i W = Inl NullDeref"
  using assms by (simp add: serveClient_def winHandleClient_def Let_def handleClientRequest_def translateProtocol_v1
      requestOf_def DATA_PACKET_INIT_def checkIncomingProtocol_def findTypeEntry_def types_def vt_def
      payloadMatch_def uchar_def setErrno_def requestSwitch_def getAddress_def withDev_def)

theorem address_request_ends_windows_daemon_witness:
  "serveClient (Sent (Some (requestOf IG_DEV_GETADDRESS)) True) 0
     (winStart\<lparr>wCore := listenerOf (Some devWorld0) [\<lparr>fd = 10, receiving = 0, c_version = 1\<rparr>]\<rparr>) = Inl NullDeref"
  by (rule address_request_ends_windows_daemon [of _ devWorld0]) (simp_all add: listenerOf_def devWorld0_def)

end
