(* ===== verification/Driver_Search.thy ===== *)
theory Driver_Search
  imports Pipes
begin

text \<open>
  \<open>driver.c\<close>: finding the shared object with the driver.  Whether a file loads as a library with a driver in
  it is an argument.
\<close>

definition DYNLIB_EXT :: cstring where "DYNLIB_EXT = str ''.so''"

abbreviation (input) dot_char :: byte where "dot_char \<equiv> 0x2E"

text \<open>\<open>strrchr\<close>: the rest of the string from the last occurrence on.\<close>

definition strrchr :: "cstring \<Rightarrow> byte \<Rightarrow> cstring option" where
  "strrchr s c = (if c \<in> set s then Some (c # rev (takeWhile (\<lambda>x. x \<noteq> c) (rev s))) else None)"

definition loadDriver :: "(cstring \<Rightarrow> bool) \<Rightarrow> cstring \<Rightarrow> bool" where
  "loadDriver loads path \<longleftrightarrow> strrchr path dot_char = Some DYNLIB_EXT \<and> loads path"

text \<open>Copying into the array of PATH_MAX bytes.\<close>

definition fits :: "cstring \<Rightarrow> cstring res" where
  "fits s = (if length s < PATH_MAX then Inr s else Inl OutOfBounds)"

definition driverPath :: "cstring option \<Rightarrow> cstring \<Rightarrow> cstring res" where
  "driverPath base name =
     (if name \<noteq> [] \<and> hd name = slash_char then fits name
      else case base of
        None \<Rightarrow> fits name
      | Some r \<Rightarrow>
          if r = [] then Inl OutOfBounds
          else fits (r @ (if last r \<noteq> slash_char then [slash_char] else []) @ name))"

text \<open>The result says whether a driver was loaded, and from which path.\<close>

definition checkDriver :: "(cstring \<Rightarrow> bool) \<Rightarrow> cstring option \<Rightarrow> cstring \<Rightarrow> cstring option res" where
  "checkDriver loads base name =
     bind_res (driverPath base name) (\<lambda>driver.
       if loadDriver loads driver then Inr (Some driver)
       else if strrchr name dot_char = None \<and> strrchr name slash_char = None
       then bind_res (fits (driver @ DYNLIB_EXT)) (\<lambda>driver. Inr (if loadDriver loads driver then Some driver else None))
       else Inr None)"

fun checkPreferred :: "(cstring \<Rightarrow> bool) \<Rightarrow> cstring \<Rightarrow> cstring list \<Rightarrow> cstring option res" where
  "checkPreferred loads dir [] = Inr None"
| "checkPreferred loads dir (n # ns) =
     bind_res (checkDriver loads (Some dir) n) (\<lambda>r.
       if r \<noteq> None then Inr r
       else bind_res (checkDriver loads None n) (\<lambda>r. if r \<noteq> None then Inr r else checkPreferred loads dir ns))"

fun checkDirectory :: "(cstring \<Rightarrow> bool) \<Rightarrow> cstring \<Rightarrow> cstring list \<Rightarrow> cstring option res" where
  "checkDirectory loads dir [] = Inr None"
| "checkDirectory loads dir (f # fs) =
     bind_res (checkDriver loads (Some dir) f) (\<lambda>r. if r \<noteq> None then Inr r else checkDirectory loads dir fs)"

text \<open>
  The lines of \<open>/proc/self/maps\<close> with the range \<open>sscanf\<close> reads from each, and the search for the directory of
  the object that holds \<open>target\<close>: the text between the last space and the last slash.  The slash is cut
  after \<open>object\<close> was set, so one before \<open>object\<close> leaves it whole.
\<close>

record mapsLine =
  rangeStart :: nat
  rangeEnd :: nat
  lineOf :: cstring

definition objectDir :: "cstring \<Rightarrow> cstring res" where
  "objectDir buffer =
     (case (strrchr buffer 0x20, strrchr buffer slash_char) of
        (Some sp, Some sl) \<Rightarrow>
          let object = length buffer - length sp + 1; cut = length buffer - length sl + 1
          in Inr ((if object \<le> cut then drop object (take cut buffer) else drop object buffer) @ str ''iguanaIR'')
      | _ \<Rightarrow> Inl NullDeref)"

fun findDriverDir :: "nat \<Rightarrow> mapsLine list \<Rightarrow> cstring option res" where
  "findDriverDir target [] = Inr None"
| "findDriverDir target (m # ms) =
     (if rangeStart m < target \<and> target < rangeEnd m then bind_res (objectDir (lineOf m)) (\<lambda>d. Inr (Some d))
      else findDriverDir target ms)"

text \<open>The next entry of an open directory that is no directory itself, with the entries after it.\<close>

fun findNextFile :: "(cstring \<times> bool) list \<Rightarrow> (cstring \<times> (cstring \<times> bool) list) option" where
  "findNextFile [] = None"
| "findNextFile ((name, isDir) # es) = (if isDir then findNextFile es else Some (name, es))"

lemma findNextFile_shorter: "findNextFile es = Some (n, es') \<Longrightarrow> length es' < length es"
  by (induction es rule: findNextFile.induct) (auto split: if_splits)

text \<open>The loop of the callers: the names they see.\<close>

function filesOf :: "(cstring \<times> bool) list \<Rightarrow> cstring list" where
  "filesOf es = (case findNextFile es of None \<Rightarrow> [] | Some (n, es) \<Rightarrow> n # filesOf es)"
  by pat_completeness auto
termination by (relation "measure length") (auto dest: findNextFile_shorter)

declare filesOf.simps [simp del]

text \<open>
  The directory that was given, the one the library itself was loaded from, or the one of the system;
  \<open>listing\<close> gives the files of a directory.
\<close>

definition driverDir :: "cstring option \<Rightarrow> cstring option \<Rightarrow> bool \<Rightarrow> cstring" where
  "driverDir given found lib64 =
     (case given of Some d \<Rightarrow> d
      | None \<Rightarrow> case found of Some d \<Rightarrow> d
                | None \<Rightarrow> if lib64 then str ''/usr/lib64/iguanaIR'' else str ''/usr/lib/iguanaIR'')"

definition findDriver ::
  "(cstring \<Rightarrow> bool) \<Rightarrow> (cstring \<Rightarrow> cstring list) \<Rightarrow> cstring \<Rightarrow> cstring list \<Rightarrow> bool \<Rightarrow> cstring option res" where
  "findDriver loads listing dir preferred onlyPreferred =
     bind_res (checkPreferred loads dir preferred) (\<lambda>r.
       if r \<noteq> None then Inr r
       else if onlyPreferred then Inr None
       else bind_res (fits dir) (\<lambda>dir. checkDirectory loads dir (listing dir)))"

section \<open>Properties\<close>

lemma loadDriver_loads: "loadDriver loads p \<Longrightarrow> loads p \<and> strrchr p dot_char = Some DYNLIB_EXT"
  by (simp add: loadDriver_def)

lemma checkDriver_loads:
  "checkDriver loads base name = Inr (Some p) \<Longrightarrow> loads p \<and> strrchr p dot_char = Some DYNLIB_EXT \<and> length p < PATH_MAX"
  by (auto simp: checkDriver_def driverPath_def fits_def res_simps loadDriver_def split: if_splits option.splits)

lemma checkPreferred_loads:
  "checkPreferred loads dir ns = Inr (Some p) \<Longrightarrow> loads p \<and> strrchr p dot_char = Some DYNLIB_EXT \<and> length p < PATH_MAX"
  by (induction ns) (auto simp: res_simps split: if_splits dest: checkDriver_loads)

lemma checkDirectory_loads:
  "checkDirectory loads dir fs = Inr (Some p) \<Longrightarrow> loads p \<and> strrchr p dot_char = Some DYNLIB_EXT \<and> length p < PATH_MAX"
  by (induction fs) (auto simp: res_simps split: if_splits dest: checkDriver_loads)

text \<open>What the search returns loads, is named as a shared object and fits the path buffer.\<close>

lemma findDriver_loads:
  "findDriver loads listing dir preferred only = Inr (Some p) \<Longrightarrow>
     loads p \<and> strrchr p dot_char = Some DYNLIB_EXT \<and> length p < PATH_MAX"
  by (auto simp: findDriver_def res_simps split: if_splits dest: checkPreferred_loads checkDirectory_loads)

text \<open>Every file of a directory is tried, in order, and no directory.\<close>

lemma filesOf_eq: "filesOf es = map fst (filter (\<lambda>e. \<not> snd e) es)"
proof (induction es rule: filesOf.induct)
  case (1 es)
  have "(findNextFile es = None \<longrightarrow> filter (\<lambda>e. \<not> snd e) es = [])
      \<and> (\<forall>n es'. findNextFile es = Some (n, es') \<longrightarrow> filter (\<lambda>e. \<not> snd e) es = (n, False) # filter (\<lambda>e. \<not> snd e) es')"
    by (induction es rule: findNextFile.induct) auto
  then show ?case using 1 by (subst filesOf.simps) (auto split: option.splits)
qed

lemma strrchr_last: "c \<notin> set b \<Longrightarrow> strrchr (a @ c # b) c = Some (c # b)"
  by (simp add: strrchr_def takeWhile_append takeWhile_tail)

text \<open>
  The drivers next to the library are found from the line its code is mapped by, unless the path has a
  space: then only the text after the last space is taken.
\<close>

lemma library_dir_found:
  assumes "rangeStart m < target" "target < rangeEnd m" "lineOf m = prefix @ 0x20 # dir @ slash_char # file"
    and "0x20 \<notin> set dir" "0x20 \<notin> set file" "slash_char \<notin> set file"
  shows "findDriverDir target (m # ms) = Inr (Some (dir @ slash_char # str ''iguanaIR''))"
proof -
  have "strrchr (lineOf m) 0x20 = Some (0x20 # dir @ slash_char # file)"
    unfolding assms(3) by (rule strrchr_last) (use assms(4,5) in auto)
  moreover have "strrchr (lineOf m) slash_char = Some (slash_char # file)"
    using strrchr_last [OF assms(6), of "prefix @ 0x20 # dir"] assms(3) by simp
  ultimately show ?thesis using assms(1-3) by (simp add: objectDir_def)
qed

lemma space_cuts_the_path:
  "findDriverDir 5 [\<lparr>rangeStart = 1, rangeEnd = 9, lineOf = str ''1-9 r-xp 0 08:01 7 /home/a b/libdirectIguanaIR.so''\<rparr>]
     = Inr (Some (str ''b/iguanaIR''))"
  by (simp add: objectDir_def strrchr_def str_def)

lemma strrchr_ext: "strrchr (s @ DYNLIB_EXT) dot_char = Some DYNLIB_EXT"
  by (simp add: strrchr_def DYNLIB_EXT_def str_def)

text \<open>
  A driver is found by its bare name: when the directory has a shared object of that name that loads,
  and the name is the first one preferred, that object is the driver, wherever else drivers are.
\<close>

theorem preferred_driver_is_found:
  assumes "dir \<noteq> []" "last dir \<noteq> slash_char" "name \<noteq> []" "dot_char \<notin> set name" "slash_char \<notin> set name"
    and "length dir + length name + 4 < PATH_MAX" "loads (dir @ [slash_char] @ name @ DYNLIB_EXT)" "\<not> loads (dir @ [slash_char] @ name)"
  shows "findDriver loads listing dir (name # others) only = Inr (Some (dir @ [slash_char] @ name @ DYNLIB_EXT))"
proof -
  let ?p = "dir @ [slash_char] @ name"
  have "hd name \<noteq> slash_char" using assms(3,5) by (metis list.set_sel(1))
  then have d: "driverPath (Some dir) name = Inr ?p" using assms(1,2,6) by (simp add: driverPath_def fits_def)
  have "length (?p @ DYNLIB_EXT) < PATH_MAX" using assms(6) by (simp add: DYNLIB_EXT_def str_def)
  moreover have "strrchr name dot_char = None" "strrchr name slash_char = None" using assms(4,5) by (simp_all add: strrchr_def)
  ultimately have "checkDriver loads (Some dir) name = Inr (Some (?p @ DYNLIB_EXT))"
    using d assms(7,8) strrchr_ext [of ?p] by (simp add: checkDriver_def loadDriver_def fits_def)
  then show ?thesis by (simp add: findDriver_def)
qed

theorem preferred_driver_is_found_witness:
  "findDriver (\<lambda>p. p = str ''/usr/lib/iguanaIR/libusb.so'') (\<lambda>_. []) (str ''/usr/lib/iguanaIR'') [str ''libusb''] True
     = Inr (Some (str ''/usr/lib/iguanaIR/libusb.so''))"
  using preferred_driver_is_found [of "str ''/usr/lib/iguanaIR''" "str ''libusb''" "\<lambda>p. p = str ''/usr/lib/iguanaIR/libusb.so''" "\<lambda>_. []" "[]" True]
  by (simp add: str_def DYNLIB_EXT_def)

end
