(* ===== verification/Windows_Service.thy ===== *)
theory Windows_Service
  imports Command_Race Windows_Pipes Driver_Search
begin

text \<open>
  \<open>win32/service.c\<close> without its listener: the daemon as a service of Windows, told by the service manager to
  stop, pause, go on or look at a new device; the options that steer that service; \<open>main\<close>; and the paths
  that are handed to Windows.  What the calls of Windows answer are arguments.
\<close>

abbreviation (input) SERVICE_STOPPED :: nat where "SERVICE_STOPPED \<equiv> 1"
abbreviation (input) SERVICE_START_PENDING :: nat where "SERVICE_START_PENDING \<equiv> 2"
abbreviation (input) SERVICE_STOP_PENDING :: nat where "SERVICE_STOP_PENDING \<equiv> 3"
abbreviation (input) SERVICE_RUNNING :: nat where "SERVICE_RUNNING \<equiv> 4"
abbreviation (input) SERVICE_CONTINUE_PENDING :: nat where "SERVICE_CONTINUE_PENDING \<equiv> 5"
abbreviation (input) SERVICE_PAUSE_PENDING :: nat where "SERVICE_PAUSE_PENDING \<equiv> 6"
abbreviation (input) SERVICE_PAUSED :: nat where "SERVICE_PAUSED \<equiv> 7"
abbreviation (input) SERVICE_CONTROL_STOP :: nat where "SERVICE_CONTROL_STOP \<equiv> 1"
abbreviation (input) SERVICE_CONTROL_PAUSE :: nat where "SERVICE_CONTROL_PAUSE \<equiv> 2"
abbreviation (input) SERVICE_CONTROL_CONTINUE :: nat where "SERVICE_CONTROL_CONTINUE \<equiv> 3"
abbreviation (input) SERVICE_CONTROL_DEVICEEVENT :: nat where "SERVICE_CONTROL_DEVICEEVENT \<equiv> 11"
abbreviation (input) DBT_DEVICEARRIVAL :: nat where "DBT_DEVICEARRIVAL \<equiv> 0x8000"
abbreviation (input) SERVICE_START :: nat where "SERVICE_START \<equiv> 0x10"
abbreviation (input) SERVICE_STOP :: nat where "SERVICE_STOP \<equiv> 0x20"
abbreviation (input) SERVICE_PAUSE_CONTINUE :: nat where "SERVICE_PAUSE_CONTINUE \<equiv> 0x40"
abbreviation (input) DELETE_ACCESS :: nat where "DELETE_ACCESS \<equiv> 0x10000"
abbreviation (input) ERROR_FAILED_SERVICE_CONTROLLER_CONNECT :: int where
  "ERROR_FAILED_SERVICE_CONTROLLER_CONNECT \<equiv> 1063"

section \<open>The service\<close>

text \<open>\<open>granted\<close> are the handles the next registrations for notifications will get, NULL when they fail.\<close>

record serviceState =
  reported :: "nat list"             \<comment> \<open>what the service manager was told, in order\<close>
  hubHandle :: "nat option"
  devHandle :: "nat option"
  granted :: "nat option list"
  unregistered :: "nat list"         \<comment> \<open>the calls of \<open>UnregisterDeviceNotification\<close>\<close>
  commWords :: "commWord list"

definition setServiceStatus :: "nat \<Rightarrow> serviceState \<Rightarrow> serviceState" where
  "setServiceStatus st s = s\<lparr>reported := reported s @ [st]\<rparr>"

definition nextGrant :: "nat option list \<Rightarrow> nat option" where
  "nextGrant gs = (case gs of [] \<Rightarrow> None | g # _ \<Rightarrow> g)"

definition registerNotifications :: "serviceState \<Rightarrow> serviceState" where
  "registerNotifications s =
     s\<lparr>hubHandle := nextGrant (granted s), devHandle := nextGrant (drop 1 (granted s)), granted := drop 2 (granted s)\<rparr>"

definition unregisterNotifications :: "serviceState \<Rightarrow> serviceState" where
  "unregisterNotifications s =
     (let s = (case hubHandle s of None \<Rightarrow> s | Some h \<Rightarrow> s\<lparr>unregistered := unregistered s @ [h]\<rparr>)
      in case devHandle s of None \<Rightarrow> s | Some h \<Rightarrow> s\<lparr>unregistered := unregistered s @ [h]\<rparr>)"

definition trigger :: "nat \<Rightarrow> serviceState \<Rightarrow> serviceState" where
  "trigger c s = s\<lparr>commWords := commWords s @ triggerCommand c\<rparr>"

definition serviceHandler :: "nat \<times> nat \<Rightarrow> serviceState \<Rightarrow> serviceState" where
  "serviceHandler c s =
     (let (code, eventType) = c
      in if code = SERVICE_CONTROL_STOP
         then trigger QUIT_TRIGGER (unregisterNotifications (setServiceStatus SERVICE_STOP_PENDING s))
         else if code = SERVICE_CONTROL_DEVICEEVENT
         then (if eventType = DBT_DEVICEARRIVAL then trigger SCAN_TRIGGER s else s)
         else if code = SERVICE_CONTROL_PAUSE
         then setServiceStatus SERVICE_PAUSED (unregisterNotifications (setServiceStatus SERVICE_PAUSE_PENDING s))
         else if code = SERVICE_CONTROL_CONTINUE
         then setServiceStatus SERVICE_RUNNING
                (trigger SCAN_TRIGGER (registerNotifications (setServiceStatus SERVICE_CONTINUE_PENDING s)))
         else s)"

text \<open>The handler for the console.\<close>

datatype ctrlType = CTRL_C_EVENT | CTRL_CLOSE_EVENT | CTRL_BREAK_EVENT | CTRL_LOGOFF_EVENT | CTRL_SHUTDOWN_EVENT | OtherCtrl

definition CtrlHandler :: "ctrlType \<Rightarrow> commWord list" where
  "CtrlHandler t = (if t = OtherCtrl then [] else triggerCommand QUIT_TRIGGER)"

text \<open>
  The service from its start to its end: \<open>early\<close> are the calls of the handler before \<open>waitOnCommPipe\<close> asks
  for its first scan, \<open>late\<close> those after it and before the last report.  (A call that writes just between
  the two words of that request is the case of \<open>Command_Race\<close>.)  Nothing is returned when the service
  cannot be registered, and the flag tells whether it has stopped.
\<close>

definition serviceStart :: "nat option list \<Rightarrow> serviceState" where
  "serviceStart gs =
     setServiceStatus SERVICE_RUNNING (registerNotifications (setServiceStatus SERVICE_START_PENDING
       \<lparr>reported = [], hubHandle = None, devHandle = None, granted = gs, unregistered = [], commWords = []\<rparr>))"

definition serviceMain :: "bool \<Rightarrow> nat option list \<Rightarrow> (nat \<times> nat) list \<Rightarrow> (nat \<times> nat) list
    \<Rightarrow> (bool \<times> commState \<times> serviceState) option" where
  "serviceMain handlerRegistered gs early late =
     (if \<not> handlerRegistered then None
      else let s1 = fold serviceHandler early (serviceStart gs);
               s = fold serviceHandler late s1;
               (stopped, c) = waitOnCommPipe False False (commWords s1) [] (drop (length (commWords s1)) (commWords s))
                                \<lparr>joined = [], scans = 0\<rparr>
           in Some (stopped, c, if stopped then setServiceStatus SERVICE_STOPPED s else s))"

section \<open>Options that steer the service\<close>

text \<open>The service manager: which calls of it succeed.\<close>

record scManager =
  opens :: bool
  opensService :: "nat \<Rightarrow> bool"      \<comment> \<open>by the access that is asked for\<close>
  starts :: bool
  controlsService :: "nat \<Rightarrow> bool"
  deletes :: bool

definition changeServiceState :: "nat \<Rightarrow> scManager \<Rightarrow> bool" where
  "changeServiceState action m \<longleftrightarrow>
     (opens m
      \<and> (let access = (if action = SERVICE_CONTROL_PAUSE \<or> action = SERVICE_CONTROL_CONTINUE
                       then SERVICE_PAUSE_CONTINUE else action)
         in opensService m access)
      \<and> (if action = SERVICE_START then starts m
         else if action = SERVICE_STOP then controlsService m SERVICE_CONTROL_STOP
         else if action = SERVICE_CONTROL_PAUSE then controlsService m SERVICE_CONTROL_PAUSE
         else if action = SERVICE_CONTROL_CONTINUE then controlsService m SERVICE_CONTROL_CONTINUE
         else if action = DELETE_ACCESS then deletes m
         else False))"

text \<open>The path of the program in quotes, in a buffer of MAX_PATH + 2 bytes.\<close>

definition quotedPath :: "cstring \<Rightarrow> cstring res" where
  "quotedPath program =
     (let quoted = 0x22 # program @ [0x22] in if length quoted < MAX_PATH + 2 then Inr quoted else Inl OutOfBounds)"

definition registerWithSCM :: "cstring \<Rightarrow> (cstring \<Rightarrow> bool) \<Rightarrow> scManager \<Rightarrow> bool res" where
  "registerWithSCM program creates m =
     (if \<not> opens m then Inr False else bind_res (quotedPath program) (\<lambda>p. Inr (creates p)))"

text \<open>The path of the INF file next to the program and the directory of both, in buffers of MAX_PATH bytes.\<close>

definition infPaths :: "cstring \<Rightarrow> (cstring \<times> cstring) option res" where
  "infPaths program =
     (case strrchr program 0x5C of None \<Rightarrow> Inr None
      | Some rest \<Rightarrow>
          let dir = take (length program - length rest + 1) program; inf = dir @ str ''iguanaIR.inf''
          in if length inf < MAX_PATH then Inr (Some (inf, dir)) else Inl OutOfBounds)"

definition installINF :: "cstring \<Rightarrow> (cstring \<times> cstring \<Rightarrow> bool) \<Rightarrow> bool res" where
  "installINF program copies =
     bind_res (infPaths program) (\<lambda>p. Inr (case p of None \<Rightarrow> False | Some q \<Rightarrow> copies q))"

datatype winArg = ArgRegister | ArgStart | ArgStop | ArgRescan | ArgUnregister | ArgInstall

record winEnv =
  program :: cstring
  creates :: "cstring \<Rightarrow> bool"
  copies :: "cstring \<times> cstring \<Rightarrow> bool"
  manager :: scManager

definition exitOf :: "bool \<Rightarrow> int" where
  "exitOf ok = (if ok then 0 else 1)"

definition parseWinOption :: "winEnv \<Rightarrow> winArg \<Rightarrow> int res" where
  "parseWinOption e a =
     (case a of
        ArgRegister \<Rightarrow> bind_res (registerWithSCM (program e) (creates e) (manager e)) (\<lambda>b. Inr (exitOf b))
      | ArgStart \<Rightarrow> Inr (exitOf (changeServiceState SERVICE_START (manager e)))
      | ArgStop \<Rightarrow> Inr (exitOf (changeServiceState SERVICE_STOP (manager e)))
      | ArgRescan \<Rightarrow> Inr (exitOf (changeServiceState SERVICE_CONTROL_PAUSE (manager e)
                               \<and> changeServiceState SERVICE_CONTROL_CONTINUE (manager e)))
      | ArgUnregister \<Rightarrow> Inr (exitOf (changeServiceState DELETE_ACCESS (manager e)))
      | ArgInstall \<Rightarrow> bind_res (installINF (program e) (copies e)) (\<lambda>b. Inr (exitOf b)))"

fun parseWinOptions :: "winEnv \<Rightarrow> winArg list \<Rightarrow> int \<Rightarrow> int res" where
  "parseWinOptions e [] result = Inr result"
| "parseWinOptions e (a # as) result = bind_res (parseWinOption e a) (parseWinOptions e as)"

section \<open>main\<close>

text \<open>
  \<open>main\<close>: its result, whether the loop of a console program ran, and whether the server was cleaned up.
  \<open>dispatched\<close> is \<open>None\<close> when the dispatcher ran the service to its end, else its error.
\<close>

record winRun =
  winExit :: int
  onConsole :: bool
  cleanedUp :: bool

definition winMain :: "winEnv \<Rightarrow> winArg list \<Rightarrow> bool \<Rightarrow> int option \<Rightarrow> bool \<Rightarrow> winRun res" where
  "winMain e args serverInits dispatched handlerSet =
     bind_res (parseWinOptions e args (- 1)) (\<lambda>result.
       if result \<noteq> - 1 then Inr \<lparr>winExit = result, onConsole = False, cleanedUp = False\<rparr>
       else if \<not> serverInits then Inr \<lparr>winExit = 0, onConsole = False, cleanedUp = False\<rparr>
       else case dispatched of
              None \<Rightarrow> Inr \<lparr>winExit = 0, onConsole = False, cleanedUp = True\<rparr>
            | Some err \<Rightarrow>
                if err = ERROR_FAILED_SERVICE_CONTROLLER_CONNECT
                then Inr \<lparr>winExit = 0, onConsole = handlerSet, cleanedUp = True\<rparr>
                else Inr \<lparr>winExit = err, onConsole = False, cleanedUp = False\<rparr>)"

section \<open>The life of the service\<close>



lemma unregister_words [simp]: "commWords (unregisterNotifications s) = commWords s"
  by (simp add: unregisterNotifications_def Let_def split: option.split)










text \<open>
  A service that is paused and then stopped gives its two notification handles back twice: they are not
  cleared when it pauses.
\<close>

theorem paused_service_unregisters_twice:
  "\<exists>s. serviceMain True [Some hub, Some dev] [] [(SERVICE_CONTROL_PAUSE, 0), (SERVICE_CONTROL_STOP, 0)]
       = Some (True, \<lparr>joined = [], scans = 1\<rparr>, s) \<and> unregistered s = [hub, dev, hub, dev]"
  by (simp add: serviceMain_def waitOnCommPipe_def serviceHandler_def serviceStart_def setServiceStatus_def registerNotifications_def
      unregisterNotifications_def trigger_def nextGrant_def triggerCommand_def)

section \<open>Paths\<close>

text \<open>
  The quoted path of the program always fits its buffer, which has just the two bytes more that it needs.
  The path of the INF file need not: the two file names take the same room only when the program has a name of
  twelve characters, as \<open>igdaemon.exe\<close> has; a shorter name in a deep directory overflows the buffer.
\<close>

theorem program_paths:
  assumes "length (dir @ 0x5C # base) < MAX_PATH" "0x5C \<notin> set base"
  shows "quotedPath (dir @ 0x5C # base) = Inr (0x22 # dir @ 0x5C # base @ [0x22])
    \<and> (infPaths (dir @ 0x5C # base) = Inl OutOfBounds \<longleftrightarrow> 247 \<le> length dir)
    \<and> (12 \<le> length base \<longrightarrow>
         infPaths (dir @ 0x5C # base) = Inr (Some (dir @ 0x5C # str ''iguanaIR.inf'', dir @ [0x5C])))"
proof -
  have "takeWhile (\<lambda>x. x \<noteq> 0x5C) (rev base @ 0x5C # rev dir) = rev base"
    using assms(2) by (subst takeWhile_append2) auto
  then have r: "strrchr (dir @ 0x5C # base) 0x5C = Some (0x5C # base)" by (simp add: strrchr_def)
  have "infPaths (dir @ 0x5C # base)
      = (if length dir + 13 < 260 then Inr (Some (dir @ 0x5C # str ''iguanaIR.inf'', dir @ [0x5C])) else Inl OutOfBounds)"
    by (simp add: infPaths_def r Let_def str_def)
  then show ?thesis using assms(1) by (simp add: quotedPath_def)
qed

theorem program_paths_witness:
  "infPaths (replicate 247 0x61 @ 0x5C # str ''a.exe'') = Inl OutOfBounds"
  using program_paths [of "replicate 247 0x61" "str ''a.exe''"] by (simp add: str_def)

end
