(* ===== verification/Windows_Compat.thy ===== *)
theory Windows_Compat
  imports Windows_Pipes
begin

text \<open>
  \<open>win32/compat-windows.c\<close> and the pipes without a timeout of \<open>win32/pipes.c\<close>: the clock, with that of
  \<open>compat-unix.c\<close>, the walk of a directory, and the names pipes have on Windows.
\<close>

section \<open>Clocks\<close>

text \<open>The two's complement value of 64 bits, and the division of C, which cuts towards zero.\<close>

definition s64 :: "int \<Rightarrow> int" where
  "s64 x = (x + 2 ^ 63) mod 2 ^ 64 - 2 ^ 63"

definition cdiv :: "int \<Rightarrow> int \<Rightarrow> int" where
  "cdiv x y = (if 0 \<le> x then x div y else - (- x div y))"

text \<open>The frequency of the performance counter and its count, when the calls succeed.\<close>

definition winMicrosSinceX :: "int option \<Rightarrow> int option \<Rightarrow> u64" where
  "winMicrosSinceX freq counted =
     (case (freq, counted) of
        (Some f, Some c) \<Rightarrow> word_of_int (cdiv (s64 (c * 1000000)) f)
      | _ \<Rightarrow> 0)"

text \<open>The seconds and nanoseconds of the monotonic clock.\<close>

definition unixMicrosSinceX :: "(int \<times> int) option \<Rightarrow> u64" where
  "unixMicrosSinceX tp = (case tp of None \<Rightarrow> 0 | Some (sec, nsec) \<Rightarrow> word_of_int (s64 (sec * 1000000) + nsec div 1000))"

lemma s64_id: "0 \<le> x \<Longrightarrow> x < 2 ^ 63 \<Longrightarrow> s64 x = x"
  by (simp add: s64_def)

lemma uint_micros: "0 \<le> x \<Longrightarrow> x < 2 ^ 64 \<Longrightarrow> uint (word_of_int x :: u64) = x"
  by (simp add: unsigned_of_int take_bit_int_eq_self)

text \<open>The clock of Unix is exact for some hundred thousand years.\<close>

lemma unix_clock_exact:
  assumes "0 \<le> sec" "sec < 2 ^ 43" "0 \<le> nsec" "nsec < 10 ^ 9"
  shows "uint (unixMicrosSinceX (Some (sec, nsec))) = (sec * 10 ^ 9 + nsec) div 1000"
proof -
  have "(sec * 10 ^ 9 + nsec) div 1000 = sec * 1000000 + nsec div 1000"
    using div_mult_self1 [of 1000 nsec "sec * 1000000"] by simp
  moreover have "s64 (sec * 1000000) = sec * 1000000" using assms(1,2) by (intro s64_id) simp_all
  moreover have "0 \<le> nsec div 1000 \<and> nsec div 1000 < 1000000"
    using assms(3,4) zdiv_mono1 [of nsec "10 ^ 9 - 1" 1000] by (simp add: pos_imp_zdiv_nonneg_iff)
  moreover have "uint (word_of_int (sec * 1000000 + nsec div 1000) :: u64) = sec * 1000000 + nsec div 1000"
    using assms(1,2) calculation(3) by (intro uint_micros) simp_all
  ultimately show ?thesis by (simp only: unixMicrosSinceX_def option.case prod.case)
qed

lemma windows_clock_exact:
  assumes "0 < f" "0 \<le> c" "c * 1000000 < 2 ^ 63"
  shows "uint (winMicrosSinceX (Some f) (Some c)) = c * 1000000 div f"
proof -
  have "c * 1000000 div f \<le> c * 1000000" using assms(1,2) zdiv_mono2 [of "c * 1000000" 1 f] by simp
  moreover have "0 \<le> c * 1000000 div f" using assms(1,2) by (intro pos_imp_zdiv_nonneg_iff [THEN iffD2]) simp_all
  moreover have "c * 1000000 < 2 ^ 64" using assms(3) by simp
  ultimately have "uint (word_of_int (c * 1000000 div f) :: u64) = c * 1000000 div f" by (intro uint_micros) linarith+
  then show ?thesis using assms s64_id [of "c * 1000000"] by (simp add: winMicrosSinceX_def cdiv_def)
qed

text \<open>
  The clock of Windows is exact only as long as the count times a million fits in 63 bits.  With the usual
  counter of 10 MHz that is for ten days and sixteen hours after the start of the system: the next tick
  takes the clock from 922337203685 to a value beyond $2^{63}$, so a time span across it comes out as some
  hundred thousand years.
\<close>

theorem windows_clock_jumps:
  "(\<forall>c. 0 \<le> c \<and> c \<le> 9223372036854 \<longrightarrow> uint (winMicrosSinceX (Some 10000000) (Some c)) = c div 10)
   \<and> uint (winMicrosSinceX (Some 10000000) (Some 9223372036855)) = 2 ^ 64 - 922337203685"
proof -
  have "uint (winMicrosSinceX (Some 10000000) (Some c)) = c div 10" if "0 \<le> c" "c \<le> 9223372036854" for c
    using windows_clock_exact [of 10000000 c] that div_mult_mult2 [of 1000000 c 10] by simp
  moreover have "uint (winMicrosSinceX (Some 10000000) (Some 9223372036855)) = 2 ^ 64 - 922337203685"
    by (simp add: winMicrosSinceX_def s64_def cdiv_def)
  ultimately show ?thesis by blast
qed

theorem windows_clock_jumps_witness:
  "uint (winMicrosSinceX (Some 10000000) (Some 123)) = 12"
  using windows_clock_jumps by auto

section \<open>Directories\<close>

text \<open>
  The walk of a directory gives the names of all its entries, directories too.  The first call adds a
  pattern to the name in the buffer of PATH_MAX bytes.
\<close>

definition winFilesOf :: "cstring \<Rightarrow> cstring list option \<Rightarrow> cstring list res" where
  "winFilesOf dir entries =
     (if length dir + 2 < MAX_PATH then Inr (case entries of None \<Rightarrow> [] | Some es \<Rightarrow> es) else Inl OutOfBounds)"

section \<open>Names and pipes\<close>

definition WIN_IGSOCK_NAME :: cstring where
  "WIN_IGSOCK_NAME = [0x5C, 0x5C, 0x2E, 0x5C] @ str ''pipe'' @ [0x5C] @ str ''iguanaIR-''"

definition winSocketName :: "cstring \<Rightarrow> nat \<Rightarrow> cstring" where
  "winSocketName name len = take (len - 1) (WIN_IGSOCK_NAME @ name)"

text \<open>\<open>opensPipe\<close> is \<open>CreateFile\<close>: a handle unless it is invalid.\<close>

definition winConnectToPipe :: "(cstring \<Rightarrow> nat option) \<Rightarrow> cstring \<Rightarrow> nat option" where
  "winConnectToPipe opensPipe name = opensPipe (winSocketName name 256)"

text \<open>
  A pair of pipes: the ends, and the handles that were closed again.  The reading end is made under a name
  from the address of the pair, then the writing end connects to it.
\<close>

definition winCreatePipePair :: "nat option \<Rightarrow> nat option \<Rightarrow> bool \<times> nat list" where
  "winCreatePipePair readEnd writeEnd =
     (case readEnd of None \<Rightarrow> (False, [])
      | Some r \<Rightarrow> (case writeEnd of Some w \<Rightarrow> (True, []) | None \<Rightarrow> (False, [r])))"

lemma client_and_listener_agree:
  "length name < 238 \<Longrightarrow> winSocketName name 256 = winSocketName name MAX_PATH"
  by (simp add: winSocketName_def WIN_IGSOCK_NAME_def str_def)

end
