(* ===== verification/Server_Socket.thy ===== *)
theory Server_Socket
  imports Pipes
begin

text \<open>
  The sockets the daemon listens on: \<open>createServerPipe\<close>, \<open>mkdirs\<close>, \<open>closeServerPipe\<close> and \<open>connectToPipe\<close> of
  \<open>pipes.c\<close>, over a file system that knows its directories, the ones that cannot be written, and the
  sockets with and without a listener.  The calls \<open>mkdir\<close>, \<open>bind\<close>, \<open>connect\<close>, \<open>listen\<close> and \<open>unlink\<close> are
  written out with the errors POSIX gives for these objects.
\<close>

section \<open>The file system\<close>

abbreviation (input) EACCES :: int where "EACCES \<equiv> 13"
abbreviation (input) EEXIST :: int where "EEXIST \<equiv> 17"

datatype socketNode = Bound | Listening

record fileSystem =
  dirs :: "cstring set"
  denied :: "cstring set"
  nodes :: "cstring \<rightharpoonup> socketNode"

text \<open>The text before the last slash, as \<open>strrchr\<close> finds it.\<close>

definition parentPath :: "cstring \<Rightarrow> cstring option" where
  "parentPath path = (case dropWhile (\<lambda>c. c \<noteq> slash_char) (rev path) of [] \<Rightarrow> None | _ # r \<Rightarrow> Some (rev r))"

text \<open>The errors of the directory a name lies in; the root and the working directory are always there.\<close>

definition parentError :: "fileSystem \<Rightarrow> cstring \<Rightarrow> int option" where
  "parentError fs path =
     (case parentPath path of
        None \<Rightarrow> None
      | Some p \<Rightarrow> if p \<noteq> [] \<and> p \<notin> dirs fs then Some ENOENT else if p \<in> denied fs then Some EACCES else None)"

definition mkdirCall :: "cstring \<Rightarrow> fileSystem \<Rightarrow> int + fileSystem" where
  "mkdirCall path fs =
     (if path = [] then Inl ENOENT
      else if path \<in> dirs fs \<or> nodes fs path \<noteq> None then Inl EEXIST
      else case parentError fs path of Some e \<Rightarrow> Inl e | None \<Rightarrow> Inr (fs\<lparr>dirs := insert path (dirs fs)\<rparr>))"

definition bindCall :: "cstring \<Rightarrow> fileSystem \<Rightarrow> int + fileSystem" where
  "bindCall path fs =
     (if path \<in> dirs fs \<or> nodes fs path \<noteq> None then Inl EADDRINUSE
      else case parentError fs path of Some e \<Rightarrow> Inl e | None \<Rightarrow> Inr (fs\<lparr>nodes := (nodes fs)(path \<mapsto> Bound)\<rparr>))"

definition connectCall :: "cstring \<Rightarrow> fileSystem \<Rightarrow> int option" where
  "connectCall path fs =
     (case nodes fs path of Some Listening \<Rightarrow> None | Some Bound \<Rightarrow> Some ECONNREFUSED
      | None \<Rightarrow> if path \<in> dirs fs then Some EACCES else Some ENOENT)"

definition unlinkCall :: "cstring \<Rightarrow> fileSystem \<Rightarrow> fileSystem" where
  "unlinkCall path fs =
     (case parentPath path of
        Some p \<Rightarrow> if p \<in> denied fs then fs else fs\<lparr>nodes := (nodes fs)(path := None)\<rparr>
      | None \<Rightarrow> fs\<lparr>nodes := (nodes fs)(path := None)\<rparr>)"

section \<open>mkdirs\<close>

text \<open>
  The loop of \<open>mkdirs\<close> over the path without its last part: \<open>None\<close> when it does not end.  The recursive call
  answers true for a name without a slash, so a name of that kind that cannot be made for lack of a
  parent is tried for ever.
\<close>

partial_function (option) makeDir :: "cstring \<Rightarrow> fileSystem \<Rightarrow> (bool \<times> fileSystem) option" where
  [code]: "makeDir path fs =
     (case mkdirCall path fs of
        Inr fs \<Rightarrow> Some (True, fs)
      | Inl e \<Rightarrow>
          if e \<noteq> ENOENT then Some (False, fs)
          else case parentPath path of
                 None \<Rightarrow> makeDir path fs
               | Some p \<Rightarrow> Option.bind (makeDir p fs) (\<lambda>(ok, fs). if ok then makeDir path fs else Some (False, fs)))"

definition mkdirs :: "cstring \<Rightarrow> fileSystem \<Rightarrow> (bool \<times> fileSystem) option" where
  "mkdirs path fs = (case parentPath path of None \<Rightarrow> Some (True, fs) | Some p \<Rightarrow> makeDir p fs)"

section \<open>Sockets\<close>

abbreviation (input) SUN_PATH :: nat where "SUN_PATH \<equiv> 108"

definition connectToPipe :: "cstring option \<Rightarrow> fileSystem \<Rightarrow> (int option) res" where
  "connectToPipe name fs = bind_res (socketName name SUN_PATH) (\<lambda>path. Inr (connectCall path fs))"

text \<open>
  The attempts of \<open>createServerPipe\<close> at an address; \<open>settles\<close> says whether the new socket can be put in the
  listening state and given its permissions.  The result says whether there is a socket.
\<close>

partial_function (option) bindLoop :: "bool \<Rightarrow> cstring \<Rightarrow> nat \<Rightarrow> fileSystem \<Rightarrow> (bool \<times> fileSystem) option" where
  [code]: "bindLoop settles path attempt fs =
     (case bindCall path fs of
        Inr fs \<Rightarrow> if settles then Some (True, fs\<lparr>nodes := (nodes fs)(path \<mapsto> Listening)\<rparr>) else Some (False, fs)
      | Inl e \<Rightarrow>
          if e = EADDRINUSE
          then (if connectCall path fs = Some ECONNREFUSED \<and> attempt = 1
                then bindLoop settles path (attempt + 1) (unlinkCall path fs) else Some (False, fs))
          else if e = ENOENT
          then Option.bind (mkdirs path fs) (\<lambda>(ok, fs). if ok then bindLoop settles path (attempt + 1) fs else Some (False, fs))
          else Some (False, fs))"

definition createServerPipe :: "bool \<Rightarrow> cstring option \<Rightarrow> fileSystem \<Rightarrow> (bool \<times> fileSystem) option res" where
  "createServerPipe settles name fs = bind_res (socketName name SUN_PATH) (\<lambda>path. Inr (bindLoop settles path 1 fs))"

definition closeServerPipe :: "cstring option \<Rightarrow> fileSystem \<Rightarrow> fileSystem res" where
  "closeServerPipe name fs = bind_res (socketName name PATH_MAX) (\<lambda>path. Inr (unlinkCall path fs))"

section \<open>Paths\<close>

lemma parentPath_split [simp]: "slash_char \<notin> set b \<Longrightarrow> parentPath (a @ slash_char # b) = Some a"
  unfolding parentPath_def by (simp, subst dropWhile_append2 [where xs = "rev b"]) auto

lemma parentPath_SomeD:
  assumes "parentPath path = Some p"
  shows "\<exists>b. path = p @ slash_char # b \<and> slash_char \<notin> set b"
proof -
  let ?keep = "\<lambda>c. c \<noteq> slash_char"
  obtain c r where r: "dropWhile ?keep (rev path) = c # r" "p = rev r"
    using assms by (auto simp: parentPath_def split: list.splits)
  have c: "c = slash_char" using hd_dropWhile [of ?keep "rev path"] r(1) by auto
  have "rev path = takeWhile ?keep (rev path) @ slash_char # r"
    using takeWhile_dropWhile_id [of ?keep "rev path"] r(1) c by simp
  then have "path = p @ slash_char # rev (takeWhile ?keep (rev path))"
    using r(2) by (metis append_assoc append_Cons append_Nil rev.simps(2) rev_append rev_rev_ident)
  moreover have "slash_char \<notin> set (rev (takeWhile ?keep (rev path)))" by (auto dest: set_takeWhileD)
  ultimately show ?thesis by blast
qed

lemma parentPath_absolute:
  assumes "parentPath (slash_char # q) = Some p" "p \<noteq> []"
  shows "\<exists>r. p = slash_char # r"
  using parentPath_SomeD [OF assms(1)] assms(2) by (cases p) auto

lemma parentPath_exists: "\<exists>p. parentPath (slash_char # q) = Some p"
proof (cases "slash_char \<in> set q")
  case True
  then obtain a b where "q = a @ slash_char # b" "slash_char \<notin> set b" by (meson split_list_last)
  then show ?thesis using parentPath_split [of b "slash_char # a"] by simp
next
  case False
  then show ?thesis using parentPath_split [of q "[]"] by simp
qed

text \<open>Nothing stands in the way of the directory \<open>p\<close>: it and those above it can be written and are no sockets.\<close>

definition free_way :: "fileSystem \<Rightarrow> cstring \<Rightarrow> bool" where
  "free_way fs p \<longleftrightarrow> (\<forall>n r. p @ [slash_char] = n @ slash_char # r \<longrightarrow> n \<notin> denied fs \<and> nodes fs n = None)"

lemma free_way_self: "free_way fs p \<Longrightarrow> p \<notin> denied fs \<and> nodes fs p = None"
  by (auto simp: free_way_def)

lemma free_way_parent:
  assumes "free_way fs p" "parentPath p = Some p'"
  shows "free_way fs p'"
  unfolding free_way_def
proof (intro allI impI)
  fix n r
  assume n: "p' @ [slash_char] = n @ slash_char # r"
  obtain b where "p = p' @ slash_char # b" using parentPath_SomeD [OF assms(2)] by blast
  then have "p @ [slash_char] = (p' @ [slash_char]) @ b @ [slash_char]" by simp
  also have "\<dots> = n @ slash_char # (r @ b @ [slash_char])" by (simp only: n append.assoc append_Cons)
  finally show "n \<notin> denied fs \<and> nodes fs n = None" using assms(1) unfolding free_way_def by blast
qed

section \<open>Directories\<close>

text \<open>What one call of the loop may do to the file system.\<close>

definition grown :: "cstring \<Rightarrow> fileSystem \<Rightarrow> fileSystem \<Rightarrow> bool" where
  "grown p fs fs' \<longleftrightarrow> dirs fs \<subseteq> dirs fs' \<and> dirs fs' \<subseteq> dirs fs \<union> {d. length d \<le> length p} \<and> nodes fs' = nodes fs \<and> denied fs' = denied fs"

lemma grown_refl [simp]: "grown p fs fs"
  by (simp add: grown_def)

lemma grown_step: "grown p fs fs' \<Longrightarrow> length p \<le> length q \<Longrightarrow> grown q fs' fs'' \<Longrightarrow> grown q fs fs''"
  unfolding grown_def by (auto; meson Un_iff mem_Collect_eq order_trans subsetD)

lemma mkdirCall_Inr: "mkdirCall path fs = Inr fs' \<Longrightarrow> grown path fs fs' \<and> path \<in> dirs fs'"
  by (auto simp: mkdirCall_def grown_def split: if_splits option.splits)

lemma free_way_grown: "grown p fs fs' \<Longrightarrow> free_way fs' q = free_way fs q"
  by (simp add: grown_def free_way_def)

lemma parentError_free: "free_way fs p \<Longrightarrow> parentPath path = Some p \<Longrightarrow> p = [] \<or> p \<in> dirs fs \<Longrightarrow> parentError fs path = None"
  using free_way_self [of fs p] by (auto simp: parentError_def)

lemma mkdirCall_refused:
  assumes "mkdirCall path fs = Inl e" "e \<noteq> ENOENT" "parentPath path = Some p"
  shows "\<not> (free_way fs path \<and> path \<notin> dirs fs)"
  using assms free_way_self [of fs path] free_way_self [of fs p] free_way_parent [OF _ assms(3)]
  by (auto simp: mkdirCall_def parentError_def split: if_splits)

lemma mkdirCall_nowhere:
  assumes "mkdirCall path fs = Inl ENOENT" "parentPath path = Some p"
  shows "p \<noteq> [] \<and> p \<notin> dirs fs"
proof -
  have "path \<noteq> []" using assms(2) by (auto simp: parentPath_def)
  then show ?thesis using assms by (auto simp: mkdirCall_def parentError_def split: if_splits)
qed

text \<open>The loop ends for every absolute path, and makes the directory when nothing stands in its way.\<close>

definition ends_well :: "cstring \<Rightarrow> fileSystem \<Rightarrow> bool \<Rightarrow> fileSystem \<Rightarrow> bool" where
  "ends_well path fs ok fs' \<longleftrightarrow> grown path fs fs' \<and> (ok \<longrightarrow> path \<in> dirs fs') \<and> (free_way fs path \<and> path \<notin> dirs fs \<longrightarrow> ok)"

lemma one_try:
  assumes "mkdirCall path fs \<noteq> Inl ENOENT" "parentPath path = Some p"
  shows "\<exists>ok fs'. makeDir path fs = Some (ok, fs') \<and> ends_well path fs ok fs'"
proof (cases "mkdirCall path fs")
  case (Inl e)
  then have "makeDir path fs = Some (False, fs)" using assms(1) by (simp add: makeDir.simps [of path])
  then show ?thesis using mkdirCall_refused [OF Inl _ assms(2)] Inl assms(1) by (auto simp: ends_well_def)
next
  case (Inr fs')
  then have "makeDir path fs = Some (True, fs')" by (simp add: makeDir.simps [of path])
  then show ?thesis using mkdirCall_Inr [OF Inr] by (auto simp: ends_well_def)
qed

lemma ends_well_grown:
  assumes "ends_well path fs1 ok fs2" "grown p fs fs1" "length p < length path"
  shows "ends_well path fs ok fs2"
proof -
  have "path \<in> dirs fs1 \<longleftrightarrow> path \<in> dirs fs" using assms(2,3) by (auto simp: grown_def)
  then show ?thesis using assms free_way_grown [OF assms(2)] grown_step [OF assms(2), of path fs2]
    by (simp add: ends_well_def)
qed

lemma makeDir_ends:
  assumes "path = slash_char # q"
  shows "\<exists>ok fs'. makeDir path fs = Some (ok, fs') \<and> ends_well path fs ok fs'"
  using assms
proof (induction "length path" arbitrary: path q fs rule: less_induct)
  case less
  obtain p where p: "parentPath path = Some p" using parentPath_exists less.prems by blast
  show ?case
  proof (cases "mkdirCall path fs = Inl ENOENT")
    case False
    then show ?thesis using one_try p by blast
  next
    case True
    then have np: "p \<noteq> []" "p \<notin> dirs fs" using mkdirCall_nowhere p by blast+
    have sh: "length p < length path" using parentPath_SomeD [OF p] by auto
    obtain r where "p = slash_char # r" using parentPath_absolute p less.prems np(1) by blast
    then obtain ok fs1 where i: "makeDir p fs = Some (ok, fs1)" "ends_well p fs ok fs1"
      using less.hyps [OF sh] by blast
    then have g: "grown p fs fs1" by (simp add: ends_well_def)
    have u: "makeDir path fs = (if ok then makeDir path fs1 else Some (False, fs1))"
      using True i(1) p by (simp add: makeDir.simps [of path fs])
    show ?thesis
    proof (cases ok)
      case True
      then have "mkdirCall path fs1 \<noteq> Inl ENOENT" using i(2) mkdirCall_nowhere [OF _ p] by (auto simp: ends_well_def)
      from one_try [OF this p] show ?thesis using u True ends_well_grown [OF _ g sh] by auto
    next
      case False
      have "\<not> free_way fs path" using False i(2) np(2) free_way_parent [OF _ p] by (auto simp: ends_well_def)
      moreover have "grown path fs fs1" using grown_step [OF g, of path fs1] sh by simp
      ultimately show ?thesis using u False by (auto simp: ends_well_def)
    qed
  qed
qed

text \<open>Without a name there is nothing above it to make, and the loop tries again for ever.\<close>

lemma empty_name_never_ends: "makeDir [] fs = None"
proof -
  have "path \<noteq> []" if "makeDir path fs = Some y" for path y
    using that
    by (rule makeDir.raw_induct [rotated]) (auto simp: mkdirCall_def parentPath_def split: sum.splits if_splits option.splits)
  then show ?thesis by (cases "makeDir [] fs") auto
qed

lemma root_entry_never_ends: "slash_char \<notin> set n \<Longrightarrow> mkdirs (slash_char # n) fs = None"
  using parentPath_split [of n "[]"] by (simp add: mkdirs_def empty_name_never_ends)

section \<open>Listening\<close>

lemma bindLoop_fresh:
  assumes "path = slash_char # q" "parentPath path = Some p" "free_way fs p" "path \<notin> dirs fs" "nodes fs path = None"
  shows "\<exists>fs'. bindLoop True path k fs = Some (True, fs') \<and> nodes fs' = (nodes fs)(path \<mapsto> Listening)"
proof (cases "p = [] \<or> p \<in> dirs fs")
  case True
  then have "bindCall path fs = Inr (fs\<lparr>nodes := (nodes fs)(path \<mapsto> Bound)\<rparr>)"
    using assms(4,5) parentError_free [OF assms(3,2)] by (simp add: bindCall_def)
  then show ?thesis by (simp add: bindLoop.simps [of True path k])
next
  case False
  obtain r where "p = slash_char # r" using parentPath_absolute assms(1,2) False by blast
  then obtain fs1 where m: "makeDir p fs = Some (True, fs1)" "grown p fs fs1" "p \<in> dirs fs1"
    using makeDir_ends [of p r fs] assms(3) False by (auto simp: ends_well_def)
  have n: "path \<notin> dirs fs1" "nodes fs1 = nodes fs" "free_way fs1 p"
    using m(2) assms(3,4) parentPath_SomeD [OF assms(2)] free_way_grown [OF m(2)] by (auto simp: grown_def)
  have "bindCall path fs1 = Inr (fs1\<lparr>nodes := (nodes fs1)(path \<mapsto> Bound)\<rparr>)"
    using n assms(5) parentError_free [OF n(3) assms(2)] m(3) by (simp add: bindCall_def)
  then have "bindLoop True path (k + 1) fs1 = Some (True, fs1\<lparr>nodes := (nodes fs1)(path \<mapsto> Listening)\<rparr>)"
    by (subst bindLoop.simps) simp
  moreover have "bindCall path fs = Inl ENOENT" using False assms by (simp add: bindCall_def parentError_def)
  ultimately show ?thesis using m(1) n(2) assms(2) by (simp add: bindLoop.simps [of True path k] mkdirs_def)
qed

text \<open>
  C14.  The daemon gets its socket: for every absolute address whose way is free, whether the directories above
  it are there or not and whether a dead daemon has left its socket there or not, \<open>createServerPipe\<close>
  ends with a socket that clients can connect to, and no other socket has changed.
\<close>

theorem server_socket_is_made:
  assumes "socketName name SUN_PATH = Inr path" "path = slash_char # q" "parentPath path = Some p"
    and "free_way fs p" "path \<notin> dirs fs" "nodes fs path \<noteq> Some Listening"
  shows "\<exists>fs'. createServerPipe True name fs = Inr (Some (True, fs')) \<and> connectToPipe name fs' = Inr None
    \<and> (\<forall>n. n \<noteq> path \<longrightarrow> nodes fs' n = nodes fs n)"
proof -
  have "\<exists>fs'. bindLoop True path 1 fs = Some (True, fs') \<and> nodes fs' = (nodes fs)(path \<mapsto> Listening)"
  proof (cases "nodes fs path")
    case None
    then show ?thesis using bindLoop_fresh assms by blast
  next
    case (Some n)
    then have b: "n = Bound" using assms(6) by (cases n) auto
    let ?fs = "unlinkCall path fs"
    have u: "?fs = fs\<lparr>nodes := (nodes fs)(path := None)\<rparr>"
      using assms(3) free_way_self [OF assms(4)] by (simp add: unlinkCall_def)
    have "free_way ?fs p" using assms(4) u by (simp add: free_way_def)
    then obtain fs' where "bindLoop True path (1 + 1) ?fs = Some (True, fs')" "nodes fs' = (nodes ?fs)(path \<mapsto> Listening)"
      using bindLoop_fresh [OF assms(2,3), of ?fs "1 + 1"] assms(5) u by auto
    moreover have "bindLoop True path 1 fs = bindLoop True path (1 + 1) ?fs"
      using Some b by (subst bindLoop.simps) (simp add: bindCall_def connectCall_def)
    ultimately show ?thesis using u by simp
  qed
  then show ?thesis using assms(1) by (auto simp: createServerPipe_def connectToPipe_def connectCall_def)
qed

theorem server_socket_is_made_witness:
  "let fs = \<lparr>dirs = {str ''/var''}, denied = {}, nodes = [str ''/var/run/iguanaIR/ctl'' \<mapsto> Bound]\<rparr>
   in \<exists>fs'. createServerPipe True None fs = Inr (Some (True, fs')) \<and> connectToPipe None fs' = Inr None"
proof -
  let ?p = "str ''/var/run/iguanaIR''" and ?path = "str ''/var/run/iguanaIR/ctl''"
  let ?fs = "\<lparr>dirs = {str ''/var''}, denied = {}, nodes = [?path \<mapsto> Bound]\<rparr>"
  have n: "socketName None SUN_PATH = Inr ?path" by (simp add: socketName_def IGSOCK_NAME_def str_def)
  have q: "?path = slash_char # str ''var/run/iguanaIR/ctl''" by (simp add: str_def)
  have p: "parentPath ?path = Some ?p" by (simp add: parentPath_def str_def)
  have f: "free_way ?fs ?p" by (auto simp: free_way_def str_def dest: arg_cong [where f = length])
  have d: "?path \<notin> dirs ?fs" "nodes ?fs ?path \<noteq> Some Listening" by (simp_all add: str_def)
  from server_socket_is_made [OF n q p f d] show ?thesis by (auto simp: Let_def)
qed

lemma makeDir_nodes:
  assumes "makeDir path fs = Some y"
  shows "nodes (snd y) = nodes fs"
  using assms
proof (induction rule: makeDir.raw_induct [rotated, consumes 1, case_names step])
  case (step rec path fs y)
  show ?case
  proof (cases "mkdirCall path fs")
    case (Inr fs1)
    then show ?thesis using step(2) mkdirCall_Inr [OF Inr] by (auto simp: grown_def)
  next
    case (Inl e)
    show ?thesis
    proof (cases "e = ENOENT")
      case False
      then show ?thesis using step(2) Inl by auto
    next
      case True
      show ?thesis
      proof (cases "parentPath path")
        case None
        then have "rec path fs = Some y" using step(2) Inl True by simp
        then show ?thesis by (rule step(1))
      next
        case (Some p)
        then obtain ok fs1 where r: "rec p fs = Some (ok, fs1)" "(if ok then rec path fs1 else Some (False, fs1)) = Some y"
          using step(2) Inl True by (cases "rec p fs") auto
        then show ?thesis using step(1) [OF r(1)] step(1) [of path fs1 y] by (cases ok) auto
      qed
    qed
  qed
qed

lemma mkdirs_nodes: "mkdirs path fs = Some y \<Longrightarrow> nodes (snd y) = nodes fs"
  by (auto simp: mkdirs_def makeDir_nodes split: option.splits)

lemma bindLoop_keeps:
  assumes "bindLoop settles path k fs = Some y"
  shows "nodes fs n = Some Listening \<longrightarrow> nodes (snd y) n = Some Listening"
  using assms
proof (induction rule: bindLoop.raw_induct [rotated, consumes 1, case_names step])
  case (step rec settles path k fs y)
  show ?case
  proof
    assume l: "nodes fs n = Some Listening"
    show "nodes (snd y) n = Some Listening"
    proof (cases "bindCall path fs")
      case (Inr fs1)
      then show ?thesis using step(2) l by (auto simp: bindCall_def split: if_splits option.splits)
    next
      case (Inl e)
      show ?thesis
      proof (cases "e = EADDRINUSE \<and> connectCall path fs = Some ECONNREFUSED \<and> k = 1")
        case True
        then have "rec settles path (k + 1) (unlinkCall path fs) = Some y" using step(2) Inl by simp
        moreover have "nodes (unlinkCall path fs) n = Some Listening"
          using True l by (auto simp: connectCall_def unlinkCall_def split: option.splits)
        ultimately show ?thesis using step(1) by blast
      next
        case False
        show ?thesis
        proof (cases "e = ENOENT")
          case False
          then have "y = (False, fs)" using step(2) Inl \<open>\<not> (e = EADDRINUSE \<and> _ \<and> _)\<close> by (auto split: if_splits)
          then show ?thesis using l by simp
        next
          case True
          then obtain ok fs1 where r: "mkdirs path fs = Some (ok, fs1)" "(if ok then rec settles path (k + 1) fs1 else Some (False, fs1)) = Some y"
            using step(2) Inl by (cases "mkdirs path fs") auto
          then show ?thesis using step(1) [of settles path "k + 1" fs1 y] l mkdirs_nodes [OF r(1)] by (cases ok) auto
        qed
      qed
    qed
  qed
qed

text \<open>
  C34.  A daemon that is running keeps its sockets: whatever address another daemon asks for, a socket with a
  listener is still there afterwards, and the request for its own address fails and changes nothing.
\<close>

theorem live_socket_is_kept:
  assumes "createServerPipe settles name fs = Inr (Some (ok, fs'))" "nodes fs path = Some Listening"
  shows "nodes fs' path = Some Listening \<and> (socketName name SUN_PATH = Inr path \<longrightarrow> \<not> ok \<and> fs' = fs)"
proof -
  obtain p where p: "socketName name SUN_PATH = Inr p" "bindLoop settles p 1 fs = Some (ok, fs')"
    using assms(1) by (auto simp: createServerPipe_def bind_res_def split: sum.splits)
  have "\<not> ok \<and> fs' = fs" if "p = path"
    using p(2) that assms(2) by (subst (asm) bindLoop.simps) (simp add: bindCall_def connectCall_def)
  then show ?thesis using p bindLoop_keeps [OF p(2), of path] assms(2) by simp
qed

theorem live_socket_is_kept_witness:
  "let fs = \<lparr>dirs = {str ''/var/run/iguanaIR''}, denied = {}, nodes = [str ''/var/run/iguanaIR/ctl'' \<mapsto> Listening]\<rparr>
   in \<exists>fs'. createServerPipe True (Some (str ''0'')) fs = Inr (Some (True, fs')) \<and> nodes fs' (str ''/var/run/iguanaIR/ctl'') = Some Listening"
proof -
  let ?fs = "\<lparr>dirs = {str ''/var/run/iguanaIR''}, denied = {}, nodes = [str ''/var/run/iguanaIR/ctl'' \<mapsto> Listening]\<rparr>"
  have "bindCall (str ''/var/run/iguanaIR/0'') ?fs = Inr (?fs\<lparr>nodes := (nodes ?fs)(str ''/var/run/iguanaIR/0'' \<mapsto> Bound)\<rparr>)"
    by (simp add: bindCall_def parentError_def parentPath_def str_def)
  then obtain fs' where c: "createServerPipe True (Some (str ''0'')) ?fs = Inr (Some (True, fs'))"
    by (simp add: createServerPipe_def socketName_def IGSOCK_NAME_def bindLoop.simps str_def)
  have "nodes ?fs (str ''/var/run/iguanaIR/ctl'') = Some Listening" by simp
  from live_socket_is_kept [OF c this] show ?thesis using c by (auto simp: Let_def)
qed

text \<open>A closed address can be bound anew, and nobody can connect to it before.\<close>

lemma closed_address_is_free:
  assumes "socketName name PATH_MAX = Inr path" "socketName name SUN_PATH = Inr path" "path \<notin> dirs fs"
    and "parentPath path = Some p" "p \<notin> denied fs"
  shows "\<exists>fs'. closeServerPipe name fs = Inr fs' \<and> connectToPipe name fs' = Inr (Some ENOENT)"
  using assms by (simp add: closeServerPipe_def connectToPipe_def connectCall_def unlinkCall_def)

end
