(* ===== verification/Client_Main.thy ===== *)
theory Client_Main
  imports Client_Text
begin

text \<open>
  \<open>client.c\<close>, from its command line to its exit: the table of options, \<open>main\<close> and what the tasks on the queue
  are like.  Splitting the command line into options is done by \<open>argp\<close>; here it is a list of long option
  names with their arguments.
\<close>

section \<open>Options\<close>

text \<open>The rows of the table: name, key and whether there is an argument.\<close>

definition takes :: "string \<Rightarrow> u16 \<Rightarrow> string \<times> u16 \<times> bool" where
  "takes name key = (name, key, True)"

definition alone :: "string \<Rightarrow> u16 \<Rightarrow> string \<times> u16 \<times> bool" where
  "alone name key = (name, key, False)"

definition offset :: "byte \<Rightarrow> u16" where
  "offset c = ARGP_OFFSET + ucast c"

definition clientOptions :: "(string \<times> u16 \<times> bool) list" where
  "clientOptions =
    [alone ''all-devices'' (offset IG_CTL_LISTDEVS), takes ''dev-address'' (offset IG_CTL_DEVADDR),
     takes ''device'' 0x64, takes ''sleep'' INTERNAL_SLEEP,
     alone ''get-version'' (ucast IG_DEV_GETVERSION), alone ''get-features'' (ucast IG_DEV_GETFEATURES),
     takes ''send'' (ucast IG_DEV_SEND), takes ''resend'' (offset IG_DEV_RESEND),
     alone ''all-aliases'' (offset IG_DEV_LISTALIASES), alone ''get-address'' (offset IG_DEV_GETADDRESS),
     takes ''encoded-size'' (offset IG_DEV_SENDSIZE),
     alone ''receiver-on'' (ucast IG_DEV_RECVON), alone ''receiver-off'' (ucast IG_DEV_RECVOFF),
     alone ''get-pins'' (ucast IG_DEV_GETPINS), takes ''set-pins'' (ucast IG_DEV_SETPINS),
     alone ''get-buffer-size'' (ucast IG_DEV_GETBUFSIZE), takes ''write-block'' (ucast IG_DEV_WRITEBLOCK),
     alone ''execute'' (ucast IG_DEV_EXECUTE), takes ''lcd-text'' (ucast IG_DEV_PINBURST),
     alone ''reset'' (ucast IG_DEV_RESET),
     alone ''get-channels'' (ucast IG_DEV_GETCHANNELS), takes ''set-channels'' (ucast IG_DEV_SETCHANNELS),
     alone ''get-carrier'' (ucast IG_DEV_GETCARRIER), takes ''set-carrier'' (ucast IG_DEV_SETCARRIER),
     alone ''get-pin-config'' (ucast IG_DEV_GETPINCONFIG), alone ''set-pin-config'' (ucast IG_DEV_SETPINCONFIG),
     alone ''get-output-pins'' (INTERNAL_GETCONFIG + 1), takes ''set-output-pins'' (INTERNAL_SETCONFIG + 1),
     alone ''get-pullup-pins'' (INTERNAL_GETCONFIG + 2), takes ''set-pullup-pins'' (INTERNAL_SETCONFIG + 2),
     alone ''get-open-drain-pins'' (INTERNAL_GETCONFIG + 3), takes ''set-open-drain-pins'' (INTERNAL_SETCONFIG + 3),
     alone ''get-high-sink-pins'' (INTERNAL_GETCONFIG + 4), takes ''set-high-sink-pins'' (INTERNAL_SETCONFIG + 4),
     alone ''get-threshold-pins'' (INTERNAL_GETCONFIG + 5), takes ''set-threshold-pins'' (INTERNAL_SETCONFIG + 5),
     alone ''get-id'' (offset IG_DEV_GETID), takes ''set-id'' (offset IG_DEV_SETID),
     alone ''get-location'' (offset IG_DEV_GETLOCATION), alone ''repeater-on'' (offset IG_DEV_REPEATER)]"

text \<open>
  The queue and the name of the device; \<open>None\<close> when the command line is refused, by \<open>argp\<close> for a name or an
  argument the table does not have, or by the parser of the options.  The options for the log are not in
  the table: \<open>argp\<close> gives them to the parser of \<open>logging.c\<close> (\<open>parseLogOption\<close>), which sets what is logged
  and touches neither the queue nor the name; they are left out of the command line here.
\<close>

fun parseArgs :: "(string \<times> cstring option) list \<Rightarrow> igtask list \<Rightarrow> cstring option \<Rightarrow> (igtask list \<times> cstring option) option res" where
  "parseArgs [] ts device = Inr (Some (ts, device))"
| "parseArgs ((name, a) # as) ts device =
     (case List.find (\<lambda>row. fst row = name) clientOptions of
        None \<Rightarrow> Inr None
      | Some (_, key, hasArg) \<Rightarrow>
          if hasArg \<noteq> (a \<noteq> None) then Inr None
          else bind_res (parseClientOption key a ts device) (\<lambda>r.
                 case r of None \<Rightarrow> Inr None | Some (ts, device) \<Rightarrow> parseArgs as ts device))"

section \<open>main\<close>

definition EX_USAGE :: nat where "EX_USAGE = 64"

definition prog0 :: "(int \<Rightarrow> cstring) \<Rightarrow> prog" where
  "prog0 texts = \<lparr>pinState = replicate 8 0, recvOnFlag = False, deviceFeatures = 0, out = [], strerror = texts\<rparr>"

definition finalCheck :: igtask where
  "finalCheck = snd (findTaskSpec \<lparr>command = ''final check'', arg = None, spec = None, isSubTask = False\<rparr>)"

text \<open>
  The exit code and the state at the end, \<open>None\<close> while a task waits for its answer.  \<open>final\<close> is what the final read
  finds, which goes to a connection that was never opened.
\<close>

definition clientMain ::
  "(cstring option \<Rightarrow> igtask \<Rightarrow> bool) \<Rightarrow> taskEnv \<Rightarrow> (nat \<Rightarrow> byte) \<Rightarrow> answerEvent list \<Rightarrow> answerEvent \<Rightarrow> (string \<times> cstring option) list
     \<Rightarrow> prog \<Rightarrow> (nat \<times> prog) option res" where
  "clientMain connects e junk evs final args st =
     bind_res (parseArgs args [] None) (\<lambda>r. case r of
       None \<Rightarrow> Inr (Some (EX_USAGE, st))
     | Some (ts, device) \<Rightarrow>
         if ts = [] then Inr (Some (1, st))
         else bind_res (performQueuedTasks (connects device) e junk ts evs 0 st) (\<lambda>r. case r of
                None \<Rightarrow> Inr None
              | Some (failed, st) \<Rightarrow>
                  bind_res (receiveResponse [final] finalCheck st) (\<lambda>r. Inr (Some (failed,
                    case r of None \<Rightarrow> st | Some (_, st, _) \<Rightarrow> st)))))"

section \<open>Properties\<close>

text \<open>What performing a task relies on: its command is one of the table, and it has the argument it needs.\<close>

definition argCodes :: "u16 list" where
  "argCodes = INTERNAL_SLEEP # map ucast [IG_CTL_DEVADDR, IG_DEV_SETID, IG_DEV_SETCHANNELS, IG_DEV_SETCARRIER, IG_DEV_SETPINS,
     IG_DEV_SEND, IG_DEV_SENDSIZE, IG_DEV_WRITEBLOCK, IG_DEV_PINBURST]"

definition needsArg :: "commandSpec \<Rightarrow> bool" where
  "needsArg s \<longleftrightarrow> parsePins s \<or> spec_code s \<in> set argCodes"

definition task_ok :: "igtask \<Rightarrow> bool" where
  "task_ok t \<longleftrightarrow> (\<exists>s \<in> set supportedCommands. command t = cmd_text s \<and> (needsArg s \<longrightarrow> arg t \<noteq> None))"

definition codeOk :: "u16 \<Rightarrow> bool \<Rightarrow> bool" where
  "codeOk c hasArg = (case List.find (\<lambda>s. spec_code s = c) supportedCommands of None \<Rightarrow> False | Some s \<Rightarrow> needsArg s \<longrightarrow> hasArg)"

definition rowOk :: "string \<times> u16 \<times> bool \<Rightarrow> bool" where
  "rowOk row = (case row of (_, key, hasArg) \<Rightarrow>
     if key \<in> set directKeys then codeOk key hasArg
     else if key \<in> set (map (\<lambda>c. ARGP_OFFSET + ucast c) offsetKeys)
     then (key = ARGP_OFFSET + ucast IG_DEV_RESEND \<longrightarrow> codeOk INTERNAL_SLEEP hasArg) \<and> codeOk (key - ARGP_OFFSET) hasArg
     else key = 0x64 \<and> hasArg)"

lemma rows_ok: "list_all rowOk clientOptions"
  by code_simp

lemma features_ok: "codeOk (ucast IG_DEV_GETFEATURES) False"
  by code_simp

lemma codeOk_task:
  assumes "codeOk c hasArg" "hasArg \<longrightarrow> a \<noteq> None"
  shows "\<exists>t. enqueueCode c a ts = Inr (ts @ [t]) \<and> task_ok t"
proof -
  obtain s where s: "List.find (\<lambda>s. spec_code s = c) supportedCommands = Some s" "needsArg s \<longrightarrow> hasArg"
    using assms(1) by (auto simp: codeOk_def split: option.splits)
  then have "s \<in> set supportedCommands" by (auto simp: find_Some_iff)
  then show ?thesis using s assms(2) by (auto simp: enqueueCode_def enqueueTask_def task_ok_def)
qed

lemma task_ok_subTask: "task_ok (t\<lparr>isSubTask := b\<rparr>) = task_ok t"
  by (simp add: task_ok_def)

lemma enqueue_ok:
  assumes "codeOk c hasArg" "hasArg \<longrightarrow> a \<noteq> None" "list_all task_ok ts"
  shows "\<exists>us. enqueueTaskById c a ts = Inr us \<and> list_all task_ok us"
proof -
  obtain f where f: "enqueueCode (ucast IG_DEV_GETFEATURES) None ts = Inr (ts @ [f])" "task_ok f"
    using codeOk_task [OF features_ok, of None ts] by blast
  then have m: "list_all task_ok (markSubTask (ts @ [f]))" using assms(3) task_ok_subTask by (simp add: markSubTask_def)
  have e: "\<exists>us. enqueueCode c a vs = Inr us \<and> list_all task_ok us" if "list_all task_ok vs" for vs
    using codeOk_task [OF assms(1,2), of vs] that by auto
  show ?thesis using f(1) e [OF m] e [OF assms(3)] by (simp add: enqueueTaskById_def)
qed

lemma option_ok:
  assumes "rowOk (name, key, hasArg)" "hasArg \<longleftrightarrow> a \<noteq> None" "list_all task_ok ts"
  shows "\<exists>r. parseClientOption key a ts device = Inr r \<and> (\<forall>us d. r = Some (us, d) \<longrightarrow> list_all task_ok us)"
proof -
  consider (direct) "key \<in> set directKeys"
    | (off) "key \<notin> set directKeys" "key \<in> set (map (\<lambda>c. ARGP_OFFSET + ucast c) offsetKeys)"
    | (dev) "key \<notin> set directKeys" "key \<notin> set (map (\<lambda>c. ARGP_OFFSET + ucast c) offsetKeys)" by blast
  then show ?thesis
  proof cases
    case direct
    then obtain us where "enqueueTaskById key a ts = Inr us" "list_all task_ok us"
      using enqueue_ok [of key hasArg a ts] assms by (auto simp: rowOk_def)
    then show ?thesis using direct by (simp add: parseClientOption_def)
  next
    case off
    have "(key = ARGP_OFFSET + ucast IG_DEV_RESEND \<longrightarrow> codeOk INTERNAL_SLEEP hasArg) \<and> codeOk (key - ARGP_OFFSET) hasArg"
      using assms(1) unfolding rowOk_def prod.case if_not_P [OF off(1)] if_P [OF off(2)] .
    then have k: "key = ARGP_OFFSET + ucast IG_DEV_RESEND \<longrightarrow> codeOk INTERNAL_SLEEP hasArg" "codeOk (key - ARGP_OFFSET) hasArg"
      by blast+
    obtain us where u: "(if key = ARGP_OFFSET + ucast IG_DEV_RESEND then enqueueTaskById INTERNAL_SLEEP a ts else Inr ts) = Inr us" "list_all task_ok us"
      using k(1) enqueue_ok [of INTERNAL_SLEEP hasArg a ts] assms(2,3) by (cases "key = ARGP_OFFSET + ucast IG_DEV_RESEND") auto
    obtain vs where v: "enqueueTaskById (key - ARGP_OFFSET) a us = Inr vs" "list_all task_ok vs"
      using enqueue_ok [OF k(2) _ u(2)] assms(2) by blast
    show ?thesis
      unfolding parseClientOption_def if_not_P [OF off(1)] if_P [OF off(2)] u(1) by (simp add: v)
  next
    case dev
    have "key = 0x64 \<and> hasArg"
      using assms(1) unfolding rowOk_def prod.case if_not_P [OF dev(1)] if_not_P [OF dev(2)] .
    then have "key = 0x64" "a \<noteq> None" using assms(2) by blast+
    then show ?thesis using assms(3) unfolding parseClientOption_def if_not_P [OF dev(1)] if_not_P [OF dev(2)] by auto
  qed
qed

text \<open>
  C32.  Every command line is taken or refused without a crash, and what is queued can be performed: each task
  has the text of a command of the table and the argument that command needs.
\<close>

theorem command_line_tasks_are_well_formed:
  "\<exists>r. parseArgs args [] None = Inr r \<and> (case r of None \<Rightarrow> True | Some (ts, _) \<Rightarrow> list_all task_ok ts)"
proof -
  have "\<exists>r. parseArgs args ts device = Inr r \<and> (\<forall>us d. r = Some (us, d) \<longrightarrow> list_all task_ok us)"
    if "list_all task_ok ts" for ts device
    using that
  proof (induction args arbitrary: ts device)
    case (Cons x args)
    obtain name a where x: "x = (name, a)" by (cases x)
    show ?case
    proof (cases "List.find (\<lambda>row. fst row = name) clientOptions")
      case (Some row)
      obtain n key hasArg where row: "row = (n, key, hasArg)" by (cases row)
      have "row \<in> set clientOptions" using Some by (auto simp: find_Some_iff)
      then have r: "rowOk (n, key, hasArg)" using rows_ok row by (simp add: list_all_iff)
      show ?thesis
      proof (cases "hasArg \<longleftrightarrow> a \<noteq> None")
        case True
        obtain r where r: "parseClientOption key a ts device = Inr r" "\<forall>us d. r = Some (us, d) \<longrightarrow> list_all task_ok us"
          using option_ok [OF r True Cons.prems, of device] by blast
        have p: "parseArgs (x # args) ts device = (case r of None \<Rightarrow> Inr None | Some (ts, device) \<Rightarrow> parseArgs args ts device)"
          using Some row x r(1) True by (cases a) auto
        show ?thesis
        proof (cases r)
          case (Some y)
          obtain us d where y: "y = (us, d)" by (cases y)
          then show ?thesis using Cons.IH [of us d] r(2) p Some by simp
        qed (simp add: p)
      next
        case False
        then have "parseArgs (x # args) ts device = Inr None" using Some row x by (cases a) auto
        then show ?thesis by simp
      qed
    qed (simp add: x)
  qed simp
  from this [of "[]" None] show ?thesis by (auto split: option.splits)
qed

text \<open>A task of this kind finds its command, whatever the rest of the table is.\<close>

lemma task_found:
  assumes "task_ok t"
  shows "\<exists>s \<in> set supportedCommands. findTaskSpec t = (True, t\<lparr>spec := Some s\<rparr>) \<and> (needsArg s \<longrightarrow> arg t \<noteq> None)"
proof -
  obtain s where s: "s \<in> set supportedCommands" "command t = cmd_text s" "needsArg s \<longrightarrow> arg t \<noteq> None"
    using assms by (auto simp: task_ok_def)
  then have "scanSpecs supportedCommands (command t) None = Some s"
    using command_texts_are_unambiguous by (simp add: list_all_iff)
  then show ?thesis using s by (auto simp: findTaskSpec_def)
qed

lemma check_ok:
  assumes "task_ok t"
  shows "\<exists>ok t' s. checkTask t = Inr (ok, t') \<and> spec t' = Some s \<and> arg t' = arg t \<and> (needsArg s \<longrightarrow> arg t \<noteq> None)"
proof -
  obtain s where s: "findTaskSpec t = (True, t\<lparr>spec := Some s\<rparr>)" "needsArg s \<longrightarrow> arg t \<noteq> None" using task_found [OF assms] by blast
  show ?thesis
  proof (cases "parsePins s")
    case True
    then obtain a where "arg t = Some a" using s(2) by (auto simp: needsArg_def)
    then show ?thesis using s True by (auto simp: checkTask_def parseNumber_def needsArg_def)
  qed (use s in \<open>auto simp: checkTask_def\<close>)
qed

definition in_data :: "int \<times> byte list option \<Rightarrow> bool" where
  "in_data r = (case r of (n, dat) \<Rightarrow> 0 \<le> n \<longrightarrow> (case dat of None \<Rightarrow> n = 0 | Some bs \<Rightarrow> n \<le> int (length bs)))"

lemma numberArg_in_data:
  "arg t = Some a \<Longrightarrow> (\<And>v. in_data (pack v)) \<Longrightarrow> \<exists>r. numberArg t pack = Inr r \<and> in_data r"
  by (auto simp: numberArg_def parseNumber_def in_data_def split: option.splits)

lemma s32_le: "0 \<le> x \<Longrightarrow> s32 x \<le> x"
proof -
  assume "0 \<le> x"
  then have "(x + 2 ^ 31) mod 2 ^ 32 \<le> x + 2 ^ 31" by (intro zmod_le_nonneg_dividend) simp
  then show ?thesis by (simp add: s32_def)
qed

lemma pulse_data: "in_data (s32 (fst (iguanaReadPulseFile f) * 4), Some (pulseBytes (snd (iguanaReadPulseFile f))))"
proof -
  let ?n = "fst (iguanaReadPulseFile f)" and ?ps = "snd (iguanaReadPulseFile f)"
  have b: "- 1 \<le> ?n" "?n \<le> int (length ?ps)"
    by (auto simp: iguanaReadPulseFile_def split: option.splits prod.splits)
  show ?thesis
  proof (cases "?n = - 1")
    case True
    have "s32 (- 1 * 4) = - 4" by (simp add: s32_def)
    then show ?thesis unfolding True by (simp add: in_data_def)
  next
    case False
    then have "s32 (?n * 4) \<le> ?n * 4" using b by (intro s32_le) simp
    then show ?thesis using b by (simp add: in_data_def length_pulseBytes)
  qed
qed

lemma length_lcd: "length (concat (map lcdByte cs)) = 4 * length cs"
  by (induction cs) (simp_all add: lcdByte_def)

lemma number_data: "in_data (packChannels f v)" "in_data (packCarrier v)" "in_data (packPins f v)"
  by (simp_all add: in_data_def packChannels_def packCarrier_def packPins_def iguanaPinSpecToData_def Let_def)

lemma file_data:
  "in_data (if fst (iguanaReadBlockFile f) then 68 else 0, Some (snd (iguanaReadBlockFile f)))" "in_data (packBurst junk a)"
  by (auto simp: in_data_def iguanaReadBlockFile_def packBurst_def length_lcd Let_def split: option.splits)

lemma if_in_data:
  "\<exists>r. x = Inr r \<and> in_data r \<Longrightarrow> \<exists>r. y = Inr r \<and> in_data r \<Longrightarrow> \<exists>r. (if c then x else y) = Inr r \<and> in_data r"
  by simp

lemma packArgs_in_data:
  assumes "needsArg s \<longrightarrow> arg t \<noteq> None" "length (pinState st) = 8"
  shows "\<exists>r. packArgs e junk t s st = Inr r \<and> in_data r"
proof (cases "spec_code s \<in> set argCodes")
  case True
  then obtain a where a: "arg t = Some a" using assms(1) by (auto simp: needsArg_def)
  have n: "\<exists>r. numberArg t (packChannels f) = Inr r \<and> in_data r" "\<exists>r. numberArg t packCarrier = Inr r \<and> in_data r"
      "\<exists>r. numberArg t (packPins f) = Inr r \<and> in_data r" for f
    using numberArg_in_data [OF a] number_data by blast+
  have p: "\<exists>r. theArg t (\<lambda>a. let (n, ps) = iguanaReadPulseFile (files e a) in Inr (s32 (n * 4), Some (pulseBytes ps))) = Inr r \<and> in_data r"
      "\<exists>r. theArg t (\<lambda>a. let (ok, block) = iguanaReadBlockFile (files e a) in Inr (if ok then 68 else 0, Some block)) = Inr r \<and> in_data r"
      "\<exists>r. theArg t (\<lambda>a. Inr (packBurst junk a)) = Inr r \<and> in_data r"
      "\<exists>r. theArg t (\<lambda>a. Inr (int (length a) + 1, Some (a @ [0]))) = Inr r \<and> in_data r"
    using pulse_data [of "files e a"] file_data(1) [of "files e a"] file_data(2) [of junk a]
    by (simp_all add: theArg_def a split_beta in_data_def)
  have q: "\<exists>r. Inr (8, Some (pinState st)) = Inr r \<and> in_data r" "\<exists>r. Inr (4, Some (take 4 (pinState st))) = Inr r \<and> in_data r"
      "\<exists>r. Inr (4, Some (drop 4 (pinState st))) = Inr r \<and> in_data r" "\<exists>r. Inr (0, None) = Inr r \<and> in_data r"
    using assms(2) by (simp_all add: in_data_def)
  show ?thesis unfolding packArgs_def Let_def [of "spec_code s"] by (intro if_in_data n p q)
next
  case False
  then show ?thesis using assms(2) by (auto simp: packArgs_def argCodes_def in_data_def Let_def)
qed

text \<open>
  C33.  What the client sends is well formed: the arguments of a task from the command line are packed without a
  crash, and the length of the request never exceeds the data that goes with it.
\<close>

theorem packed_arguments_are_in_bounds:
  assumes "task_ok t" "checkTask t = Inr (True, t')" "spec t' = Some s" "length (pinState st) = 8"
  shows "\<exists>n dat. packArgs e junk t' s st = Inr (n, dat) \<and> (0 \<le> n \<longrightarrow> (case dat of None \<Rightarrow> n = 0 | Some bs \<Rightarrow> n \<le> int (length bs)))"
proof -
  obtain s0 where "spec t' = Some s0" "arg t' = arg t" "needsArg s0 \<longrightarrow> arg t \<noteq> None" using check_ok [OF assms(1)] assms(2) by auto
  then show ?thesis using packArgs_in_data [of s t' st e junk] assms(3,4) by (auto simp: in_data_def)
qed

text \<open>The carrier of a command line, from its text to the request.\<close>

lemma carrier_spec: "scanSpecs supportedCommands ''set carrier'' None = Some (plain ''set carrier'' IG_DEV_SETCARRIER)"
  by code_simp

definition idleEnv :: taskEnv where
  "idleEnv = \<lparr>files = \<lambda>_. None, millis = \<lambda>_. None, seconds = \<lambda>_. [], writes = True\<rparr>"

theorem packed_arguments_are_in_bounds_witness:
  "\<exists>n dat. packArgs idleEnv (\<lambda>_. 0) \<lparr>command = ''set carrier'', arg = Some (dec 38000), spec = Some (plain ''set carrier'' IG_DEV_SETCARRIER), isSubTask = False\<rparr>
       (plain ''set carrier'' IG_DEV_SETCARRIER) (prog0 (\<lambda>_. [])) = Inr (n, dat)
     \<and> (0 \<le> n \<longrightarrow> (case dat of None \<Rightarrow> n = 0 | Some bs \<Rightarrow> n \<le> int (length bs)))"
proof -
  let ?t = "\<lparr>command = ''set carrier'', arg = Some (dec 38000), spec = None, isSubTask = False\<rparr> :: igtask"
  have m: "plain ''set carrier'' IG_DEV_SETCARRIER \<in> set supportedCommands" by code_simp
  have "task_ok ?t" unfolding task_ok_def by (rule bexI [OF _ m]) (simp add: plain_def)
  moreover have "checkTask ?t = Inr (True, ?t\<lparr>spec := Some (plain ''set carrier'' IG_DEV_SETCARRIER)\<rparr>)"
    using carrier_spec by (simp add: checkTask_def findTaskSpec_def plain_def)
  ultimately show ?thesis
    using packed_arguments_are_in_bounds [of ?t _ "plain ''set carrier'' IG_DEV_SETCARRIER" "prog0 (\<lambda>_. [])" idleEnv "\<lambda>_. 0"]
    by (fastforce simp: prog0_def)
qed

lemma output_pins_table:
  "List.find (\<lambda>row. fst row = ''set-output-pins'') clientOptions = Some (''set-output-pins'', 0x121, True)"
  "(0x121 :: u16) \<in> set directKeys"
  "List.find (\<lambda>s. spec_code s = 0x121) supportedCommands = Some (setter ''set output pins'' 1 1)"
  "scanSpecs supportedCommands ''set output pins'' None = Some (setter ''set output pins'' 1 1)"
  by code_simp+

lemma final_check_found: "spec finalCheck = Some \<lparr>cmd_text = ''final check'', internal = False, spec_code = FINAL_CHECK, spec_bit = 0, parsePins = False\<rparr>"
  by code_simp

lemma quiet_final_check:
  "packetIsError (answered ev) = (True, n) \<Longrightarrow> n = ETIMEDOUT \<or> n = EIO \<Longrightarrow> receiveResponse [ev] finalCheck st = Inr (Some (False, st, []))"
  by (auto simp: complain_def final_check_found)

text \<open>
  An argument that is no number is complained about but does not count: the client leaves with the
  exit code of success, without having asked the daemon for anything.
\<close>

theorem unparsed_argument_exits_zero:
  assumes "parseNumber (Some a) = Inr None" "packetIsError (answered final) = (True, n)" "n = ETIMEDOUT \<or> n = EIO"
  shows "clientMain connects e junk evs final [(''set-output-pins'', Some a)] st
    = Inr (Some (0, say (str ''set output pins: failed: Could not parse argument'' @ [0x0A]) st))"
proof -
  let ?t = "\<lparr>command = ''set output pins'', arg = Some a, spec = None, isSubTask = False\<rparr> :: igtask"
  have "enqueueTaskById 0x121 (Some a) [] = Inr [?t]"
    by (simp add: enqueueTaskById_def enqueueCode_def output_pins_table enqueueTask_def setter_def)
  then have "parseArgs [(''set-output-pins'', Some a)] [] None = Inr (Some ([?t], None))"
    by (simp add: output_pins_table parseClientOption_def)
  moreover have "checkTask ?t = Inr (False, ?t\<lparr>spec := Some (setter ''set output pins'' 1 1)\<rparr>)"
    using assms(1) by (simp add: checkTask_def findTaskSpec_def output_pins_table setter_def)
  ultimately show ?thesis using quiet_final_check [OF assms(2,3)] by (simp add: clientMain_def str_def)
qed

theorem unparsed_argument_exits_zero_witness:
  "clientMain (\<lambda>_ _. False) idleEnv (\<lambda>_. 0) [] \<lparr>answered = None, timeUp = True\<rparr>
      [(''set-output-pins'', Some (str ''x''))] (prog0 (\<lambda>_. []))
    = Inr (Some (0, say (str ''set output pins: failed: Could not parse argument'' @ [0x0A]) (prog0 (\<lambda>_. []))))"
proof -
  have "parseNumber (Some (str ''x'')) = Inr None" by code_simp
  then show ?thesis by (rule unparsed_argument_exits_zero [where n = EIO]) (simp_all add: packetIsError_def)
qed

end
