(* ===== verification/Spec2Isabelle.thy ===== *)
theory Spec2Isabelle
  imports Client_Daemon Response_Race Command_Race Driver_Dispatch Lirc_Properties Example_Program Windows_Refinement
    Windows_Service Windows_Compat Server_Socket Client_Main
begin

text \<open>
  Verification of the software for the IguanaWorks USB infrared transceiver: the daemon \<open>igdaemon\<close>, the
  client library, the command line client \<open>igclient\<close>, the USB drivers and the Windows service under
  \<open>src/software/usb_ir\<close>, and the plug-in for lirc under \<open>src/software/lirc-drv-iguanair\<close>.

  \<^bold>\<open>The program.\<close>  The daemon finds transceivers through a driver, which is a shared object (\<open>driver.c\<close>,
  \<open>drivers/libusb.c\<close>).  Each device has two threads.  The reader (\<open>handleIncomingPackets\<close> in
  \<open>device-interface.c\<close>) takes packets off the interrupt endpoint, tells answers from signals, and queues
  them: signals in a list, the answer in a slot with one place, each announced by a byte on a pipe.  The
  worker (\<open>client-interface.c\<close>, with its event loop in \<open>daemon.c\<close>) accepts clients on a socket, serves
  their requests, sends requests to the device (\<open>deviceTransaction\<close>) and hands signals to the clients
  that asked for them.  A control socket answers requests about the list of devices (\<open>server.c\<close>).
  Clients speak through \<open>iguanaIR.c\<close>: packets (\<open>dataPackets.c\<close>) over sockets (\<open>pipes.c\<close>).  A signal is a list
  of pulse and space durations in microseconds; \<open>sendFormat.c\<close> turns it into the bytes the firmware plays.
  The lirc plug-in (\<open>iguanair.c\<close>) is a client as well: a child process receives and passes words to lirc
  through a pipe, the parent sends.  On Windows the daemon is a service with an event loop of its own
  (\<open>win32/service.c\<close>) around the same worker.

  \<^bold>\<open>Theories and sources.\<close>

  \<^item> \<open>Prelude\<close>: machine types, faults (\<open>fault\<close> are the ways C code goes wrong: null pointers, accesses out of
    bounds, use of freed memory), the result type \<open>res\<close> with \<open>bind_res\<close>, C strings as lists of bytes, words
    in both byte orders, list lemmas.  \<open>Codes\<close>: the constants of the headers.  \<open>Scan\<close>: \<open>sscanf\<close> and \<open>fgets\<close>.
  \<^item> \<open>Soft_Double\<close>: double arithmetic by rounding of fractions, for the two expressions that use it.
  \<^item> \<open>Item_List\<close>: \<open>list.c\<close> on an explicit store.  \<open>lrep h l xs\<close> is the representation predicate; the
    operations implement the functions on \<open>xs\<close>, and the locale \<open>fifo\<close> is the queue contract, interpreted
    on the pointer code.  The other theories keep lists as HOL lists on the strength of that.
  \<^item> \<open>Send_Format\<close>: \<open>sendFormat.c\<close>, with the firmware's transmission as the meaning of the bytes: \<open>read_buffer\<close> of
    \<open>pc.asm\<close> with its buffer of 150 bytes, \<open>send_body\<close> of \<open>body.asm\<close>, and the transmit loop of \<open>ir.asm\<close> with its
    count of one byte.
  \<^item> \<open>Protocol_Versions\<close>: \<open>protocol-versions.c\<close>.  \<open>Device_Table\<close>: the tables and computations of
    \<open>device-interface.c\<close>.  \<open>Device_Interface\<close>: its operations on the state \<open>devWorld\<close>, which is \<open>iguanaDev\<close>
    extended by what the driver answers.  \<open>Device_Transactions\<close>, \<open>Device_Reader\<close>: their properties.
    \<open>Response_Race\<close>: the two threads at the response slot as a step relation, with the crash it reaches and the
    runs that are free of it.  \<open>Command_Race\<close>: any number of threads that write to the command pipe of the main
    thread, one call at a time.
  \<^item> \<open>Pipes\<close>, \<open>Data_Packets\<close>, \<open>Server\<close>: \<open>pipes.c\<close>, \<open>dataPackets.c\<close>, \<open>server.c\<close>.
  \<^item> \<open>Client_Interface\<close>: \<open>client-interface.c\<close> and \<open>listenToClients\<close> of \<open>daemon.c\<close> on the state \<open>listener\<close>.
    \<open>Client_Properties\<close>, \<open>Listener_Properties\<close>, \<open>Client_Requests\<close>: what requests and whole runs do.
    \<open>End_To_End\<close>: a transmission from the client's request to the played waveform.
  \<^item> \<open>Client_Library\<close>: \<open>iguanaIR.c\<close>.  \<open>Client_Program\<close>, \<open>Client_Tasks\<close>, \<open>Client_Main\<close>: \<open>client.c\<close>.  \<open>Client_Text\<close>:
    what the client prints and reads.  \<open>Client_Daemon\<close>: client and daemon together.
  \<^item> \<open>Usb_Driver\<close>: \<open>drivers/libusb.c\<close>, with the locale \<open>bus_scanner\<close>, the contract of a driver's scan that
    both drivers are shown to meet.  \<open>Usb_In_Use\<close>: its search of \<open>/sys\<close> and the forced claim of a device.
    \<open>Usb_Driver_Pre1\<close>: \<open>drivers/libusbpre1.c\<close>, compared with the newer driver.  \<open>Driver_Search\<close>:
    the search of \<open>driver.c\<close> for a driver.  \<open>Driver_Dispatch\<close>: the table of functions of a driver, the calls through
    it, and what the server makes of them.
  \<^item> \<open>Logging\<close>: \<open>logging.c\<close>.  \<open>Server_Startup\<close>: the options and \<open>main\<close> of \<open>daemon.c\<close>, start, stop and scan timer
    of \<open>server.c\<close>.  \<open>Server_Socket\<close>: the server sockets of \<open>pipes.c\<close> over a model of the file system.
  \<^item> \<open>Windows_Pipes\<close>, \<open>Windows_Compat\<close>: \<open>win32/pipes.c\<close> and \<open>win32/compat-windows.c\<close>, with the clocks of both systems.
    \<open>Windows_Listener\<close>: \<open>listenToClients\<close> and \<open>setAlias\<close> of \<open>win32/service.c\<close> on the state \<open>winListener\<close>, which has a
    \<open>listener\<close> in it; a \<open>pass\<close> is what Windows decides in one turn of the loop.  \<open>Windows_Refinement\<close>: its runs are
    runs of the Unix loop.  \<open>Windows_Service\<close>: the service, its handler and its options.
  \<^item> \<open>Lirc_Driver\<close>: \<open>iguanair.c\<close>, with the daemon as an argument.  \<open>Lirc_Properties\<close>: its properties, with the
    daemon of \<open>Client_Interface\<close> in that place; the locale \<open>infrared_daemon\<close> is what the plug-in needs of it.
    \<open>Example_Program\<close>: \<open>examples/example1.c\<close> with the same daemon.

  \<^bold>\<open>How the code is rendered.\<close>  A struct is a record; its fields keep their names unless HOL or another
  struct has them.  Integers have the width of the C type where wrap-around matters.  A function that
  may go wrong returns \<open>Inl\<close> of a fault; a failure the code handles is an ordinary result with the \<open>errno\<close> or
  the return value of the code.  Operations take the state and return it changed.  What the environment
  decides is an argument or a field of the state: the results of the driver by number of packets sent, the
  packets that arrive during a wait, the schedule of \<open>select\<close>, \<open>read\<close> and \<open>write\<close>, the files, the events of
  a loop.  Theorems hold for every choice of them unless a hypothesis says otherwise.

  \<^bold>\<open>Loops.\<close>  Loops over data are recursive on the data.  Loops that wait for the environment (the reader, the
  event loop, timed reads and writes, the claiming of a device) are recursive on a finite list of events; a
  theorem about them holds for runs of any length.  The search for a device number is a \<open>function\<close> whose
  termination is proved.  The loops of \<open>mkdirs\<close> and \<open>createServerPipe\<close>, which retry until the file system lets
  them pass, are partial functions: that they end is a theorem about absolute paths, and where they do not
  is one as well.  The loop over the clients on Windows counts down from their number, which is enough as a turn
  visits one client and removes none but that one (\<open>serveClients_enough\<close>).  There is no other fuel.

  \<^bold>\<open>What is shown.\<close>  End to end: a transmission that fits the buffer of the device and that the daemon
  confirms is played by the firmware as the waveform of the request, and what becomes of a longer one; a
  received signal is offered to exactly the clients that receive, in order, and arrives unless the write to
  the client fails; a printed signal can be stored and replayed; lirc receives the signals of a device and
  plays its codes through the same daemon; the example reproduces the run that is recorded in its source,
  byte for byte.  A daemon gets its socket and never takes that of another.  The Windows service ends when
  it is told to, and a device on Windows has its pipe under its alias.  Invariants: the books of a listener,
  the packets and notifications of the reader, the order of the device list.  Refinement: the pointer list,
  the Windows listener.  Equivalence: the encoder and its meaning.  Exactness and bounds: the encoder, the
  carrier delays, the double arithmetic, the control packet.  Round trips: packets, protocol codes,
  settings, pin specifications, texts.  Safety: a transaction with a well-formed request does not fault
  where the flush of old responses does not meet the reader, and the main thread acts on every message of
  the command pipe where no command is torn; both races are in the code, and both are shown to do harm.
  Errors: the paths on which the code leaves its memory, loses signal or miscounts, with the inputs that
  lead there.

  \<^bold>\<open>Not modelled.\<close>  System calls themselves: threads and the clock (\<open>compat-unix.c\<close>), \<open>accept\<close>, \<open>fork\<close> and
  signals beyond their results, the expansion of formats in log messages and the help texts, the splitting of
  a command line by \<open>argp\<close>.  Hotplug on macOS (calls of its frameworks throughout), the vendored argp and
  libusb, the bindings, and the firmware except its transmission (of that, the timing within a cycle, the
  repeater and the pins of the transmitters are left out).  On Windows, the making of the security
  descriptor of a pipe is one result, and the handles of threads are left out.  The search for the
  directory of the drivers is the one for Linux.  Memory allocation is taken to succeed.  Threads are
  interleaved in \<open>Response_Race\<close> and \<open>Command_Race\<close> only; elsewhere the worker sees what the reader has queued
  at its waits, a flush that meets the reader leaves what \<open>flushTears\<close> says, and the words of others between
  the two of the main thread's first request are an argument of \<open>waitOnCommPipe\<close>.
\<close>

end
